(* ===== verification/Prelude.thy ===== *)
theory Prelude
  imports Main "HOL-Library.Word" "HOL-Library.Sublist" "HOL-Library.List_Lexorder"
    "HOL-Library.Char_ord"
begin

text \<open>
  The pieces of Go and of its standard library that several components use: machine
  integers, byte strings, the functions of the packages \<^verbatim>\<open>strings\<close>, \<^verbatim>\<open>strconv\<close> and
  \<^verbatim>\<open>sort\<close> that the source calls, and the generic lemmas on lists and maps that the
  component proofs share.  A Go string is a sequence of bytes, so \<^typ>\<open>string\<close> (a list of
  8-bit characters) is an exact model of it and \<^term>\<open>length\<close> is Go's \<^verbatim>\<open>len\<close>.
\<close>

type_synonym int64 = "64 word"
type_synonym uint64 = "64 word"
type_synonym uint32 = "32 word"
type_synonym bytes = string

named_theorems go_string \<open>facts on the string functions of the Go standard library\<close>

section \<open>Package strings\<close>

subsection \<open>Split and Join\<close>

text \<open>
  \<open>strings_Split c s\<close> is \<^verbatim>\<open>strings.Split(s, sep)\<close> for a one-byte separator: it returns one
  more piece than there are separators, so the pieces of the empty string are \<open>[""]\<close>.
\<close>

fun strings_Split :: "char \<Rightarrow> string \<Rightarrow> string list" where
  "strings_Split c [] = [[]]"
| "strings_Split c (x # xs) =
     (if x = c then [] # strings_Split c xs
      else (case strings_Split c xs of
              [] \<Rightarrow> [[x]]
            | p # ps \<Rightarrow> (x # p) # ps))"

fun strings_Join :: "string list \<Rightarrow> string \<Rightarrow> string" where
  "strings_Join [] sep = []"
| "strings_Join [p] sep = p"
| "strings_Join (p # q # ps) sep = p @ sep @ strings_Join (q # ps) sep"

text \<open>\<open>strings_SplitN2 c s\<close> is \<^verbatim>\<open>strings.SplitN(s, sep, 2)\<close>: at most one cut, at the first separator.\<close>

definition strings_SplitN2 :: "char \<Rightarrow> string \<Rightarrow> string list" where
  "strings_SplitN2 c s =
     (case dropWhile (\<lambda>x. x \<noteq> c) s of
        [] \<Rightarrow> [s]
      | _ # rest \<Rightarrow> [takeWhile (\<lambda>x. x \<noteq> c) s, rest])"

definition strings_HasPrefix :: "string \<Rightarrow> string \<Rightarrow> bool" where
  "strings_HasPrefix s p \<longleftrightarrow> take (length p) s = p"

lemma HasPrefix_iff [go_string]: "strings_HasPrefix s p \<longleftrightarrow> (\<exists>r. s = p @ r)"
  unfolding strings_HasPrefix_def by (metis append_eq_conv_conj append_take_drop_id)

lemma HasPrefix_append [simp]: "strings_HasPrefix (p @ r) p"
  by (simp add: strings_HasPrefix_def)

lemma HasPrefix_Nil [simp]: "strings_HasPrefix s []"
  by (simp add: strings_HasPrefix_def)

lemma HasPrefix_single [simp]: "strings_HasPrefix s [c] \<longleftrightarrow> s \<noteq> [] \<and> hd s = c"
  by (cases s) (auto simp: strings_HasPrefix_def)

lemma HasPrefix_trans: "strings_HasPrefix s (p @ q) \<Longrightarrow> strings_HasPrefix s p"
  by (auto simp: HasPrefix_iff)

lemma Split_nonempty [simp]: "strings_Split c s \<noteq> []"
  by (induction s) (auto split: list.splits)

lemma Split_no_sep: "c \<notin> set s \<Longrightarrow> strings_Split c s = [s]"
  by (induction s) auto

lemma Split_pieces: "p \<in> set (strings_Split c s) \<Longrightarrow> c \<notin> set p"
  by (induction s arbitrary: p) (auto split: list.splits if_splits)

lemma Split_append_sep:
  "c \<notin> set p \<Longrightarrow> strings_Split c (p @ c # s) = p # strings_Split c s"
  by (induction p) auto

lemma Split_Join [go_string]:
  "ps \<noteq> [] \<Longrightarrow> \<forall>p \<in> set ps. c \<notin> set p \<Longrightarrow> strings_Split c (strings_Join ps [c]) = ps"
proof (induction ps "[c]" rule: strings_Join.induct)
  case (3 p q ps)
  then show ?case by (simp add: Split_append_sep)
qed (simp_all add: Split_no_sep)

lemma Join_Cons: "ps \<noteq> [] \<Longrightarrow> strings_Join (p # ps) sep = p @ sep @ strings_Join ps sep"
  by (cases ps) auto

lemma Join_Split [go_string]: "strings_Join (strings_Split c s) [c] = s"
proof (induction s)
  case (Cons x s)
  obtain p ps where ps: "strings_Split c s = p # ps"
    using Split_nonempty [of c s] by (cases "strings_Split c s") auto
  show ?case
  proof (cases "x = c")
    case True
    with Cons show ?thesis by (simp add: Join_Cons)
  next
    case False
    with Cons ps show ?thesis by (cases ps) auto
  qed
qed simp

lemma SplitN2_append_sep:
  "c \<notin> set p \<Longrightarrow> strings_SplitN2 c (p @ c # s) = [p, s]"
proof -
  assume "c \<notin> set p"
  then have "dropWhile (\<lambda>x. x \<noteq> c) (p @ c # s) = c # s"
      and "takeWhile (\<lambda>x. x \<noteq> c) (p @ c # s) = p"
    by (induction p) auto
  then show ?thesis by (simp add: strings_SplitN2_def)
qed

lemma SplitN2_no_sep: "c \<notin> set s \<Longrightarrow> strings_SplitN2 c s = [s]"
proof -
  assume "c \<notin> set s"
  then have "dropWhile (\<lambda>x. x \<noteq> c) s = []" by (induction s) auto
  then show ?thesis unfolding strings_SplitN2_def by (simp only: list.case)
qed

subsection \<open>TrimSpace and LastIndex\<close>

text \<open>
  \<^verbatim>\<open>strings.TrimSpace\<close> on ASCII text: tab, newline, vertical tab, form feed, carriage return
  and space are cut from both ends.
\<close>

definition is_space :: "char \<Rightarrow> bool" where
  "is_space c \<longleftrightarrow> c \<in> {CHR 0x09, CHR 0x0A, CHR 0x0B, CHR 0x0C, CHR 0x0D, CHR '' ''}"

definition strings_TrimSpace :: "string \<Rightarrow> string" where
  "strings_TrimSpace s = rev (dropWhile is_space (rev (dropWhile is_space s)))"

lemma TrimSpace_id:
  "s = [] \<or> (\<not> is_space (hd s) \<and> \<not> is_space (last s)) \<Longrightarrow> strings_TrimSpace s = s"
proof (cases s rule: rev_cases)
  case (snoc xs x)
  assume "s = [] \<or> (\<not> is_space (hd s) \<and> \<not> is_space (last s))"
  with snoc have "\<not> is_space (hd s)" "\<not> is_space x" by auto
  then have "dropWhile is_space s = s" by (cases s) auto
  with snoc \<open>\<not> is_space x\<close> show ?thesis by (simp add: strings_TrimSpace_def)
qed (simp add: strings_TrimSpace_def)

text \<open>\<open>strings_LastIndex s c\<close> is \<^verbatim>\<open>strings.LastIndex(s, c)\<close>; \<^term>\<open>None\<close> is its \<open>-1\<close>.\<close>

fun strings_LastIndex :: "string \<Rightarrow> char \<Rightarrow> nat option" where
  "strings_LastIndex [] c = None"
| "strings_LastIndex (x # xs) c =
     (case strings_LastIndex xs c of
        Some i \<Rightarrow> Some (Suc i)
      | None \<Rightarrow> (if x = c then Some 0 else None))"

lemma LastIndex_None [go_string]: "strings_LastIndex s c = None \<longleftrightarrow> c \<notin> set s"
  by (induction s) (auto split: option.splits)

lemma LastIndex_append_sep [go_string]:
  "c \<notin> set q \<Longrightarrow> strings_LastIndex (p @ c # q) c = Some (length p)"
proof (induction p)
  case Nil
  then have "strings_LastIndex q c = None" by (simp add: LastIndex_None)
  then show ?case by simp
qed simp

section \<open>Package strconv\<close>

fun digits_rev :: "nat \<Rightarrow> string" where
  "digits_rev n =
     (if n < 10 then [char_of (48 + n)] else char_of (48 + n mod 10) # digits_rev (n div 10))"

declare digits_rev.simps [simp del]

definition strconv_Itoa :: "int \<Rightarrow> string" where
  "strconv_Itoa i =
     (if i < 0 then CHR ''-'' # rev (digits_rev (nat (- i))) else rev (digits_rev (nat i)))"

section \<open>Package sort\<close>

text \<open>
  \<^verbatim>\<open>sort.Search(n, f)\<close> is the library's binary search, its loop over \<open>i\<close> and \<open>j\<close> written as
  a recursion: the search interval shrinks in every round.
\<close>

function search_loop :: "(nat \<Rightarrow> bool) \<Rightarrow> nat \<Rightarrow> nat \<Rightarrow> nat" where
  "search_loop f i j =
     (if i < j then
        (let h = (i + j) div 2 in
         if \<not> f h then search_loop f (h + 1) j else search_loop f i h)
      else i)"
  by pat_completeness auto
termination
  by (relation "measure (\<lambda>(f, i, j). j - i)") auto

declare search_loop.simps [simp del]

definition sort_Search :: "nat \<Rightarrow> (nat \<Rightarrow> bool) \<Rightarrow> nat" where
  "sort_Search n f = search_loop f 0 n"

text \<open>
  For a predicate that stays true once it is true, the search returns the first index where
  it holds, and the upper bound when it holds nowhere.
\<close>

lemma search_loop_correct:
  assumes "\<And>a b. a \<le> b \<Longrightarrow> b < n \<Longrightarrow> f a \<Longrightarrow> f b"
    and "i \<le> j" and "j \<le> n" and "\<And>a. a < i \<Longrightarrow> \<not> f a" and "j < n \<Longrightarrow> f j"
  shows "search_loop f i j \<le> n \<and> (\<forall>a < search_loop f i j. \<not> f a) \<and>
    (search_loop f i j < n \<longrightarrow> f (search_loop f i j))"
  using assms
proof (induction f i j rule: search_loop.induct)
  case (1 f i j)
  note mono = 1(3) and le = 1(4) and jn = 1(5) and below = 1(6) and at = 1(7)
  define h where "h = (i + j) div 2"
  show ?case
  proof (cases "i < j")
    case True
    then have h: "i \<le> h" "h < j" by (simp_all add: h_def)
    show ?thesis
    proof (cases "f h")
      case False
      have "\<not> f a" if "a < h + 1" for a
        using mono [of a h] h jn False that by auto
      with 1(1) [OF True h_def False] mono h jn at show ?thesis
        by (simp add: search_loop.simps [of f i j] True False flip: h_def)
    next
      case fh: True
      with 1(2) [OF True h_def] mono h jn below show ?thesis
        by (simp add: search_loop.simps [of f i j] True flip: h_def)
    qed
  next
    case False
    then have "search_loop f i j = i" by (simp add: search_loop.simps [of f i j])
    with False le jn below at show ?thesis by auto
  qed
qed

lemma sort_Search_correct:
  assumes "\<And>a b. a \<le> b \<Longrightarrow> b < n \<Longrightarrow> f a \<Longrightarrow> f b"
  shows "sort_Search n f \<le> n" and "a < sort_Search n f \<Longrightarrow> \<not> f a"
    and "sort_Search n f < n \<Longrightarrow> f (sort_Search n f)"
  using search_loop_correct [of n f 0 n] assms by (auto simp: sort_Search_def)

section \<open>Package go/ast\<close>

text \<open>\<^verbatim>\<open>ast.IsExported\<close> for ASCII names.\<close>

definition IsExported :: "string \<Rightarrow> bool" where
  "IsExported name \<longleftrightarrow> name \<noteq> [] \<and> 65 \<le> (of_char (hd name) :: nat) \<and> (of_char (hd name) :: nat) \<le> 90"

section \<open>Lists and maps\<close>

lemma remove1_append_single [simp]: "x \<notin> set xs \<Longrightarrow> remove1 x (xs @ [x]) = xs"
  by (simp add: remove1_append)

lemma find_append:
  "find P (xs @ ys) = (case find P xs of Some x \<Rightarrow> Some x | None \<Rightarrow> find P ys)"
  by (induction xs) auto

lemma distinct_butlast_last: "distinct xs \<Longrightarrow> xs \<noteq> [] \<Longrightarrow> last xs \<notin> set (butlast xs)"
  by (metis append_butlast_last_id distinct_append disjoint_iff list.set_intros(1))

lemma remove1_last: "distinct xs \<Longrightarrow> xs \<noteq> [] \<Longrightarrow> remove1 (last xs) xs = butlast xs"
  by (metis append_butlast_last_id distinct_butlast_last remove1_append_single)

lemma set_butlast_distinct: "distinct xs \<Longrightarrow> xs \<noteq> [] \<Longrightarrow> set (butlast xs) = set xs - {last xs}"
  by (metis remove1_last set_remove1_eq)

section \<open>Outcomes of a call\<close>

text \<open>
  A Go call returns, panics, or never returns (it waits for ever or loops for ever).  An
  operation on a state \<open>'s\<close> yields an outcome and the state it leaves behind: a panic unwinds
  the stack, but what was written before it stays written.
\<close>

datatype 'a outcome = Returns 'a | Panics string | Hangs

type_synonym ('a, 's) action = "'s \<Rightarrow> 'a outcome \<times> 's"

type_synonym error = string

fun and_then :: "'a outcome \<times> 's \<Rightarrow> ('a \<Rightarrow> ('b, 's) action) \<Rightarrow> 'b outcome \<times> 's" where
  "and_then (Returns a, s) f = f a s"
| "and_then (Panics e, s) f = (Panics e, s)"
| "and_then (Hangs, s) f = (Hangs, s)"

lemma and_then_Returns [simp]:
  "and_then r f = (Returns b, s') \<longleftrightarrow> (\<exists>a s. r = (Returns a, s) \<and> f a s = (Returns b, s'))"
  by (cases "(r, f)" rule: and_then.cases) auto

end
