(* ===== verification/Client.thy ===== *)
theory Client
  imports Prelude
begin

text \<open>
  Package \<^verbatim>\<open>geerpc\<close>, \<^verbatim>\<open>client.go\<close>: one connection that is shared by any number of calls, as a
  transition system.  A call has a number; each goroutine that runs \<^verbatim>\<open>Call\<close> is identified with
  its call, and the goroutine \<^verbatim>\<open>receive\<close> is the receiver.  The sections that hold the mutex
  \<^verbatim>\<open>mu\<close> are steps; the mutex \<^verbatim>\<open>sending\<close> is held across the write of a request, so who holds it
  is part of the state.  What the connection delivers (headers, bodies, errors) is arbitrary.
\<close>

section \<open>State\<close>

type_synonym call_no = nat

text \<open>
  A call: its sequence number (0 until it is registered), its reply, and the messages on its
  channel \<^verbatim>\<open>Done\<close>, each with the error that the call had then.
\<close>

record 'r rpc_call =
  call_Seq :: uint64
  call_Reply :: "'r option"
  call_Done :: "error option list"

datatype phase =
    Unused
  | Sending
  | Writing uint64
  | Waiting_done
  | Returned "error option"
  | Given_up

datatype receiver =
    AtHeader
  | AtBody uint64 string "call_no option"
  | Failed error
  | Stopped

text \<open>
  \<open>cl_sender\<close> is the call whose goroutine holds \<^verbatim>\<open>sending\<close>.  Two ghosts: \<open>cl_registered\<close> counts the
  registered calls, and \<open>cl_received\<close> holds the bodies read into replies, with the sequence
  number that their header had.
\<close>

record 'r rpc_client =
  cl_seq :: uint64
  cl_pending :: "uint64 \<Rightarrow> call_no option"
  cl_closing :: bool
  cl_shutdown :: bool
  cl_sender :: "call_no option"
  cl_calls :: "call_no \<Rightarrow> 'r rpc_call"
  cl_phase :: "call_no \<Rightarrow> phase"
  cl_receiver :: receiver
  cl_registered :: nat
  cl_received :: "(uint64 \<times> 'r) list"

definition newClientCodec :: "'r rpc_client" where
  "newClientCodec =
     \<lparr>cl_seq = 1, cl_pending = Map.empty, cl_closing = False, cl_shutdown = False, cl_sender = None,
      cl_calls = (\<lambda>_. \<lparr>call_Seq = 0, call_Reply = None, call_Done = []\<rparr>), cl_phase = (\<lambda>_. Unused),
      cl_receiver = AtHeader, cl_registered = 0, cl_received = []\<rparr>"

section \<open>Operations\<close>

definition IsAvailable :: "'r rpc_client \<Rightarrow> bool" where
  "IsAvailable c \<longleftrightarrow> \<not> cl_shutdown c \<and> \<not> cl_closing c"

definition ErrShutdown :: error where
  "ErrShutdown = ''connection is shut down''"

text \<open>\<open>closed\<close> is what closing the codec gives.\<close>

definition client_Close :: "error option \<Rightarrow> 'r rpc_client \<Rightarrow> error option \<times> 'r rpc_client" where
  "client_Close closed c =
     (if cl_closing c then (Some ErrShutdown, c) else (closed, c\<lparr>cl_closing := True\<rparr>))"

abbreviation upd_call :: "call_no \<Rightarrow> ('r rpc_call \<Rightarrow> 'r rpc_call) \<Rightarrow> 'r rpc_client \<Rightarrow> 'r rpc_client" where
  "upd_call k f c \<equiv> c\<lparr>cl_calls := (cl_calls c)(k := f (cl_calls c k))\<rparr>"

abbreviation set_phase :: "call_no \<Rightarrow> phase \<Rightarrow> 'r rpc_client \<Rightarrow> 'r rpc_client" where
  "set_phase k p c \<equiv> c\<lparr>cl_phase := (cl_phase c)(k := p)\<rparr>"

text \<open>The assignment to \<^verbatim>\<open>call.Error\<close> and the message on the channel.\<close>

definition call_done :: "call_no \<Rightarrow> error option \<Rightarrow> 'r rpc_client \<Rightarrow> 'r rpc_client" where
  "call_done k err = upd_call k (\<lambda>x. x\<lparr>call_Done := call_Done x @ [err]\<rparr>)"

definition registerCall :: "call_no \<Rightarrow> 'r rpc_client \<Rightarrow> (error + uint64) \<times> 'r rpc_client" where
  "registerCall k c =
     (if cl_closing c \<or> cl_shutdown c then (Inl ErrShutdown, c)
      else
        (let q = cl_seq c
         in (Inr q, upd_call k (\<lambda>x. x\<lparr>call_Seq := q\<rparr>)
              (c\<lparr>cl_pending := (cl_pending c)(q \<mapsto> k), cl_seq := q + 1,
                 cl_registered := cl_registered c + 1\<rparr>))))"

definition removeCall :: "uint64 \<Rightarrow> 'r rpc_client \<Rightarrow> call_no option \<times> 'r rpc_client" where
  "removeCall q c = (cl_pending c q, c\<lparr>cl_pending := (cl_pending c)(q := None)\<rparr>)"

text \<open>Every pending call gets the error; the calls stay in the map.\<close>

definition terminateCalls :: "error \<Rightarrow> 'r rpc_client \<Rightarrow> 'r rpc_client" where
  "terminateCalls err c =
     c\<lparr>cl_shutdown := True,
       cl_calls := (\<lambda>k. if k \<in> ran (cl_pending c)
                        then (cl_calls c k)\<lparr>call_Done := call_Done (cl_calls c k) @ [Some err]\<rparr>
                        else cl_calls c k)\<rparr>"

text \<open>The first part of \<^verbatim>\<open>send\<close>, up to the write: the lock is taken and the call is registered.\<close>

definition send_begin :: "call_no \<Rightarrow> 'r rpc_client \<Rightarrow> 'r rpc_client" where
  "send_begin k c =
     (case registerCall k c of
        (Inl err, c') \<Rightarrow> set_phase k Waiting_done (call_done k (Some err) c')
      | (Inr q, c') \<Rightarrow> (set_phase k (Writing q) c')\<lparr>cl_sender := Some k\<rparr>)"

text \<open>The rest of \<^verbatim>\<open>send\<close>: the write has succeeded or failed, and the lock is released.\<close>

definition send_end :: "call_no \<Rightarrow> uint64 \<Rightarrow> error option \<Rightarrow> 'r rpc_client \<Rightarrow> 'r rpc_client" where
  "send_end k q res c =
     (let c1 = (case res of
                  None \<Rightarrow> c
                | Some err \<Rightarrow>
                    (case removeCall q c of
                       (None, c') \<Rightarrow> c'
                     | (Some k', c') \<Rightarrow> call_done k' (Some err) c'))
      in (set_phase k Waiting_done c1)\<lparr>cl_sender := None\<rparr>)"

text \<open>
  The receiver, after a header: the call is taken out of the map.  After the body: the three
  branches of the switch, where \<open>res\<close> is the result of reading the body and \<open>errorf\<close> is what
  \<^verbatim>\<open>fmt.Errorf\<close> makes of a text without arguments.
\<close>

definition recv_header :: "uint64 \<Rightarrow> string \<Rightarrow> 'r rpc_client \<Rightarrow> 'r rpc_client" where
  "recv_header q herr c =
     (case removeCall q c of (k, c') \<Rightarrow> c'\<lparr>cl_receiver := AtBody q herr k\<rparr>)"

definition recv_body ::
  "(string \<Rightarrow> error) \<Rightarrow> uint64 \<Rightarrow> string \<Rightarrow> call_no option \<Rightarrow> error + 'r \<Rightarrow> 'r rpc_client \<Rightarrow> 'r rpc_client"
where
  "recv_body errorf q herr k res c =
     (let c1 = (case k of
                  None \<Rightarrow> c
                | Some k \<Rightarrow>
                    if herr \<noteq> [] then call_done k (Some (errorf herr)) c
                    else
                      (case res of
                         Inl err \<Rightarrow> call_done k (Some (''reading body '' @ err)) c
                       | Inr body \<Rightarrow>
                           call_done k None
                             ((upd_call k (\<lambda>x. x\<lparr>call_Reply := Some body\<rparr>) c)
                                \<lparr>cl_received := (q, body) # cl_received c\<rparr>)))
      in c1\<lparr>cl_receiver := (case res of Inl err \<Rightarrow> Failed err | Inr _ \<Rightarrow> AtHeader)\<rparr>)"

section \<open>Steps\<close>

text \<open>
  In \<open>give_up\<close> the context of the caller is done; \<open>got\<close> is the other branch of the \<^verbatim>\<open>select\<close>.  The
  receiver terminates the calls when it gets the lock \<^verbatim>\<open>sending\<close>.
\<close>

inductive rpc_step :: "(string \<Rightarrow> error) \<Rightarrow> 'r rpc_client \<Rightarrow> 'r rpc_client \<Rightarrow> bool" for errorf where
  go: "cl_phase c k = Unused \<Longrightarrow> rpc_step errorf c (set_phase k Sending c)"
| begin_send: "cl_phase c k = Sending \<Longrightarrow> cl_sender c = None \<Longrightarrow> rpc_step errorf c (send_begin k c)"
| end_send: "cl_phase c k = Writing q \<Longrightarrow> rpc_step errorf c (send_end k q res c)"
| got: "cl_phase c k = Waiting_done \<Longrightarrow> call_Done (cl_calls c k) = e # es \<Longrightarrow>
    rpc_step errorf c (set_phase k (Returned e) c)"
| give_up: "cl_phase c k = Waiting_done \<Longrightarrow>
    rpc_step errorf c (set_phase k Given_up (snd (removeCall (call_Seq (cl_calls c k)) c)))"
| header: "cl_receiver c = AtHeader \<Longrightarrow> rpc_step errorf c (recv_header q herr c)"
| header_error: "cl_receiver c = AtHeader \<Longrightarrow> rpc_step errorf c (c\<lparr>cl_receiver := Failed err\<rparr>)"
| body: "cl_receiver c = AtBody q herr k \<Longrightarrow> rpc_step errorf c (recv_body errorf q herr k res c)"
| terminate: "cl_receiver c = Failed err \<Longrightarrow> cl_sender c = None \<Longrightarrow>
    rpc_step errorf c ((terminateCalls err c)\<lparr>cl_receiver := Stopped\<rparr>)"
| close: "rpc_step errorf c (snd (client_Close closed c))"

inductive rpc_steps :: "(string \<Rightarrow> error) \<Rightarrow> 'r rpc_client \<Rightarrow> 'r rpc_client \<Rightarrow> bool" for errorf where
  refl: "rpc_steps errorf c c"
| step: "rpc_steps errorf a b \<Longrightarrow> rpc_step errorf b c \<Longrightarrow> rpc_steps errorf a c"

abbreviation rpc_reachable :: "(string \<Rightarrow> error) \<Rightarrow> 'r rpc_client \<Rightarrow> bool" where
  "rpc_reachable errorf c \<equiv> rpc_steps errorf newClientCodec c"

lemmas rpc_defs = send_begin_def send_end_def registerCall_def removeCall_def recv_header_def
  recv_body_def terminateCalls_def call_done_def client_Close_def Let_def

section \<open>Invariant\<close>

text \<open>The receiver holds a call that it has taken out of the map and not completed yet.\<close>

fun held :: "receiver \<Rightarrow> call_no option" where
  "held (AtBody q herr k) = k"
| "held _ = None"

fun started_call :: "phase \<Rightarrow> bool" where
  "started_call Unused = False"
| "started_call Sending = False"
| "started_call _ = True"

text \<open>
  What holds of one call: it has at most one message, none before it is sent; it is writing just
  when it has the lock; while its caller waits, it is pending, or held by the receiver, or has
  its message; its reply is a body that came under its own number.
\<close>

definition call_ok :: "'r rpc_client \<Rightarrow> call_no \<Rightarrow> bool" where
  "call_ok c k \<longleftrightarrow>
     (let x = cl_calls c k; p = cl_phase c k in
      length (call_Done x) \<le> 1 \<and>
      (\<not> started_call p \<longrightarrow> call_Done x = [] \<and> call_Reply x = None \<and> call_Seq x = 0) \<and>
      (call_Seq x \<noteq> 0 \<longrightarrow> (\<exists>i < cl_registered c. call_Seq x = of_nat (i + 1))) \<and>
      (\<forall>q. p = Writing q \<longrightarrow> cl_sender c = Some k \<and> call_Seq x = q \<and> q \<noteq> 0) \<and>
      (cl_sender c = Some k \<longrightarrow> (\<exists>q. p = Writing q)) \<and>
      (p = Waiting_done \<or> cl_sender c = Some k \<longrightarrow>
         cl_pending c (call_Seq x) = Some k \<or> held (cl_receiver c) = Some k \<or> call_Done x \<noteq> []) \<and>
      (held (cl_receiver c) = Some k \<longrightarrow> call_Done x = [] \<and> started_call p \<and> call_Seq x \<noteq> 0) \<and>
      (\<forall>b. call_Reply x = Some b \<longrightarrow> (call_Seq x, b) \<in> set (cl_received c)) \<and>
      (call_Done x = [None] \<longrightarrow> call_Reply x \<noteq> None) \<and>
      (\<forall>e. p = Returned e \<longrightarrow> call_Done x = [e]))"

definition pending_ok :: "'r rpc_client \<Rightarrow> uint64 \<Rightarrow> call_no \<Rightarrow> bool" where
  "pending_ok c q k \<longleftrightarrow>
     call_Seq (cl_calls c k) = q \<and> q \<noteq> 0 \<and> started_call (cl_phase c k) \<and>
     length (call_Done (cl_calls c k)) = (if cl_shutdown c then 1 else 0) \<and>
     held (cl_receiver c) \<noteq> Some k"

text \<open>The sequence number, the numbers of different calls, and the parts of the state as a whole.\<close>

definition global_ok :: "'r rpc_client \<Rightarrow> bool" where
  "global_ok c \<longleftrightarrow>
     cl_seq c = of_nat (cl_registered c + 1) \<and>
     (cl_shutdown c \<longleftrightarrow> cl_receiver c = Stopped) \<and>
     (cl_shutdown c \<longrightarrow> cl_sender c = None) \<and>
     (\<forall>q herr k. cl_receiver c = AtBody q herr (Some k) \<longrightarrow> call_Seq (cl_calls c k) = q)"

definition numbers_ok :: "(call_no \<Rightarrow> uint64) \<Rightarrow> bool" where
  "numbers_ok f \<longleftrightarrow> (\<forall>k k'. f k = f k' \<longrightarrow> f k \<noteq> 0 \<longrightarrow> k = k')"

abbreviation seqs :: "'r rpc_client \<Rightarrow> call_no \<Rightarrow> uint64" where
  "seqs c \<equiv> \<lambda>k. call_Seq (cl_calls c k)"

definition rpc_inv :: "'r rpc_client \<Rightarrow> bool" where
  "rpc_inv c \<longleftrightarrow> (\<forall>k. call_ok c k) \<and> (\<forall>q k. cl_pending c q = Some k \<longrightarrow> pending_ok c q k) \<and>
     global_ok c \<and> numbers_ok (seqs c)"

lemma rpc_invI:
  "(\<And>k. call_ok c k) \<Longrightarrow> (\<And>q k. cl_pending c q = Some k \<Longrightarrow> pending_ok c q k) \<Longrightarrow> global_ok c \<Longrightarrow>
   numbers_ok (seqs c) \<Longrightarrow> rpc_inv c"
  by (simp add: rpc_inv_def)

lemma rpc_invD:
  assumes "rpc_inv c"
  shows "call_ok c k" and "cl_pending c q = Some k \<Longrightarrow> pending_ok c q k" and "global_ok c"
    and "numbers_ok (seqs c)"
  using assms by (simp_all add: rpc_inv_def)

lemma rpc_inv_init: "rpc_inv newClientCodec"
  by (simp add: rpc_inv_def newClientCodec_def call_ok_def global_ok_def numbers_ok_def)

lemma numbers_cong: "numbers_ok f \<Longrightarrow> (\<And>k. g k = f k) \<Longrightarrow> numbers_ok g"
  by (simp add: numbers_ok_def)

text \<open>A registered number belongs to one call only.\<close>

lemma same_number:
  assumes "rpc_inv c" and "cl_pending c q = Some k'" and "call_Seq (cl_calls c k) = q"
  shows "k' = k"
proof -
  have "call_Seq (cl_calls c k') = call_Seq (cl_calls c k)" "call_Seq (cl_calls c k') \<noteq> 0"
    using rpc_invD(2) [OF assms(1,2)] assms(3) by (simp_all add: pending_ok_def)
  moreover have "numbers_ok (seqs c)" by (rule rpc_invD(4) [OF assms(1)])
  ultimately show ?thesis unfolding numbers_ok_def by blast
qed

lemma of_nat_inj64:
  "a < 2 ^ 64 \<Longrightarrow> b < 2 ^ 64 \<Longrightarrow> (of_nat a :: uint64) = of_nat b \<longleftrightarrow> a = b"
  by (simp add: word_of_nat_eq_iff take_bit_nat_eq_self)

lemmas rpc_upd_defs = call_done_def removeCall_def recv_header_def terminateCalls_def

lemmas ok_defs = call_ok_def pending_ok_def global_ok_def Let_def

lemma inv_go:
  assumes "rpc_inv c" and "cl_phase c k = Unused"
  shows "rpc_inv (set_phase k Sending c)"
proof (rule rpc_invI)
  fix x
  show "call_ok (set_phase k Sending c) x"
    using rpc_invD(1) [OF assms(1), of x] assms(2) by (cases "x = k") (simp_all add: ok_defs)
next
  fix q x assume "cl_pending (set_phase k Sending c) q = Some x"
  with rpc_invD(2) [OF assms(1), of q x] assms(2) show "pending_ok (set_phase k Sending c) q x"
    by (auto simp: pending_ok_def)
next
  show "global_ok (set_phase k Sending c)"
    using rpc_invD(3) [OF assms(1)] by (simp add: global_ok_def)
next
  show "numbers_ok (seqs ((set_phase k Sending c)))"
    by (rule numbers_cong [OF rpc_invD(4) [OF assms(1)]]) (simp_all add: rpc_upd_defs)
qed

lemma inv_close: "rpc_inv c \<Longrightarrow> rpc_inv (snd (client_Close closed c))"
  by (simp add: rpc_inv_def ok_defs client_Close_def)

lemma inv_header_error: "rpc_inv c \<Longrightarrow> cl_receiver c = AtHeader \<Longrightarrow> rpc_inv (c\<lparr>cl_receiver := Failed err\<rparr>)"
  by (auto simp: rpc_inv_def ok_defs)

lemma inv_got:
  assumes "rpc_inv c" and "cl_phase c k = Waiting_done" and "call_Done (cl_calls c k) = e # es"
  shows "rpc_inv (set_phase k (Returned e) c)"
proof (rule rpc_invI)
  fix x
  show "call_ok (set_phase k (Returned e) c) x"
    using rpc_invD(1) [OF assms(1), of x] assms(2,3) by (auto simp: ok_defs)
next
  fix q x assume "cl_pending (set_phase k (Returned e) c) q = Some x"
  with rpc_invD(2) [OF assms(1), of q x] show "pending_ok (set_phase k (Returned e) c) q x"
    by (auto simp: ok_defs)
next
  show "global_ok (set_phase k (Returned e) c)"
    using rpc_invD(3) [OF assms(1)] by (auto simp: ok_defs)
next
  show "numbers_ok (seqs ((set_phase k (Returned e) c)))"
    by (rule numbers_cong [OF rpc_invD(4) [OF assms(1)]]) (simp_all add: rpc_upd_defs)
qed

lemma inv_header:
  assumes "rpc_inv c" and "cl_receiver c = AtHeader"
  shows "rpc_inv (recv_header q herr c)"
proof (rule rpc_invI)
  let ?c = "recv_header q herr c"
  fix x
  show "call_ok ?c x"
    using rpc_invD(1) [OF assms(1), of x] rpc_invD(2) [OF assms(1), of q x]
      rpc_invD(2) [OF assms(1), of "call_Seq (cl_calls c x)" x] rpc_invD(3) [OF assms(1)] assms(2)
    by (auto simp: ok_defs recv_header_def removeCall_def)
next
  fix q' x assume "cl_pending (recv_header q herr c) q' = Some x"
  then have p: "cl_pending c q' = Some x" "q' \<noteq> q" by (auto simp: recv_header_def removeCall_def split: if_splits)
  with rpc_invD(2) [OF assms(1), of q' x] rpc_invD(2) [OF assms(1), of q x] show "pending_ok (recv_header q herr c) q' x"
    by (auto simp: ok_defs recv_header_def removeCall_def)
next
  show "global_ok (recv_header q herr c)"
    using rpc_invD(3) [OF assms(1)] rpc_invD(2) [OF assms(1), of q] assms(2)
    by (auto simp: ok_defs recv_header_def removeCall_def)
next
  show "numbers_ok (seqs ((recv_header q herr c)))"
    by (rule numbers_cong [OF rpc_invD(4) [OF assms(1)]]) (simp_all add: rpc_upd_defs)
qed

lemma inv_give_up:
  assumes "rpc_inv c" and "cl_phase c k = Waiting_done"
  shows "rpc_inv (set_phase k Given_up (snd (removeCall (call_Seq (cl_calls c k)) c)))"
proof (rule rpc_invI)
  let ?c = "set_phase k Given_up (snd (removeCall (call_Seq (cl_calls c k)) c))"
  fix x
  have "x \<noteq> k \<Longrightarrow> cl_pending c (call_Seq (cl_calls c x)) = Some x \<Longrightarrow>
      call_Seq (cl_calls c x) \<noteq> call_Seq (cl_calls c k)"
    using same_number [OF assms(1), of "call_Seq (cl_calls c x)" x k] by auto
  then show "call_ok ?c x"
    using rpc_invD(1) [OF assms(1), of x] assms(2) by (auto simp: ok_defs removeCall_def)
next
  fix q x assume "cl_pending (set_phase k Given_up (snd (removeCall (call_Seq (cl_calls c k)) c))) q = Some x"
  then have "cl_pending c q = Some x" "q \<noteq> call_Seq (cl_calls c k)"
    by (auto simp: removeCall_def split: if_splits)
  with rpc_invD(2) [OF assms(1), of q x]
  show "pending_ok (set_phase k Given_up (snd (removeCall (call_Seq (cl_calls c k)) c))) q x"
    by (auto simp: ok_defs removeCall_def)
next
  show "global_ok (set_phase k Given_up (snd (removeCall (call_Seq (cl_calls c k)) c)))"
    using rpc_invD(3) [OF assms(1)] by (auto simp: ok_defs removeCall_def)
next
  show "numbers_ok (seqs ((set_phase k Given_up (snd (removeCall (call_Seq (cl_calls c k)) c)))))"
    by (rule numbers_cong [OF rpc_invD(4) [OF assms(1)]]) (simp_all add: rpc_upd_defs)
qed

lemma inv_terminate:
  assumes "rpc_inv c" and "cl_receiver c = Failed err" and "cl_sender c = None"
  shows "rpc_inv ((terminateCalls err c)\<lparr>cl_receiver := Stopped\<rparr>)"
proof (rule rpc_invI)
  let ?c = "(terminateCalls err c)\<lparr>cl_receiver := Stopped\<rparr>"
  have live: "\<not> cl_shutdown c" using rpc_invD(3) [OF assms(1)] assms(2) by (auto simp: global_ok_def)
  have ran: "x \<in> ran (cl_pending c) \<longleftrightarrow> cl_pending c (call_Seq (cl_calls c x)) = Some x" for x
    using rpc_invD(2) [OF assms(1), of _ x] by (auto simp: ran_def pending_ok_def)
  show "call_ok ?c x" for x
    using rpc_invD(1) [OF assms(1), of x] rpc_invD(2) [OF assms(1), of "call_Seq (cl_calls c x)" x] live assms(2,3)
    by (auto simp: ok_defs terminateCalls_def ran)
  show "pending_ok ?c q x" if "cl_pending ?c q = Some x" for q x
    using that rpc_invD(2) [OF assms(1), of q x] live ran [of x]
    by (auto simp: pending_ok_def terminateCalls_def)
  show "global_ok ?c"
    using rpc_invD(3) [OF assms(1)] assms(3) by (auto simp: global_ok_def terminateCalls_def)
  show "numbers_ok (seqs ?c)"
    by (rule numbers_cong [OF rpc_invD(4) [OF assms(1)]]) (simp_all add: rpc_upd_defs)
qed

text \<open>The receiver completes the call that it holds and goes on to another state.\<close>

lemma inv_complete:
  assumes "rpc_inv c" and h: "held (cl_receiver c) = Some y" and r: "held r = None" "r \<noteq> Stopped"
    and reply: "e = None \<Longrightarrow> call_Reply (cl_calls c y) \<noteq> None"
  shows "rpc_inv ((call_done y e c)\<lparr>cl_receiver := r\<rparr>)"
proof (rule rpc_invI)
  let ?c = "(call_done y e c)\<lparr>cl_receiver := r\<rparr>"
  note y = rpc_invD(1) [OF assms(1), of y]
  have rec: "cl_receiver c \<noteq> Stopped" using h by auto
  show "call_ok ?c x" for x
  proof (cases "x = y")
    case True
    have "\<And>e. cl_phase c y \<noteq> Returned e" using y h by (auto simp: ok_defs)
    with y h r reply True show ?thesis by (simp add: ok_defs call_done_def)
  next
    case False
    with rpc_invD(1) [OF assms(1), of x] h r show ?thesis by (simp add: ok_defs call_done_def)
  qed
  show "pending_ok ?c q x" if "cl_pending ?c q = Some x" for q x
    using that rpc_invD(2) [OF assms(1), of q x] h r by (auto simp: pending_ok_def call_done_def)
  have "\<not> cl_shutdown c" using rpc_invD(3) [OF assms(1)] rec by (simp add: global_ok_def)
  then show "global_ok ?c"
    using rpc_invD(3) [OF assms(1)] r unfolding global_ok_def
    by (cases r) (auto simp: call_done_def)
  show "numbers_ok (seqs ?c)"
    by (rule numbers_cong [OF rpc_invD(4) [OF assms(1)]]) (simp_all add: rpc_upd_defs)
qed

lemma inv_reply:
  assumes "rpc_inv c" and "cl_receiver c = AtBody q herr (Some y)"
  shows "rpc_inv ((upd_call y (\<lambda>x. x\<lparr>call_Reply := Some b\<rparr>) c)\<lparr>cl_received := (q, b) # cl_received c\<rparr>)"
proof (rule rpc_invI)
  let ?c = "(upd_call y (\<lambda>x. x\<lparr>call_Reply := Some b\<rparr>) c)\<lparr>cl_received := (q, b) # cl_received c\<rparr>"
  have q: "call_Seq (cl_calls c y) = q" using rpc_invD(3) [OF assms(1)] assms(2) by (auto simp: global_ok_def)
  show "call_ok ?c x" for x
    using rpc_invD(1) [OF assms(1), of x] q assms(2) by (cases "x = y") (auto simp: ok_defs)
  show "pending_ok ?c q' x" if "cl_pending ?c q' = Some x" for q' x
    using that rpc_invD(2) [OF assms(1), of q' x] assms(2) by (auto simp: pending_ok_def)
  show "global_ok ?c" using rpc_invD(3) [OF assms(1)] unfolding global_ok_def by auto
  show "numbers_ok (seqs ?c)"
    by (rule numbers_cong [OF rpc_invD(4) [OF assms(1)]]) (simp_all add: rpc_upd_defs)
qed

lemma inv_skip_body:
  assumes "rpc_inv c" and "held (cl_receiver c) = None" and "cl_receiver c \<noteq> Stopped"
    and "held r = None" and "r \<noteq> Stopped"
  shows "rpc_inv (c\<lparr>cl_receiver := r\<rparr>)"
proof (rule rpc_invI)
  show "call_ok (c\<lparr>cl_receiver := r\<rparr>) x" for x
    using rpc_invD(1) [OF assms(1), of x] assms(2-5) by (simp add: ok_defs)
  show "pending_ok (c\<lparr>cl_receiver := r\<rparr>) q x" if "cl_pending (c\<lparr>cl_receiver := r\<rparr>) q = Some x" for q x
    using that rpc_invD(2) [OF assms(1), of q x] assms(4) by (auto simp: pending_ok_def)
  show "global_ok (c\<lparr>cl_receiver := r\<rparr>)"
    using rpc_invD(3) [OF assms(1)] assms(3-5) unfolding global_ok_def by (cases r) auto
  show "numbers_ok (seqs ((c\<lparr>cl_receiver := r\<rparr>)))"
    by (rule numbers_cong [OF rpc_invD(4) [OF assms(1)]]) (simp_all add: rpc_upd_defs)
qed

lemma inv_body:
  assumes "rpc_inv c" and "cl_receiver c = AtBody q herr k"
  shows "rpc_inv (recv_body errorf q herr k res c)"
proof -
  define r where "r = (case res of Inl err \<Rightarrow> Failed err | Inr _ \<Rightarrow> AtHeader)"
  have r: "held r = None" "r \<noteq> Stopped" by (auto simp: r_def split: sum.split)
  show ?thesis
  proof (cases k)
    case None
    then have "recv_body errorf q herr k res c = c\<lparr>cl_receiver := r\<rparr>" by (simp add: recv_body_def Let_def r_def)
    with inv_skip_body [OF assms(1) _ _ r] assms(2) None show ?thesis by simp
  next
    case (Some y)
    then have h: "held (cl_receiver c) = Some y" using assms(2) by simp
    show ?thesis
    proof (cases "herr = []")
      case False
      then have "recv_body errorf q herr k res c = (call_done y (Some (errorf herr)) c)\<lparr>cl_receiver := r\<rparr>"
        using Some by (simp add: recv_body_def Let_def r_def)
      with inv_complete [OF assms(1) h r, of "Some (errorf herr)"] show ?thesis by simp
    next
      case True
      show ?thesis
      proof (cases res)
        case (Inl err)
        then have "recv_body errorf q herr k res c =
            (call_done y (Some (''reading body '' @ err)) c)\<lparr>cl_receiver := r\<rparr>"
          using Some True by (simp add: recv_body_def Let_def r_def)
        with inv_complete [OF assms(1) h r, of "Some (''reading body '' @ err)"] show ?thesis by simp
      next
        case (Inr b)
        let ?c1 = "(upd_call y (\<lambda>x. x\<lparr>call_Reply := Some b\<rparr>) c)\<lparr>cl_received := (q, b) # cl_received c\<rparr>"
        have "recv_body errorf q herr k res c = (call_done y None ?c1)\<lparr>cl_receiver := r\<rparr>"
          using Some True Inr by (simp add: recv_body_def Let_def r_def)
        moreover have "rpc_inv ?c1" using inv_reply [OF assms(1), of q herr y b] assms(2) Some by simp
        ultimately show ?thesis using inv_complete [of ?c1 y r None] h r by simp
      qed
    qed
  qed
qed

lemma inv_unlock:
  assumes "rpc_inv c" and "cl_phase c k = Writing q"
  shows "rpc_inv ((set_phase k Waiting_done c)\<lparr>cl_sender := None\<rparr>)"
proof (rule rpc_invI)
  let ?c = "(set_phase k Waiting_done c)\<lparr>cl_sender := None\<rparr>"
  have s: "cl_sender c = Some k" using rpc_invD(1) [OF assms(1), of k] assms(2) by (simp add: ok_defs)
  show "call_ok ?c x" for x
    using rpc_invD(1) [OF assms(1), of x] assms(2) s by (cases "x = k") (auto simp: ok_defs)
  show "pending_ok ?c q' x" if "cl_pending ?c q' = Some x" for q' x
    using that rpc_invD(2) [OF assms(1), of q' x] assms(2) by (auto simp: pending_ok_def)
  show "global_ok ?c" using rpc_invD(3) [OF assms(1)] unfolding global_ok_def by auto
  show "numbers_ok (seqs ?c)"
    by (rule numbers_cong [OF rpc_invD(4) [OF assms(1)]]) (simp_all add: rpc_upd_defs)
qed

lemma inv_fail_pending:
  assumes "rpc_inv c" and "cl_sender c = Some k" and "cl_pending c q = Some k"
  shows "rpc_inv (call_done k (Some err) (c\<lparr>cl_pending := (cl_pending c)(q := None)\<rparr>))"
proof (rule rpc_invI)
  let ?c = "call_done k (Some err) (c\<lparr>cl_pending := (cl_pending c)(q := None)\<rparr>)"
  have live: "\<not> cl_shutdown c" using rpc_invD(3) [OF assms(1)] assms(2) by (auto simp: global_ok_def)
  then have k: "call_Seq (cl_calls c k) = q" "call_Done (cl_calls c k) = []" "held (cl_receiver c) \<noteq> Some k"
      "started_call (cl_phase c k)"
    using rpc_invD(2) [OF assms(1,3)] by (simp_all add: pending_ok_def)
  have others: "cl_pending c (call_Seq (cl_calls c x)) = Some x \<Longrightarrow> x \<noteq> k \<Longrightarrow> call_Seq (cl_calls c x) \<noteq> q" for x
    using assms(3) by auto
  show "call_ok ?c x" for x
  proof (cases "x = k")
    case True
    have "\<And>e. cl_phase c k \<noteq> Returned e"
      using rpc_invD(1) [OF assms(1), of k] k(2) by (auto simp: ok_defs)
    with True rpc_invD(1) [OF assms(1), of k] k assms(2) show ?thesis by (simp add: ok_defs call_done_def)
  next
    case False
    with rpc_invD(1) [OF assms(1), of x] others [of x] show ?thesis
      by (auto simp: ok_defs call_done_def)
  qed
  show "pending_ok ?c q' x" if p: "cl_pending ?c q' = Some x" for q' x
  proof -
    have "cl_pending c q' = Some x" "q' \<noteq> q" using p by (auto simp: call_done_def split: if_splits)
    with rpc_invD(2) [OF assms(1), of q' x] k(1) show ?thesis
      by (cases "x = k") (simp_all add: pending_ok_def call_done_def)
  qed
  show "global_ok ?c" using rpc_invD(3) [OF assms(1)] unfolding global_ok_def call_done_def by auto
  show "numbers_ok (seqs ?c)"
    by (rule numbers_cong [OF rpc_invD(4) [OF assms(1)]]) (simp_all add: rpc_upd_defs)
qed

lemma inv_end_send:
  assumes "rpc_inv c" and "cl_phase c k = Writing q"
  shows "rpc_inv (send_end k q res c)"
proof -
  have k: "cl_sender c = Some k" "call_Seq (cl_calls c k) = q"
    using rpc_invD(1) [OF assms(1), of k] assms(2) by (auto simp: ok_defs)
  have plain: ?thesis if "send_end k q res c = (set_phase k Waiting_done c)\<lparr>cl_sender := None\<rparr>"
    using inv_unlock [OF assms] that by simp
  show ?thesis
  proof (cases res)
    case None
    then show ?thesis by (intro plain) (simp add: send_end_def)
  next
    case (Some err)
    show ?thesis
    proof (cases "cl_pending c q")
      case None
      then have "(cl_pending c)(q := None) = cl_pending c" by auto
      with None Some show ?thesis by (intro plain) (simp add: send_end_def removeCall_def)
    next
      case p: (Some k')
      then have k': "k' = k" by (rule same_number [OF assms(1) _ k(2)])
      let ?c1 = "call_done k (Some err) (c\<lparr>cl_pending := (cl_pending c)(q := None)\<rparr>)"
      have "rpc_inv ?c1" by (rule inv_fail_pending [OF assms(1) k(1)]) (use p k' in simp)
      moreover have "cl_phase ?c1 k = Writing q" using assms(2) by (simp add: call_done_def)
      moreover have "send_end k q res c = (set_phase k Waiting_done ?c1)\<lparr>cl_sender := None\<rparr>"
        using Some p k' by (simp add: send_end_def removeCall_def Let_def)
      ultimately show ?thesis using inv_unlock by metis
    qed
  qed
qed

text \<open>A registration needs a number that is not in use.\<close>

lemma inv_begin_send:
  assumes "rpc_inv c" and "cl_phase c k = Sending" and "cl_sender c = None"
    and bound: "cl_registered (send_begin k c) < 2 ^ 64"
  shows "rpc_inv (send_begin k c)"
proof (cases "cl_closing c \<or> cl_shutdown c")
  case True
  then have c': "send_begin k c = set_phase k Waiting_done (call_done k (Some ErrShutdown) c)"
    by (simp add: send_begin_def registerCall_def)
  have k: "call_Done (cl_calls c k) = []" "call_Seq (cl_calls c k) = 0" "call_Reply (cl_calls c k) = None"
    using rpc_invD(1) [OF assms(1), of k] assms(2) by (auto simp: ok_defs)
  have np: "cl_pending c q \<noteq> Some k" for q
    using rpc_invD(2) [OF assms(1), of q k] assms(2) by (auto simp: pending_ok_def)
  have nh: "held (cl_receiver c) \<noteq> Some k"
    using rpc_invD(1) [OF assms(1), of k] assms(2) by (auto simp: ok_defs)
  show ?thesis unfolding c'
  proof (rule rpc_invI)
    let ?c = "set_phase k Waiting_done (call_done k (Some ErrShutdown) c)"
    show "call_ok ?c x" for x
      using rpc_invD(1) [OF assms(1), of x] k nh assms(2,3) by (auto simp: ok_defs call_done_def)
    show "pending_ok ?c q x" if "cl_pending ?c q = Some x" for q x
      using that rpc_invD(2) [OF assms(1), of q x] np by (auto simp: pending_ok_def call_done_def)
    show "global_ok ?c" using rpc_invD(3) [OF assms(1)] by (auto simp: global_ok_def call_done_def)
    show "numbers_ok (seqs ?c)"
      by (rule numbers_cong [OF rpc_invD(4) [OF assms(1)]]) (simp_all add: rpc_upd_defs)
  qed
next
  case False
  let ?q = "cl_seq c"
  let ?c = "send_begin k c"
  have c': "?c = (set_phase k (Writing ?q) (upd_call k (\<lambda>x. x\<lparr>call_Seq := ?q\<rparr>)
      (c\<lparr>cl_pending := (cl_pending c)(?q \<mapsto> k), cl_seq := ?q + 1, cl_registered := cl_registered c + 1\<rparr>)))
      \<lparr>cl_sender := Some k\<rparr>"
    using False by (simp add: send_begin_def registerCall_def Let_def)
  have n: "cl_registered c + 1 < 2 ^ 64" using bound by (simp add: c')
  have q: "?q = of_nat (cl_registered c + 1)" using rpc_invD(3) [OF assms(1)] by (simp add: global_ok_def)
  have q0: "?q \<noteq> 0"
    using of_nat_inj64 [of "cl_registered c + 1" 0] n unfolding q by simp
  have fresh: "call_Seq (cl_calls c x) \<noteq> ?q" for x
  proof
    assume eq: "call_Seq (cl_calls c x) = ?q"
    then obtain i where i: "i < cl_registered c" "?q = of_nat (i + 1)"
      using rpc_invD(1) [OF assms(1), of x] q0 by (auto simp: ok_defs)
    with of_nat_inj64 [of "cl_registered c + 1" "i + 1"] n show False unfolding q by simp
  qed
  have k: "call_Done (cl_calls c k) = []" "call_Seq (cl_calls c k) = 0" "call_Reply (cl_calls c k) = None"
      "held (cl_receiver c) \<noteq> Some k"
    using rpc_invD(1) [OF assms(1), of k] assms(2) by (auto simp: ok_defs)
  have np: "cl_pending c q' \<noteq> Some k" for q'
    using rpc_invD(2) [OF assms(1), of q' k] assms(2) by (auto simp: pending_ok_def)
  show ?thesis
  proof (rule rpc_invI)
    show "call_ok ?c x" for x
    proof (cases "x = k")
      case True
      then show ?thesis unfolding c' using k q q0 by (auto simp: ok_defs)
    next
      case x: False
      have "(\<exists>i < cl_registered c. s = of_nat (i + 1)) \<Longrightarrow> \<exists>i < Suc (cl_registered c). s = of_nat (i + 1)"
        for s :: uint64 using less_SucI by blast
      with rpc_invD(1) [OF assms(1), of x] x fresh [of x] assms(3) show ?thesis
        unfolding c' by (simp add: ok_defs)
    qed
    show "pending_ok ?c q' x" if p: "cl_pending ?c q' = Some x" for q' x
      using p rpc_invD(2) [OF assms(1), of q' x] k q0 np False unfolding c'
      by (auto simp: pending_ok_def split: if_splits)
    show "global_ok ?c"
      using rpc_invD(3) [OF assms(1)] fresh k False unfolding c' by (auto simp: global_ok_def q)
    have "seqs ?c x = (if x = k then ?q else seqs c x)" for x unfolding c' by simp
    with rpc_invD(4) [OF assms(1)] fresh show "numbers_ok (seqs ?c)"
      unfolding numbers_ok_def by metis
  qed
qed

section \<open>Properties\<close>

lemma registered_mono: "rpc_step errorf c c' \<Longrightarrow> cl_registered c \<le> cl_registered c'"
proof (induction rule: rpc_step.induct)
  case (end_send c k q res)
  then show ?case
    by (cases res; cases "cl_pending c q") (simp_all add: send_end_def removeCall_def call_done_def Let_def)
next
  case (body c q herr k res)
  then show ?case
    by (cases k; cases res) (simp_all add: recv_body_def call_done_def Let_def)
qed (simp_all add: rpc_upd_defs send_begin_def registerCall_def client_Close_def Let_def)

lemma rpc_step_inv:
  "rpc_step errorf c c' \<Longrightarrow> rpc_inv c \<Longrightarrow> cl_registered c' < 2 ^ 64 \<Longrightarrow> rpc_inv c'"
  by (induction rule: rpc_step.induct)
    (blast intro: inv_go inv_begin_send inv_end_send inv_got inv_give_up inv_header inv_header_error
      inv_body inv_terminate inv_close)+

lemma rpc_reachable_inv:
  "rpc_steps errorf a c \<Longrightarrow> rpc_inv a \<Longrightarrow> cl_registered c < 2 ^ 64 \<Longrightarrow> rpc_inv c"
proof (induction rule: rpc_steps.induct)
  case (step a b c)
  then show ?case using registered_mono [OF step.hyps(2)] rpc_step_inv [OF step.hyps(2)] by linarith
qed

text \<open>
  C6: a call is completed at most once, so a channel with room for one message never blocks the
  receiver; a caller that returns without an error has as its reply a body that the server sent
  under the number of its own call, and a registered number belongs to one call.
\<close>

theorem calls_complete_once:
  assumes "rpc_reachable errorf c" and "cl_registered c < 2 ^ 64"
  shows "length (call_Done (cl_calls c k)) \<le> 1 \<and>
    (cl_phase c k \<noteq> Returned None \<or>
      (\<exists>b. call_Reply (cl_calls c k) = Some b \<and> (call_Seq (cl_calls c k), b) \<in> set (cl_received c))) \<and>
    numbers_ok (seqs c)"
proof -
  have inv: "rpc_inv c" by (rule rpc_reachable_inv [OF assms(1) rpc_inv_init assms(2)])
  from rpc_invD(1) [OF inv, of k] have
    ok: "length (call_Done (cl_calls c k)) \<le> 1" "call_Done (cl_calls c k) = [None] \<Longrightarrow> call_Reply (cl_calls c k) \<noteq> None"
      "cl_phase c k = Returned None \<Longrightarrow> call_Done (cl_calls c k) = [None]"
      "\<And>b. call_Reply (cl_calls c k) = Some b \<Longrightarrow> (call_Seq (cl_calls c k), b) \<in> set (cl_received c)"
    by (auto simp: ok_defs)
  then show ?thesis using rpc_invD(4) [OF inv] by blast
qed

text \<open>A run in which a call is sent and answered.\<close>

definition example_run :: "nat rpc_client" where
  "example_run =
     (let c1 = send_begin 0 (set_phase 0 Sending newClientCodec);
          c2 = recv_header 1 [] (send_end 0 1 None c1);
          c3 = recv_body (\<lambda>e. e) 1 [] (Some 0) (Inr 42) c2
      in set_phase 0 (Returned None) c3)"

lemmas example_defs = example_run_def newClientCodec_def send_begin_def registerCall_def send_end_def
  recv_header_def removeCall_def recv_body_def call_done_def Let_def

lemma example_run_reachable: "rpc_reachable (\<lambda>e. e) example_run"
proof -
  let ?f = "\<lambda>e :: string. e"
  let ?c0 = "set_phase 0 Sending newClientCodec :: nat rpc_client"
  let ?c1 = "send_begin 0 ?c0"
  let ?c2 = "send_end 0 1 None ?c1"
  let ?c3 = "recv_header 1 [] ?c2"
  let ?c4 = "recv_body ?f 1 [] (Some 0) (Inr 42) ?c3"
  have "rpc_steps ?f newClientCodec ?c0"
    by (rule rpc_steps.step [OF rpc_steps.refl rpc_step.go]) (simp add: newClientCodec_def)
  then have "rpc_steps ?f newClientCodec ?c1"
    by (rule rpc_steps.step [OF _ rpc_step.begin_send]) (simp_all add: newClientCodec_def)
  then have "rpc_steps ?f newClientCodec ?c2"
    by (rule rpc_steps.step [OF _ rpc_step.end_send])
      (simp add: newClientCodec_def send_begin_def registerCall_def Let_def)
  then have "rpc_steps ?f newClientCodec ?c3"
    by (rule rpc_steps.step [OF _ rpc_step.header]) (simp add: example_defs)
  then have "rpc_steps ?f newClientCodec ?c4"
    by (rule rpc_steps.step [OF _ rpc_step.body]) (simp add: example_defs)
  then have "rpc_steps ?f newClientCodec (set_phase 0 (Returned None) ?c4)"
    by (rule rpc_steps.step [OF _ rpc_step.got]) (simp_all add: example_defs)
  then show ?thesis by (simp add: example_run_def Let_def)
qed

theorem calls_complete_once_witness:
  "cl_phase example_run 0 = Returned None \<and> call_Reply (cl_calls example_run 0) = Some 42 \<and>
   (1, 42) \<in> set (cl_received example_run)"
proof -
  have facts: "cl_registered example_run < 2 ^ 64" "cl_phase example_run 0 = Returned None"
      "call_Seq (cl_calls example_run 0) = 1" "call_Reply (cl_calls example_run 0) = Some 42"
    by (simp_all add: example_defs)
  from calls_complete_once [OF example_run_reachable facts(1), of 0] facts(2-4) show ?thesis by auto
qed

lemma steps_then: "rpc_step errorf a b \<Longrightarrow> rpc_steps errorf b c \<Longrightarrow> rpc_steps errorf a c"
  by (rotate_tac, induction rule: rpc_steps.induct) (blast intro: rpc_steps.intros)+

lemma shutdown_follows:
  assumes inv: "rpc_inv c" and f: "cl_receiver c = Failed err"
  shows "\<exists>c'. rpc_steps errorf c c' \<and> cl_shutdown c' \<and> cl_registered c' = cl_registered c"
proof -
  have free: "\<exists>c'. rpc_steps errorf d c' \<and> cl_shutdown c' \<and> cl_registered c' = cl_registered d"
    if "cl_receiver d = Failed err" "cl_sender d = None" for d :: "'a rpc_client"
  proof (intro exI conjI)
    show "rpc_steps errorf d ((terminateCalls err d)\<lparr>cl_receiver := Stopped\<rparr>)"
      by (rule rpc_steps.step [OF rpc_steps.refl rpc_step.terminate [OF that]])
  qed (simp_all add: terminateCalls_def)
  show ?thesis
  proof (cases "cl_sender c")
    case None
    with free f show ?thesis by blast
  next
    case (Some k)
    then obtain q where q: "cl_phase c k = Writing q" using rpc_invD(1) [OF inv, of k] by (auto simp: ok_defs)
    let ?d = "send_end k q None c"
    have "\<exists>c'. rpc_steps errorf ?d c' \<and> cl_shutdown c' \<and> cl_registered c' = cl_registered ?d"
      by (rule free) (simp_all add: send_end_def f)
    moreover have "cl_registered ?d = cl_registered c" by (simp add: send_end_def)
    ultimately show ?thesis using steps_then [OF rpc_step.end_send [OF q]] by metis
  qed
qed

text \<open>
  C11: no caller is left behind: a caller that waits has its message, or its call is pending or in
  the hands of the receiver; once the client is shut down, every caller that waits has its
  message; and once reading has failed, steps of the client alone lead to the shutdown.
\<close>

theorem no_caller_left_behind:
  assumes "rpc_reachable errorf c" and "cl_registered c < 2 ^ 64"
  shows "(cl_phase c k \<noteq> Waiting_done \<or> call_Done (cl_calls c k) \<noteq> [] \<or>
      \<not> cl_shutdown c \<and> (cl_pending c (call_Seq (cl_calls c k)) = Some k \<or> held (cl_receiver c) = Some k)) \<and>
    ((\<forall>err. cl_receiver c \<noteq> Failed err) \<or>
      (\<exists>c'. rpc_steps errorf c c' \<and> cl_shutdown c' \<and>
         (\<forall>k. cl_phase c' k \<noteq> Waiting_done \<or> call_Done (cl_calls c' k) \<noteq> [])))"
proof -
  have waiting: "cl_phase d k \<noteq> Waiting_done \<or> call_Done (cl_calls d k) \<noteq> [] \<or>
      \<not> cl_shutdown d \<and> (cl_pending d (call_Seq (cl_calls d k)) = Some k \<or> held (cl_receiver d) = Some k)"
    if inv: "rpc_inv d" for d :: "'a rpc_client" and k
  proof -
    have "cl_shutdown d \<Longrightarrow> cl_pending d (call_Seq (cl_calls d k)) = Some k \<Longrightarrow> call_Done (cl_calls d k) \<noteq> []"
      using rpc_invD(2) [OF inv, of "call_Seq (cl_calls d k)" k] by (auto simp: pending_ok_def)
    moreover have "cl_shutdown d \<Longrightarrow> held (cl_receiver d) = None"
      using rpc_invD(3) [OF inv] by (simp add: global_ok_def)
    ultimately show ?thesis using rpc_invD(1) [OF inv, of k] by (auto simp: ok_defs)
  qed
  have inv: "rpc_inv c" by (rule rpc_reachable_inv [OF assms(1) rpc_inv_init assms(2)])
  have "\<exists>c'. rpc_steps errorf c c' \<and> cl_shutdown c' \<and>
      (\<forall>k. cl_phase c' k \<noteq> Waiting_done \<or> call_Done (cl_calls c' k) \<noteq> [])"
    if f: "cl_receiver c = Failed err" for err
  proof -
    from shutdown_follows [OF inv f] obtain c' where
      c': "rpc_steps errorf c c'" "cl_shutdown c'" "cl_registered c' = cl_registered c" by blast
    have "rpc_inv c'" by (rule rpc_reachable_inv [OF c'(1) inv]) (use c'(3) assms(2) in simp)
    from waiting [OF this] c' show ?thesis by blast
  qed
  with waiting [OF inv, of k] show ?thesis by blast
qed

definition example_failed :: "nat rpc_client" where
  "example_failed = (send_end 0 1 None (send_begin 0 (set_phase 0 Sending newClientCodec)))
     \<lparr>cl_receiver := Failed ''EOF''\<rparr>"

theorem no_caller_left_behind_witness:
  "\<exists>c'. rpc_steps (\<lambda>e. e) example_failed c' \<and> cl_shutdown c' \<and>
     (cl_phase c' 0 \<noteq> Waiting_done \<or> call_Done (cl_calls c' 0) \<noteq> [])"
proof -
  let ?f = "\<lambda>e :: string. e"
  let ?c0 = "set_phase 0 Sending newClientCodec :: nat rpc_client"
  have "rpc_steps ?f newClientCodec ?c0"
    by (rule rpc_steps.step [OF rpc_steps.refl rpc_step.go]) (simp add: newClientCodec_def)
  then have "rpc_steps ?f newClientCodec (send_begin 0 ?c0)"
    by (rule rpc_steps.step [OF _ rpc_step.begin_send]) (simp_all add: newClientCodec_def)
  then have "rpc_steps ?f newClientCodec (send_end 0 1 None (send_begin 0 ?c0))"
    by (rule rpc_steps.step [OF _ rpc_step.end_send])
      (simp add: newClientCodec_def send_begin_def registerCall_def Let_def)
  then have r: "rpc_reachable ?f example_failed"
    unfolding example_failed_def
    by (rule rpc_steps.step [OF _ rpc_step.header_error]) (simp add: example_defs)
  have facts: "cl_registered example_failed < 2 ^ 64" "cl_receiver example_failed = Failed ''EOF''"
    by (simp_all add: example_failed_def example_defs)
  from no_caller_left_behind [OF r facts(1), of 0] facts(2) show ?thesis by blast
qed

end
