(* ===== verification/RpcCodec.thy ===== *)
theory RpcCodec
  imports Prelude
begin

text \<open>
  Package \<^verbatim>\<open>geerpc/codec\<close> (\<^verbatim>\<open>codec.go\<close>, \<^verbatim>\<open>gob.go\<close>) and the options of a connection (\<^verbatim>\<open>Option\<close> in
  \<^verbatim>\<open>server.go\<close>, \<^verbatim>\<open>parseOptions\<close> in \<^verbatim>\<open>client.go\<close>).  A gob stream is the sequence of the values that
  were encoded: headers and bodies; the bytes of a value are not modelled.
\<close>

section \<open>Headers, codecs and the gob stream\<close>

record Header =
  ServiceMethod :: string
  Seq :: uint64
  h_Error :: string

definition GobType :: string where
  "GobType = ''application/gob''"

definition JsonType :: string where
  "JsonType = ''application/json''"

text \<open>The codecs that \<^verbatim>\<open>init\<close> registers: only the gob codec.\<close>

definition has_codec :: "string \<Rightarrow> bool" where
  "has_codec t \<longleftrightarrow> t = GobType"

datatype 'b message = MHeader Header | MBody 'b

record 'b GobCodec =
  gob_in :: "'b message list"
  gob_out :: "'b message list"
  gob_closed :: bool

definition NewGobCodec :: "'b message list \<Rightarrow> 'b GobCodec" where
  "NewGobCodec input = \<lparr>gob_in = input, gob_out = [], gob_closed = False\<rparr>"

text \<open>
  Decoding takes the next value off the stream.  A body can be read as a header when its fields
  allow it, which \<open>as_header\<close> says; otherwise the types do not match.
\<close>

definition codec_ReadHeader ::
  "('b \<Rightarrow> Header option) \<Rightarrow> 'b GobCodec \<Rightarrow> (error + Header) \<times> 'b GobCodec" where
  "codec_ReadHeader as_header c =
     (case gob_in c of
        [] \<Rightarrow> (Inl ''EOF'', c)
      | MHeader h # rest \<Rightarrow> (Inr h, c\<lparr>gob_in := rest\<rparr>)
      | MBody b # rest \<Rightarrow>
          ((case as_header b of Some h \<Rightarrow> Inr h | None \<Rightarrow> Inl ''gob: type mismatch''), c\<lparr>gob_in := rest\<rparr>))"

text \<open>\<open>decode\<close> says what a value gives for the type that is expected.\<close>

definition codec_ReadBody ::
  "('b message \<Rightarrow> error + 'a) \<Rightarrow> 'b GobCodec \<Rightarrow> (error + 'a) \<times> 'b GobCodec" where
  "codec_ReadBody decode c =
     (case gob_in c of
        [] \<Rightarrow> (Inl ''EOF'', c)
      | m # rest \<Rightarrow> (decode m, c\<lparr>gob_in := rest\<rparr>))"

text \<open>
  \<open>enc_h\<close> and \<open>enc_b\<close> are the errors of the two encodings, if any.  What was encoded is flushed in
  any case, and an error closes the connection.
\<close>

text \<open>\<open>closed\<close> is what closing the connection gives.\<close>

definition codec_Close :: "error option \<Rightarrow> 'b GobCodec \<Rightarrow> error option \<times> 'b GobCodec" where
  "codec_Close closed c = (closed, c\<lparr>gob_closed := True\<rparr>)"

definition codec_Write ::
  "error option \<Rightarrow> error option \<Rightarrow> Header \<Rightarrow> 'b \<Rightarrow> 'b GobCodec \<Rightarrow> error option \<times> 'b GobCodec" where
  "codec_Write enc_h enc_b h body c =
     (case enc_h of
        Some err \<Rightarrow> (Some err, c\<lparr>gob_closed := True\<rparr>)
      | None \<Rightarrow>
          (let c1 = c\<lparr>gob_out := gob_out c @ [MHeader h]\<rparr>
           in case enc_b of
                Some err \<Rightarrow> (Some err, c1\<lparr>gob_closed := True\<rparr>)
              | None \<Rightarrow> (None, c1\<lparr>gob_out := gob_out c1 @ [MBody body]\<rparr>)))"

section \<open>Options\<close>

record Option =
  opt_MagicNumber :: int
  opt_CodecType :: string
  opt_ConnectTimeout :: int
  opt_HandleTimeout :: int

definition MagicNumber :: int where
  "MagicNumber = 0x3bef5c"

definition DefaultOption :: Option where
  "DefaultOption =
     \<lparr>opt_MagicNumber = MagicNumber, opt_CodecType = GobType,
      opt_ConnectTimeout = 10 * 1000000000, opt_HandleTimeout = 0\<rparr>"

text \<open>An argument is a pointer, which may be nil.\<close>

definition parseOptions :: "Option option list \<Rightarrow> error + Option" where
  "parseOptions opts =
     (case opts of
        [] \<Rightarrow> Inr DefaultOption
      | None # _ \<Rightarrow> Inr DefaultOption
      | Some opt # rest \<Rightarrow>
          if length opts \<noteq> 1 then Inl ''only one option allowed''
          else
            (let opt1 = opt\<lparr>opt_MagicNumber := opt_MagicNumber DefaultOption\<rparr>
             in Inr (if opt_CodecType opt1 = [] then opt1\<lparr>opt_CodecType := opt_CodecType DefaultOption\<rparr>
                     else opt1)))"

lemma parseOptions_result:
  "parseOptions opts = Inr opt \<Longrightarrow> opt_MagicNumber opt = MagicNumber \<and> opt_CodecType opt \<noteq> []"
  by (auto simp: parseOptions_def DefaultOption_def GobType_def Let_def split: list.splits option.splits if_splits)

text \<open>What was written without an error is read back, header first, then body.\<close>

lemma codec_Write_out:
  "codec_Write None None h b c = (None, c\<lparr>gob_out := gob_out c @ [MHeader h, MBody b]\<rparr>)"
  by (simp add: codec_Write_def)

end
