(* ===== verification/RpcServer.thy ===== *)
theory RpcServer
  imports RpcCodec
begin

text \<open>
  Package \<^verbatim>\<open>geerpc\<close>, \<^verbatim>\<open>server.go\<close> and \<^verbatim>\<open>service.go\<close>: the registration of services by reflection, the
  lookup of a method, the loop that serves a connection, and the handling of one request with
  its time limit.
\<close>

section \<open>Services\<close>

text \<open>
  What reflection tells of a type: its name, its package path, whether it is \<^verbatim>\<open>error\<close>, its kind as far as
  the code asks for it, and the type of its elements, if it has one; of a method: its name and the
  types of its parameters (the receiver first) and results.
\<close>

datatype rkind = Ptr_kind | Map_kind | Slice_kind | Other_kind

datatype go_type =
  GoType (ty_Name: string) (ty_PkgPath: string) (ty_is_error: bool) (ty_Kind: rkind) (ty_elem: "go_type option")

record reflect_method =
  rm_Name :: string
  rm_In :: "go_type list"
  rm_Out :: "go_type list"

definition type_Elem :: "go_type \<Rightarrow> go_type outcome" where
  "type_Elem t = (case ty_elem t of None \<Rightarrow> Panics (''reflect: Elem of invalid type '' @ ty_Name t) | Some el \<Rightarrow> Returns el)"

text \<open>Reflected values: a pointer to a new variable, a zero value, an empty map or slice.\<close>

datatype rvalue = New_var rvalue | Zero_of go_type | Empty_map go_type | Empty_slice go_type

definition newArgv :: "go_type \<Rightarrow> rvalue outcome" where
  "newArgv argType =
     (if ty_Kind argType = Ptr_kind then
        (case type_Elem argType of
           Returns el \<Rightarrow> Returns (New_var (Zero_of el)) | Panics e \<Rightarrow> Panics e | Hangs \<Rightarrow> Hangs)
      else Returns (Zero_of argType))"

definition newReplyv :: "go_type \<Rightarrow> rvalue outcome" where
  "newReplyv replyType =
     (case type_Elem replyType of
        Returns el \<Rightarrow>
          Returns (New_var (case ty_Kind el of
             Map_kind \<Rightarrow> Empty_map el | Slice_kind \<Rightarrow> Empty_slice el | _ \<Rightarrow> Zero_of el))
      | Panics e \<Rightarrow> Panics e
      | Hangs \<Rightarrow> Hangs)"

text \<open>
  A registered method: the types of its argument and reply, how it decodes its argument and what a
  call with a new reply variable gives (an error or the reply), both client code, and the counter of
  its calls.
\<close>

record ('b, 'a) methodType =
  mt_ArgType :: go_type
  mt_ReplyType :: go_type
  mt_decode :: "'b message \<Rightarrow> error + 'a"
  mt_func :: "'a \<Rightarrow> error + 'b"
  mt_numCalls :: uint64

record ('b, 'a) service =
  svc_name :: string
  svc_method :: "string \<Rightarrow> ('b, 'a) methodType option"

definition NumCalls :: "('b, 'a) methodType \<Rightarrow> uint64" where
  "NumCalls m = mt_numCalls m"

definition isExportedOrBuiltinType :: "go_type \<Rightarrow> bool" where
  "isExportedOrBuiltinType t \<longleftrightarrow> IsExported (ty_Name t) \<or> ty_PkgPath t = []"

definition suitable_method :: "reflect_method \<Rightarrow> bool" where
  "suitable_method m \<longleftrightarrow>
     length (rm_In m) = 3 \<and> length (rm_Out m) = 1 \<and> ty_is_error (rm_Out m ! 0) \<and>
     isExportedOrBuiltinType (rm_In m ! 1) \<and> isExportedOrBuiltinType (rm_In m ! 2)"

text \<open>\<open>impl\<close> gives the code of a method.\<close>

definition new_method :: "(string \<Rightarrow> ('b, 'a) methodType) \<Rightarrow> reflect_method \<Rightarrow> ('b, 'a) methodType" where
  "new_method impl m =
     (impl (rm_Name m))\<lparr>mt_ArgType := rm_In m ! 1, mt_ReplyType := rm_In m ! 2, mt_numCalls := 0\<rparr>"

definition registerMethods ::
  "(string \<Rightarrow> ('b, 'a) methodType) \<Rightarrow> reflect_method list \<Rightarrow> string \<Rightarrow> ('b, 'a) methodType option" where
  "registerMethods impl ms =
     fold (\<lambda>m tab. if suitable_method m then tab(rm_Name m \<mapsto> new_method impl m) else tab) ms Map.empty"

text \<open>A name that is not exported ends the process, which is \<^term>\<open>None\<close> here.\<close>

definition newService ::
  "(string \<Rightarrow> ('b, 'a) methodType) \<Rightarrow> string \<Rightarrow> reflect_method list \<Rightarrow> ('b, 'a) service option" where
  "newService impl name ms =
     (if \<not> IsExported name then None
      else Some \<lparr>svc_name = name, svc_method = registerMethods impl ms\<rparr>)"

type_synonym ('b, 'a) server = "string \<Rightarrow> ('b, 'a) service option"

definition NewServer :: "('b, 'a) server" where
  "NewServer = Map.empty"

text \<open>The default server at the start of the program, on which the functions of the package work.\<close>

definition DefaultServer :: "('b, 'a) server" where
  "DefaultServer = NewServer"

definition server_Register :: "('b, 'a) service \<Rightarrow> ('b, 'a) server \<Rightarrow> error option \<times> ('b, 'a) server" where
  "server_Register s srv =
     (case srv (svc_name s) of
        Some _ \<Rightarrow> (Some (''rpc: service already defined:'' @ svc_name s), srv)
      | None \<Rightarrow> (None, srv(svc_name s \<mapsto> s)))"

definition findService ::
  "string \<Rightarrow> ('b, 'a) server \<Rightarrow> error + (('b, 'a) service \<times> ('b, 'a) methodType)" where
  "findService serviceMethod srv =
     (case strings_LastIndex serviceMethod (CHR ''.'') of
        None \<Rightarrow> Inl (''rpc server: service/method request ill-formed: '' @ serviceMethod)
      | Some dot \<Rightarrow>
          (let svcname = take dot serviceMethod; methodName = drop (dot + 1) serviceMethod
           in case srv svcname of
                None \<Rightarrow> Inl (''rpc server: can'' @ [CHR 0x27] @ ''t find service '' @ svcname)
              | Some svc \<Rightarrow>
                  (case svc_method svc methodName of
                     None \<Rightarrow> Inl (''rpc server: can'' @ [CHR 0x27] @ ''t find method '' @ methodName)
                   | Some mtype \<Rightarrow> Inr (svc, mtype))))"

text \<open>A call counts before it runs.\<close>

definition service_call :: "('b, 'a) methodType \<Rightarrow> 'a \<Rightarrow> (error + 'b) \<times> ('b, 'a) methodType" where
  "service_call m arg = (mt_func m arg, m\<lparr>mt_numCalls := mt_numCalls m + 1\<rparr>)"

section \<open>Serving a connection\<close>

text \<open>
  The result of \<^verbatim>\<open>readRequest\<close>: no request, or one with its header and either an error or the
  method and the argument.  Nobody recovers from a panic here: it ends the process.
\<close>

definition readRequest ::
  "('b \<Rightarrow> Header option) \<Rightarrow> ('b, 'a) server \<Rightarrow>
   ((Header \<times> (error + (('b, 'a) methodType \<times> 'a))) option, 'b GobCodec) action"
where
  "readRequest as_header srv cc =
     (case codec_ReadHeader as_header cc of
        (Inl err, cc1) \<Rightarrow> (Returns None, cc1)
      | (Inr h, cc1) \<Rightarrow>
          (case findService (ServiceMethod h) srv of
             Inl err \<Rightarrow> (Returns (Some (h, Inl err)), cc1)
           | Inr (svc, mtype) \<Rightarrow>
               and_then (newArgv (mt_ArgType mtype), cc1) (\<lambda>argv cc2.
               and_then (newReplyv (mt_ReplyType mtype), cc2) (\<lambda>replyv cc3.
                 case codec_ReadBody (mt_decode mtype) cc3 of
                   (Inl err, cc4) \<Rightarrow> (Returns (Some (h, Inl err)), cc4)
                 | (Inr arg, cc4) \<Rightarrow> (Returns (Some (h, Inr (mtype, arg))), cc4)))))"

text \<open>
  The loop that accepts connections: each one is served by a goroutine of its own, and the first error of
  the listener ends the loop.  The argument lists what the calls of the listener give; the result is the
  connections that are served, and the error, if there was one.
\<close>

fun server_Accept :: "(error + 'conn) list \<Rightarrow> 'conn list \<times> error option" where
  "server_Accept [] = ([], None)"
| "server_Accept (Inl err # rest) = ([], Some err)"
| "server_Accept (Inr conn # rest) = (let (conns, err) = server_Accept rest in (conn # conns, err))"

text \<open>
  What the loop does with a request: it answers with an error or starts a goroutine for it; a panic
  is the last thing that happens.
\<close>

datatype ('b, 'a) dispatch = Answer_error Header | Handle Header "('b, 'a) methodType" 'a | Crash error

lemma readRequest_shrinks:
  "readRequest as_header srv cc = (Returns (Some x), cc') \<Longrightarrow> length (gob_in cc') < length (gob_in cc)"
  by (auto simp: readRequest_def codec_ReadHeader_def codec_ReadBody_def
      split: list.splits message.splits sum.splits option.splits prod.splits)

function serveCodec ::
  "('b \<Rightarrow> Header option) \<Rightarrow> ('b, 'a) server \<Rightarrow> 'b GobCodec \<Rightarrow> ('b, 'a) dispatch list"
where
  "serveCodec as_header srv cc =
     (case readRequest as_header srv cc of
        (Returns None, _) \<Rightarrow> []
      | (Returns (Some (h, Inl err)), cc1) \<Rightarrow>
          Answer_error (h\<lparr>h_Error := err\<rparr>) # serveCodec as_header srv cc1
      | (Returns (Some (h, Inr (mtype, argv))), cc1) \<Rightarrow> Handle h mtype argv # serveCodec as_header srv cc1
      | (Panics e, _) \<Rightarrow> [Crash e]
      | (Hangs, _) \<Rightarrow> [])"
  by pat_completeness auto
termination
  by (relation "measure (\<lambda>(as_header, srv, cc). length (gob_in cc))")
    (simp_all add: readRequest_shrinks [OF sym])

declare serveCodec.simps [simp del]

text \<open>
  The start of a connection: the JSON decoder reads the connection in chunks, until it has an
  option; \<open>decode\<close> yields the option and the bytes behind it.  The decoder keeps those bytes: the
  codec starts with the next chunk.  The result is what the codec is given, or an error.
\<close>

fun read_option :: "(bytes \<Rightarrow> (Option \<times> bytes) option) \<Rightarrow> bytes \<Rightarrow> bytes list \<Rightarrow> (Option \<times> bytes list) option" where
  "read_option decode buf [] = None"
| "read_option decode buf (chunk # chunks) =
     (case decode (buf @ chunk) of
        Some (opt, rest) \<Rightarrow> Some (opt, chunks)
      | None \<Rightarrow> read_option decode (buf @ chunk) chunks)"

definition ServeConn ::
  "(bytes \<Rightarrow> (Option \<times> bytes) option) \<Rightarrow> bytes list \<Rightarrow> error + (Option \<times> bytes list)" where
  "ServeConn decode chunks =
     (case read_option decode [] chunks of
        None \<Rightarrow> Inl ''rpc server: options error''
      | Some (opt, rest) \<Rightarrow>
          if opt_MagicNumber opt \<noteq> MagicNumber then Inl ''rpc server: invalid magic number''
          else if \<not> has_codec (opt_CodecType opt) then Inl ''rpc server: invalid codec type''
          else Inr (opt, rest))"

text \<open>
  The handler for HTTP: only \<^verbatim>\<open>CONNECT\<close> is taken; then the connection is taken over (\<open>hijack\<close> is the
  result of that), a status line goes out, and the connection is served.
\<close>

definition connected :: string where
  "connected = ''200 Connected to Gee RPC''"

definition defaultRPCPath :: string where
  "defaultRPCPath = ''/geerpc''"

datatype http_outcome =
    Http_refused int string bytes
  | Http_hijack_failed error
  | Http_hijacked bytes "error + (Option \<times> bytes list)"

definition connect_reply :: bytes where
  "connect_reply = ''HTTP/1.0 '' @ connected @ [CHR 0x0A, CHR 0x0A]"

definition rpc_ServeHTTP ::
  "(bytes \<Rightarrow> (Option \<times> bytes) option) \<Rightarrow> string \<Rightarrow> error option \<Rightarrow> bytes list \<Rightarrow> http_outcome" where
  "rpc_ServeHTTP decode meth hijack chunks =
     (if meth \<noteq> ''CONNECT'' then
        Http_refused 405 ''text/plain;charset=utf-8'' (''405 must CONNECT'' @ [CHR 0x0A])
      else
        (case hijack of
           Some err \<Rightarrow> Http_hijack_failed err
         | None \<Rightarrow>
             Http_hijacked connect_reply (ServeConn decode chunks)))"

section \<open>Handling one request\<close>

text \<open>
  \<^verbatim>\<open>handleRequest\<close> as a transition system of two goroutines that meet on the unbuffered channels
  \<^verbatim>\<open>called\<close> and \<^verbatim>\<open>sent\<close>: the worker calls the method and answers, the other one waits for it or for
  the time limit.  \<open>hr_sent\<close> are the answers sent, each with the error of its header.
\<close>

datatype 'b worker = Calling | At_called "error + 'b" | Sending_answer "error + 'b" | At_sent | Worker_done

datatype waiter = At_select | At_sent_wait | Timing_out | Waiter_done

record 'b handling =
  hr_worker :: "'b worker"
  hr_waiter :: waiter
  hr_sent :: "(error + 'b) list"

definition handle_start :: "'b handling" where
  "handle_start = \<lparr>hr_worker = Calling, hr_waiter = At_select, hr_sent = []\<rparr>"

definition timeout_error :: "string \<Rightarrow> error" where
  "timeout_error limit = ''rpc server: request handle timeout: exepct within '' @ limit"

text \<open>\<open>limited\<close>: the time limit is not 0; \<open>limit\<close> is its text.\<close>

inductive handle_step :: "bool \<Rightarrow> string \<Rightarrow> 'b handling \<Rightarrow> 'b handling \<Rightarrow> bool" for limited limit where
  call_returns: "hr_worker s = Calling \<Longrightarrow> handle_step limited limit s (s\<lparr>hr_worker := At_called res\<rparr>)"
| meet_called: "hr_worker s = At_called res \<Longrightarrow> hr_waiter s = At_select \<Longrightarrow>
    handle_step limited limit s (s\<lparr>hr_worker := Sending_answer res, hr_waiter := At_sent_wait\<rparr>)"
| answer: "hr_worker s = Sending_answer res \<Longrightarrow>
    handle_step limited limit s (s\<lparr>hr_worker := At_sent, hr_sent := hr_sent s @ [res]\<rparr>)"
| meet_sent: "hr_worker s = At_sent \<Longrightarrow> hr_waiter s = At_sent_wait \<Longrightarrow>
    handle_step limited limit s (s\<lparr>hr_worker := Worker_done, hr_waiter := Waiter_done\<rparr>)"
| time_over: "limited \<Longrightarrow> hr_waiter s = At_select \<Longrightarrow>
    handle_step limited limit s (s\<lparr>hr_waiter := Timing_out\<rparr>)"
| answer_timeout: "hr_waiter s = Timing_out \<Longrightarrow>
    handle_step limited limit s (s\<lparr>hr_waiter := Waiter_done, hr_sent := hr_sent s @ [Inl (timeout_error limit)]\<rparr>)"

inductive handle_steps :: "bool \<Rightarrow> string \<Rightarrow> 'b handling \<Rightarrow> 'b handling \<Rightarrow> bool" for limited limit where
  refl: "handle_steps limited limit s s"
| step: "handle_steps limited limit s t \<Longrightarrow> handle_step limited limit t u \<Longrightarrow> handle_steps limited limit s u"

inductive_cases handle_stepE: "handle_step limited limit s t"

section \<open>Properties\<close>

lemma findService_split:
  assumes "CHR ''.'' \<notin> set meth"
  shows "findService (svcname @ CHR ''.'' # meth) srv =
    (case srv svcname of
       None \<Rightarrow> Inl (''rpc server: can'' @ [CHR 0x27] @ ''t find service '' @ svcname)
     | Some svc \<Rightarrow>
         (case svc_method svc meth of
            None \<Rightarrow> Inl (''rpc server: can'' @ [CHR 0x27] @ ''t find method '' @ meth)
          | Some mtype \<Rightarrow> Inr (svc, mtype)))"
  using LastIndex_append_sep [OF assms, of svcname] by (simp add: findService_def Let_def)

lemma registerMethods_find:
  "registerMethods impl ms n =
     map_option (new_method impl) (find (\<lambda>m. rm_Name m = n \<and> suitable_method m) (rev ms))"
proof (induction ms rule: rev_induct)
  case (snoc m ms)
  then show ?case by (auto simp: registerMethods_def)
qed (simp add: registerMethods_def)

text \<open>
  The lookup of a method: with \<open>service.method\<close>, where the method's name has no dot, a
  request reaches exactly the method that was registered under these names; a name without a
  dot, an unknown service and an unknown method are three different errors.
\<close>

theorem registered_methods_found:
  assumes "newService impl name ms = Some s" and "server_Register s srv = (None, srv')"
    and "CHR ''.'' \<notin> set meth"
  shows "findService (name @ ''.'' @ meth) srv' =
    (case find (\<lambda>m. rm_Name m = meth \<and> suitable_method m) (rev ms) of
       Some m \<Rightarrow> Inr (s, new_method impl m)
     | None \<Rightarrow> Inl (''rpc server: can'' @ [CHR 0x27] @ ''t find method '' @ meth))"
proof -
  have "srv' name = Some s" "svc_method s = registerMethods impl ms"
    using assms(1,2) by (auto simp: newService_def server_Register_def split: if_splits option.splits)
  then show ?thesis
    using findService_split [OF assms(3), of name srv'] by (simp add: registerMethods_find split: option.split)
qed

text \<open>The service of the package's test, with one suitable and one unsuitable method.\<close>

definition foo_arg :: go_type where
  "foo_arg = GoType ''Args'' ''geerpc'' False Other_kind None"

definition foo_reply :: go_type where
  "foo_reply = GoType [] [] False Ptr_kind (Some (GoType ''int'' [] False Other_kind None))"

definition foo_methods :: "reflect_method list" where
  "foo_methods =
     (let foo = GoType ''Foo'' ''geerpc'' False Other_kind None; err = GoType ''error'' [] True Other_kind None
      in [\<lparr>rm_Name = ''Sum'', rm_In = [foo, foo_arg, foo_reply], rm_Out = [err]\<rparr>,
          \<lparr>rm_Name = ''Zero'', rm_In = [foo], rm_Out = [err]\<rparr>])"

definition foo_impl :: "string \<Rightarrow> (nat, nat) methodType" where
  "foo_impl n =
     \<lparr>mt_ArgType = foo_arg, mt_ReplyType = foo_reply,
      mt_decode = (\<lambda>m. case m of MBody b \<Rightarrow> Inr b | _ \<Rightarrow> Inl ''type''), mt_func = (\<lambda>a. Inr (a + a)),
      mt_numCalls = 0\<rparr>"

definition foo_service :: "(nat, nat) service" where
  "foo_service = \<lparr>svc_name = ''Foo'', svc_method = registerMethods foo_impl foo_methods\<rparr>"

definition foo_server :: "(nat, nat) server" where
  "foo_server = [''Foo'' \<mapsto> foo_service]"

lemma foo_registered: "newService foo_impl ''Foo'' foo_methods = Some foo_service"
    "server_Register foo_service Map.empty = (None, foo_server)"
  by (simp_all add: newService_def foo_service_def IsExported_def server_Register_def foo_server_def)

lemmas foo_defs = Let_def foo_methods_def suitable_method_def isExportedOrBuiltinType_def IsExported_def foo_arg_def foo_reply_def

lemma foo_found: "findService ''Foo.Sum'' foo_server = Inr (foo_service, foo_impl ''Sum'')"
  using findService_split [of "''Sum''" "''Foo''" foo_server]
  by (simp add: foo_server_def foo_service_def registerMethods_find foo_defs new_method_def foo_impl_def)

theorem registered_methods_found_witness:
  "findService ''Foo.Zero'' foo_server = Inl (''rpc server: can'' @ [CHR 0x27] @ ''t find method Zero'')"
  using registered_methods_found [OF foo_registered, of "''Zero''"] by (simp add: foo_defs)

text \<open>The argument and the reply of a method can be made.\<close>

definition allocates :: "('b, 'a) methodType \<Rightarrow> bool" where
  "allocates m \<longleftrightarrow>
     (case (newArgv (mt_ArgType m), newReplyv (mt_ReplyType m)) of (Returns _, Returns _) \<Rightarrow> True | _ \<Rightarrow> False)"

lemma allocatesE:
  assumes "allocates m"
  obtains argv replyv where "newArgv (mt_ArgType m) = Returns argv" and "newReplyv (mt_ReplyType m) = Returns replyv"
  using assms by (auto simp: allocates_def split: outcome.splits)

lemma foo_allocates [simp]: "allocates (foo_impl n)"
  by (simp add: allocates_def newArgv_def newReplyv_def type_Elem_def foo_impl_def foo_arg_def foo_reply_def)

definition good_request :: "('b, 'a) server \<Rightarrow> Header \<times> 'b \<Rightarrow> ('b, 'a) methodType \<times> 'a \<Rightarrow> bool" where
  "good_request srv = (\<lambda>(h, b) (mtype, arg).
     (\<exists>svc. findService (ServiceMethod h) srv = Inr (svc, mtype)) \<and> allocates mtype \<and>
     mt_decode mtype (MBody b) = Inr arg)"

lemma serve_good:
  assumes "good_request srv (h, b) (mtype, arg)"
  shows "serveCodec as_header srv (NewGobCodec (MHeader h # MBody b # rest)) =
    Handle h mtype arg # serveCodec as_header srv (NewGobCodec rest)"
  using assms
  by (subst serveCodec.simps)
    (auto simp: good_request_def readRequest_def codec_ReadHeader_def codec_ReadBody_def NewGobCodec_def
      elim!: allocatesE)

text \<open>
  C16: requests that are in order are served in order: each one whose method is found and whose
  argument decodes is handed to a goroutine with its own header, method and argument, and the
  stream goes on after it.
\<close>

theorem good_requests_served_in_order:
  assumes "list_all2 (good_request srv) reqs margs"
  shows "serveCodec as_header srv (NewGobCodec (concat (map (\<lambda>(h, b). [MHeader h, MBody b]) reqs) @ rest)) =
    map (\<lambda>((h, b), (mtype, arg)). Handle h mtype arg) (zip reqs margs) @
    serveCodec as_header srv (NewGobCodec rest)"
  using assms
proof (induction reqs margs rule: list_all2_induct)
  case (Cons x xs y ys)
  then show ?case by (cases x; cases y) (simp add: serve_good)
qed simp

theorem good_requests_served_in_order_witness:
  "serveCodec (\<lambda>_. None) foo_server (NewGobCodec [MHeader \<lparr>ServiceMethod = ''Foo.Sum'', Seq = 1, h_Error = []\<rparr>, MBody 4]) =
     [Handle \<lparr>ServiceMethod = ''Foo.Sum'', Seq = 1, h_Error = []\<rparr> (foo_impl ''Sum'') 4]"
proof -
  let ?h = "\<lparr>ServiceMethod = ''Foo.Sum'', Seq = 1, h_Error = []\<rparr>"
  have "good_request foo_server (?h, 4) (foo_impl ''Sum'', 4)"
    using foo_allocates foo_found by (simp add: good_request_def) (simp add: foo_impl_def)
  then have "list_all2 (good_request foo_server) [(?h, 4)] [(foo_impl ''Sum'', 4)]" by simp
  from good_requests_served_in_order [OF this, of "\<lambda>_. None" "[]"]
  show ?thesis
    by (subst (asm) (2) serveCodec.simps) (simp add: readRequest_def codec_ReadHeader_def NewGobCodec_def)
qed

text \<open>
  C39: a request for an unknown method ends the connection: its body is not taken off the stream,
  and unless it can be read as a header, the error is the last answer: no request behind it
  is ever served.
\<close>

theorem unknown_method_ends_connection:
  assumes "findService (ServiceMethod h) srv = Inl err" and "as_header b = None"
  shows "serveCodec as_header srv (NewGobCodec (MHeader h # MBody b # rest)) = [Answer_error (h\<lparr>h_Error := err\<rparr>)]"
  using assms
  by (subst serveCodec.simps, simp add: readRequest_def codec_ReadHeader_def NewGobCodec_def)
    (subst serveCodec.simps, simp add: readRequest_def codec_ReadHeader_def)

theorem unknown_method_ends_connection_witness:
  "serveCodec (\<lambda>_. None) foo_server (NewGobCodec
     [MHeader \<lparr>ServiceMethod = ''Foo'', Seq = 1, h_Error = []\<rparr>, MBody 4,
      MHeader \<lparr>ServiceMethod = ''Foo.Sum'', Seq = 2, h_Error = []\<rparr>, MBody 5]) =
   [Answer_error \<lparr>ServiceMethod = ''Foo'', Seq = 1,
      h_Error = ''rpc server: service/method request ill-formed: Foo''\<rparr>]"
  by (subst unknown_method_ends_connection [where err = "''rpc server: service/method request ill-formed: Foo''"])
    (simp_all add: findService_def)

text \<open>
  A method whose reply is not a pointer is registered all the same, and the first request for it
  ends the process: the type of the elements of its reply does not exist.
\<close>

theorem plain_reply_crashes_server:
  assumes "newService impl name ms = Some s" and "server_Register s srv = (None, srv')"
    and "CHR ''.'' \<notin> set meth" and "find (\<lambda>m. rm_Name m = meth \<and> suitable_method m) (rev ms) = Some m"
    and "ty_elem (rm_In m ! 2) = None" and "ty_Kind (rm_In m ! 1) \<noteq> Ptr_kind" and "ServiceMethod h = name @ ''.'' @ meth"
  shows "serveCodec as_header srv' (NewGobCodec (MHeader h # rest)) =
    [Crash (''reflect: Elem of invalid type '' @ ty_Name (rm_In m ! 2))]"
proof -
  have "srv' name = Some s" "svc_method s = registerMethods impl ms"
    using assms(1,2) by (auto simp: newService_def server_Register_def split: if_splits option.splits)
  then have found: "findService (ServiceMethod h) srv' = Inr (s, new_method impl m)"
    using findService_split [OF assms(3), of name srv'] by (simp add: registerMethods_find assms(4,7))
  have argv: "newArgv (mt_ArgType (new_method impl m)) = Returns (Zero_of (rm_In m ! 1))"
    using assms(6) by (simp add: newArgv_def new_method_def)
  have replyv: "newReplyv (mt_ReplyType (new_method impl m)) = Panics (''reflect: Elem of invalid type '' @ ty_Name (rm_In m ! 2))"
    using assms(5) by (simp add: newReplyv_def new_method_def type_Elem_def)
  show ?thesis
    by (subst serveCodec.simps) (simp add: readRequest_def codec_ReadHeader_def NewGobCodec_def found argv replyv)
qed

definition plain_reply :: reflect_method where
  "plain_reply = \<lparr>rm_Name = ''Bad'', rm_In = [foo_arg, foo_arg, GoType ''int'' [] False Other_kind None],
     rm_Out = [GoType ''error'' [] True Other_kind None]\<rparr>"

theorem plain_reply_crashes_server_witness:
  "\<exists>s srv'. newService foo_impl ''Foo'' [plain_reply] = Some s \<and> server_Register s Map.empty = (None, srv') \<and>
     serveCodec (\<lambda>_. None) srv' (NewGobCodec [MHeader \<lparr>ServiceMethod = ''Foo.Bad'', Seq = 1, h_Error = []\<rparr>, MBody 4]) =
       [Crash ''reflect: Elem of invalid type int'']"
proof -
  let ?s = "\<lparr>svc_name = ''Foo'', svc_method = registerMethods foo_impl [plain_reply]\<rparr>"
  have s: "newService foo_impl ''Foo'' [plain_reply] = Some ?s" "server_Register ?s Map.empty = (None, [''Foo'' \<mapsto> ?s])"
    by (simp_all add: newService_def IsExported_def server_Register_def)
  have "serveCodec (\<lambda>_. None) [''Foo'' \<mapsto> ?s] (NewGobCodec (MHeader \<lparr>ServiceMethod = ''Foo.Bad'', Seq = 1, h_Error = []\<rparr> # [MBody 4])) =
      [Crash (''reflect: Elem of invalid type '' @ ty_Name (rm_In plain_reply ! 2))]"
    by (rule plain_reply_crashes_server [OF s, where meth = "''Bad''"]) (simp_all add: plain_reply_def foo_defs)
  with s show ?thesis by (auto simp: plain_reply_def)
qed

definition handle_inv :: "string \<Rightarrow> 'b handling \<Rightarrow> bool" where
  "handle_inv limit s \<longleftrightarrow>
     (case hr_waiter s of
        At_select \<Rightarrow> hr_sent s = [] \<and> (hr_worker s = Calling \<or> (\<exists>res. hr_worker s = At_called res))
      | At_sent_wait \<Rightarrow>
          (hr_sent s = [] \<and> (\<exists>res. hr_worker s = Sending_answer res)) \<or>
          (length (hr_sent s) = 1 \<and> hr_worker s = At_sent)
      | Timing_out \<Rightarrow> hr_sent s = [] \<and> (hr_worker s = Calling \<or> (\<exists>res. hr_worker s = At_called res))
      | Waiter_done \<Rightarrow>
          length (hr_sent s) = 1 \<and>
          (hr_worker s = Worker_done \<or>
            hr_sent s = [Inl (timeout_error limit)] \<and>
            (hr_worker s = Calling \<or> (\<exists>res. hr_worker s = At_called res))))"

lemma handle_inv_step: "handle_step limited limit s t \<Longrightarrow> handle_inv limit s \<Longrightarrow> handle_inv limit t"
  by (induction rule: handle_step.induct) (auto simp: handle_inv_def split: waiter.splits)

lemma handle_inv_steps: "handle_steps limited limit s t \<Longrightarrow> handle_inv limit s \<Longrightarrow> handle_inv limit t"
  by (induction rule: handle_steps.induct) (auto intro: handle_inv_step)

lemma timed_out_step:
  assumes "handle_step limited limit s t" and "handle_inv limit s"
    and "hr_waiter s = Timing_out \<or> (hr_waiter s = Waiter_done \<and> hr_worker s \<noteq> Worker_done)"
  shows "hr_waiter t = Timing_out \<or> (hr_waiter t = Waiter_done \<and> hr_worker t \<noteq> Worker_done)"
  using assms by (induction rule: handle_step.induct) (auto simp: handle_inv_def)

lemma timed_out_steps:
  assumes "handle_steps limited limit s t" and "handle_inv limit s" and "hr_waiter s = Timing_out"
  shows "hr_waiter t = Timing_out \<or> (hr_waiter t = Waiter_done \<and> hr_worker t \<noteq> Worker_done)"
  using assms
proof (induction rule: handle_steps.induct)
  case (step s t u)
  have "handle_inv limit t" by (rule handle_inv_steps [OF step.hyps(1) step.prems(1)])
  from timed_out_step [OF step.hyps(2) this step.IH [OF step.prems]] show ?case .
qed simp

text \<open>
  C20: a request gets at most one answer, and exactly one when its handling is over.  With a time
  limit, once the limit has struck, the only answer is the time-out error, and the worker never
  ends: it waits for ever to announce its result, if its method returns at all.
\<close>

theorem request_answered_once:
  assumes "handle_steps limited limit handle_start s"
  shows "length (hr_sent s) \<le> 1 \<and> (hr_waiter s \<noteq> Waiter_done \<or> length (hr_sent s) = 1) \<and>
    (hr_waiter s \<noteq> Timing_out \<or>
      (\<forall>t. \<not> handle_steps limited limit s t \<or>
        hr_worker t \<noteq> Worker_done \<and> hr_sent t \<in> {[], [Inl (timeout_error limit)]}))"
proof -
  have inv: "handle_inv limit s"
    by (rule handle_inv_steps [OF assms]) (simp add: handle_inv_def handle_start_def)
  have "hr_worker t \<noteq> Worker_done \<and> hr_sent t \<in> {[], [Inl (timeout_error limit)]}"
    if "hr_waiter s = Timing_out" "handle_steps limited limit s t" for t
    using timed_out_steps [OF that(2) inv that(1)] handle_inv_steps [OF that(2) inv]
    by (auto simp: handle_inv_def)
  with inv show ?thesis by (auto simp: handle_inv_def split: waiter.splits)
qed

definition timed_out :: "nat handling" where
  "timed_out = \<lparr>hr_worker = At_called (Inr 3), hr_waiter = Waiter_done,
     hr_sent = [Inl (timeout_error ''1s'')]\<rparr>"

theorem request_answered_once_witness:
  "handle_steps True ''1s'' (handle_start\<lparr>hr_waiter := Timing_out\<rparr>) timed_out \<and>
   hr_worker timed_out \<noteq> Worker_done"
proof -
  let ?s = "handle_start\<lparr>hr_waiter := Timing_out\<rparr> :: nat handling"
  let ?t = "?s\<lparr>hr_waiter := Waiter_done, hr_sent := hr_sent ?s @ [Inl (timeout_error ''1s'')]\<rparr>"
  have s: "handle_steps True ''1s'' handle_start ?s"
    by (rule handle_steps.step [OF handle_steps.refl handle_step.time_over]) (simp_all add: handle_start_def)
  have "handle_steps True ''1s'' ?s ?t"
    by (rule handle_steps.step [OF handle_steps.refl handle_step.answer_timeout]) simp
  then have "handle_steps True ''1s'' ?s (?t\<lparr>hr_worker := At_called (Inr 3)\<rparr>)"
    by (rule handle_steps.step [OF _ handle_step.call_returns]) (simp add: handle_start_def)
  moreover have "?t\<lparr>hr_worker := At_called (Inr 3)\<rparr> = timed_out"
    by (simp add: handle_start_def timed_out_def)
  ultimately have st: "handle_steps True ''1s'' ?s timed_out" by (simp only:)
  have "hr_waiter ?s = Timing_out" by simp
  with request_answered_once [OF s] st show ?thesis by blast
qed

text \<open>
  The start of a connection loses what comes with the option: when the chunk that completes
  the option carries bytes behind it, the codec never sees them; only a client whose first
  request arrives in a chunk of its own is served.
\<close>

theorem bytes_behind_option_are_lost:
  assumes "\<And>rest. decode (encoded @ rest) = Some (opt, rest)"
    and "parseOptions opts = Inr opt" and "opt_CodecType opt = GobType"
  shows "ServeConn decode ((encoded @ request) # chunks) = Inr (opt, chunks)"
  using parseOptions_result [OF assms(2)] assms(1,3)
  by (simp add: ServeConn_def has_codec_def)

theorem bytes_behind_option_are_lost_witness:
  "ServeConn (\<lambda>b. Some (DefaultOption, tl b)) [''O'' @ ''request''] = Inr (DefaultOption, [])"
  by (rule bytes_behind_option_are_lost [where opts = "[]"]) (simp_all add: parseOptions_def DefaultOption_def)

end
