(* ===== verification/RpcSystem.thy ===== *)
theory RpcSystem
  imports Client RpcServer
begin

text \<open>
  A client and a server of GeeRPC on one connection: the steps of \<open>Client\<close> and those of \<open>RpcServer\<close>
  over two gob codecs and the streams between them, with all interleavings of callers, receiver,
  server loop and the goroutines of requests.  The connection may break at any time.
\<close>

section \<open>What a remote call means\<close>

text \<open>
  The parties' data: the services; the method and the argument of each call; \<open>su_read\<close> is what
  decoding into the reply of a call gives, and \<open>su_invalid\<close> is the empty struct \<^verbatim>\<open>invalidRequest\<close>.
\<close>

record ('b, 'a) rpc_setup =
  su_server :: "('b, 'a) server"
  su_as_header :: "'b \<Rightarrow> Header option"
  su_invalid :: 'b
  su_method :: "call_no \<Rightarrow> string"
  su_args :: "call_no \<Rightarrow> 'b"
  su_read :: "'b message \<Rightarrow> error + 'b"
  su_errorf :: "string \<Rightarrow> error"
  su_limited :: bool
  su_limit :: string

text \<open>The specification: the error text and the body that a request should be answered with.\<close>

definition rpc_answer :: "('b, 'a) rpc_setup \<Rightarrow> call_no \<Rightarrow> string \<times> 'b" where
  "rpc_answer u k =
     (case findService (su_method u k) (su_server u) of
        Inl err \<Rightarrow> (err, su_invalid u)
      | Inr (svc, m) \<Rightarrow>
          (case mt_decode m (MBody (su_args u k)) of
             Inl err \<Rightarrow> (err, su_invalid u)
           | Inr arg \<Rightarrow>
               (case fst (service_call m arg) of Inl err \<Rightarrow> (err, su_invalid u) | Inr b \<Rightarrow> ([], b))))"

section \<open>The system\<close>

text \<open>
  \<open>sy_cc\<close> and \<open>sy_sc\<close> are the two codecs; \<open>sy_refusal\<close> is the header that the server loop is about to
  answer with an error; \<open>sy_work\<close> are the requests at work.
\<close>

record ('b, 'a) rpc_system =
  sy_client :: "'b rpc_client"
  sy_cc :: "'b GobCodec"
  sy_sc :: "'b GobCodec"
  sy_serving :: bool
  sy_refusal :: "Header option"
  sy_work :: "(Header \<times> ('b, 'a) methodType \<times> 'a \<times> 'b handling) list"

definition sys_start :: "('b, 'a) rpc_system" where
  "sys_start =
     \<lparr>sy_client = newClientCodec, sy_cc = NewGobCodec [], sy_sc = NewGobCodec [], sy_serving = True,
      sy_refusal = None, sy_work = []\<rparr>"

text \<open>The header of a request, as \<^verbatim>\<open>send\<close> fills it in.\<close>

definition request_header :: "string \<Rightarrow> uint64 \<Rightarrow> Header" where
  "request_header serviceMethod seq = \<lparr>ServiceMethod = serviceMethod, Seq = seq, h_Error = []\<rparr>"

text \<open>The header of an answer: on success it is the request's.\<close>

definition answer_header :: "Header \<Rightarrow> error + 'b \<Rightarrow> Header" where
  "answer_header h res = (case res of Inl err \<Rightarrow> h\<lparr>h_Error := err\<rparr> | Inr b \<Rightarrow> h)"

definition answer_body :: "'b \<Rightarrow> error + 'b \<Rightarrow> 'b" where
  "answer_body invalid res = (case res of Inl err \<Rightarrow> invalid | Inr b \<Rightarrow> b)"

text \<open>A write on a codec; nothing gets out of a closed one.\<close>

definition wrote :: "Header \<Rightarrow> 'b \<Rightarrow> 'b GobCodec \<Rightarrow> 'b GobCodec \<Rightarrow> bool" where
  "wrote h b c c' \<longleftrightarrow>
     (if gob_closed c then c' = c else \<exists>enc_h enc_b res. codec_Write enc_h enc_b h b c = (res, c'))"

text \<open>
  The steps.  A write that the caller takes for successful may have been lost if the codec is closed,
  because the error of the flush is dropped.  In \<open>read_body\<close> a body that nobody waits for, or that comes
  with an error, is discarded by any decoder.
\<close>

inductive sys_step :: "('b, 'a) rpc_setup \<Rightarrow> ('b, 'a) rpc_system \<Rightarrow> ('b, 'a) rpc_system \<Rightarrow> bool" for u where
  caller_starts: "cl_phase (sy_client s) k = Unused \<Longrightarrow>
    sys_step u s (s\<lparr>sy_client := set_phase k Sending (sy_client s)\<rparr>)"
| caller_registers: "cl_phase (sy_client s) k = Sending \<Longrightarrow> cl_sender (sy_client s) = None \<Longrightarrow>
    sys_step u s (s\<lparr>sy_client := send_begin k (sy_client s)\<rparr>)"
| caller_writes: "cl_phase (sy_client s) k = Writing q \<Longrightarrow>
    wrote (request_header (su_method u k) q) (su_args u k) (sy_cc s) cc \<Longrightarrow> res = None \<or> gob_closed cc \<Longrightarrow>
    sys_step u s (s\<lparr>sy_client := send_end k q res (sy_client s), sy_cc := cc\<rparr>)"
| caller_returns: "cl_phase (sy_client s) k = Waiting_done \<Longrightarrow> call_Done (cl_calls (sy_client s) k) = e # es \<Longrightarrow>
    sys_step u s (s\<lparr>sy_client := set_phase k (Returned e) (sy_client s)\<rparr>)"
| caller_gives_up: "cl_phase (sy_client s) k = Waiting_done \<Longrightarrow>
    sys_step u s (s\<lparr>sy_client := set_phase k Given_up
      (snd (removeCall (call_Seq (cl_calls (sy_client s) k)) (sy_client s)))\<rparr>)"
| client_closes:
    "sys_step u s (s\<lparr>sy_client := snd (client_Close closed (sy_client s)), sy_cc := snd (codec_Close closed (sy_cc s))\<rparr>)"
| receive_header: "cl_receiver (sy_client s) = AtHeader \<Longrightarrow>
    codec_ReadHeader (su_as_header u) (sy_cc s) = (Inr h, cc) \<Longrightarrow>
    sys_step u s (s\<lparr>sy_client := recv_header (Seq h) (h_Error h) (sy_client s), sy_cc := cc\<rparr>)"
| receive_body: "cl_receiver (sy_client s) = AtBody q herr k \<Longrightarrow> k = None \<or> herr \<noteq> [] \<or> dec = su_read u \<Longrightarrow>
    codec_ReadBody dec (sy_cc s) = (res, cc) \<Longrightarrow>
    sys_step u s (s\<lparr>sy_client := recv_body (su_errorf u) q herr k res (sy_client s), sy_cc := cc\<rparr>)"
| receive_fails: "cl_receiver (sy_client s) = AtHeader \<Longrightarrow>
    sys_step u s (s\<lparr>sy_client := (sy_client s)\<lparr>cl_receiver := Failed err\<rparr>\<rparr>)"
| body_fails: "cl_receiver (sy_client s) = AtBody q herr k \<Longrightarrow>
    sys_step u s (s\<lparr>sy_client := recv_body (su_errorf u) q herr k (Inl err) (sy_client s)\<rparr>)"
| receiver_ends: "cl_receiver (sy_client s) = Failed err \<Longrightarrow> cl_sender (sy_client s) = None \<Longrightarrow>
    sys_step u s (s\<lparr>sy_client := (terminateCalls err (sy_client s))\<lparr>cl_receiver := Stopped\<rparr>\<rparr>)"
| to_server: "gob_out (sy_cc s) = m # ms \<Longrightarrow>
    sys_step u s (s\<lparr>sy_cc := (sy_cc s)\<lparr>gob_out := ms\<rparr>, sy_sc := (sy_sc s)\<lparr>gob_in := gob_in (sy_sc s) @ [m]\<rparr>\<rparr>)"
| to_client: "gob_out (sy_sc s) = m # ms \<Longrightarrow>
    sys_step u s (s\<lparr>sy_sc := (sy_sc s)\<lparr>gob_out := ms\<rparr>, sy_cc := (sy_cc s)\<lparr>gob_in := gob_in (sy_cc s) @ [m]\<rparr>\<rparr>)"
| breaks:
    "sys_step u s (s\<lparr>sy_cc := (sy_cc s)\<lparr>gob_closed := True\<rparr>, sy_sc := (sy_sc s)\<lparr>gob_closed := True\<rparr>\<rparr>)"
| server_reads: "sy_serving s \<Longrightarrow> sy_refusal s = None \<Longrightarrow>
    readRequest (su_as_header u) (su_server u) (sy_sc s) = (Returns (Some (h, Inr (m, arg))), sc) \<Longrightarrow>
    sys_step u s (s\<lparr>sy_sc := sc, sy_work := sy_work s @ [(h, m, arg, handle_start)]\<rparr>)"
| server_refuses: "sy_serving s \<Longrightarrow> sy_refusal s = None \<Longrightarrow>
    readRequest (su_as_header u) (su_server u) (sy_sc s) = (Returns (Some (h, Inl err)), sc) \<Longrightarrow>
    sys_step u s (s\<lparr>sy_sc := sc, sy_refusal := Some (answer_header h (Inl err :: error + 'b))\<rparr>)"
| refusal_sent: "sy_refusal s = Some h \<Longrightarrow> wrote h (su_invalid u) (sy_sc s) sc \<Longrightarrow>
    sys_step u s (s\<lparr>sy_sc := sc, sy_refusal := None\<rparr>)"
| server_stops: "sy_serving s \<Longrightarrow> sy_refusal s = None \<Longrightarrow>
    readRequest (su_as_header u) (su_server u) (sy_sc s) = (Returns None, sc) \<Longrightarrow>
    sys_step u s (s\<lparr>sy_sc := sc, sy_serving := False\<rparr>)"
| server_crashes: "sy_serving s \<Longrightarrow> sy_refusal s = None \<Longrightarrow>
    readRequest (su_as_header u) (su_server u) (sy_sc s) = (Panics e, sc) \<Longrightarrow>
    sys_step u s (s\<lparr>sy_sc := (sy_sc s)\<lparr>gob_closed := True\<rparr>, sy_serving := False, sy_work := []\<rparr>)"
| server_closes: "\<not> sy_serving s \<Longrightarrow> list_all (\<lambda>(h, m, arg, w). hr_waiter w = Waiter_done) (sy_work s) \<Longrightarrow>
    sys_step u s (s\<lparr>sy_sc := (sy_sc s)\<lparr>gob_closed := True\<rparr>\<rparr>)"
| request_works: "i < length (sy_work s) \<Longrightarrow> sy_work s ! i = (h, m, arg, w) \<Longrightarrow>
    handle_step (su_limited u) (su_limit u) w w' \<Longrightarrow> hr_sent w' = hr_sent w \<Longrightarrow>
    hr_worker w \<noteq> Calling \<or> hr_worker w' \<in> {Calling, At_called (fst (service_call m arg))} \<Longrightarrow>
    sys_step u s (s\<lparr>sy_work := (sy_work s)[i := (h, m, arg, w')]\<rparr>)"
| request_answers: "i < length (sy_work s) \<Longrightarrow> sy_work s ! i = (h, m, arg, w) \<Longrightarrow>
    handle_step (su_limited u) (su_limit u) w w' \<Longrightarrow> hr_sent w' = hr_sent w @ [res] \<Longrightarrow>
    wrote (answer_header h res) (answer_body (su_invalid u) res) (sy_sc s) sc \<Longrightarrow>
    sys_step u s (s\<lparr>sy_work := (sy_work s)[i := (h, m, arg, w')], sy_sc := sc\<rparr>)"

inductive sys_reachable :: "('b, 'a) rpc_setup \<Rightarrow> ('b, 'a) rpc_system \<Rightarrow> bool" for u where
  start: "sys_reachable u sys_start"
| step: "sys_reachable u s \<Longrightarrow> sys_step u s t \<Longrightarrow> sys_reachable u t"

text \<open>The client of the system is the client of \<open>Client\<close>.\<close>

lemma sys_step_client:
  "sys_step u s t \<Longrightarrow> sy_client t = sy_client s \<or> rpc_step (su_errorf u) (sy_client s) (sy_client t)"
  by (induction rule: sys_step.induct) (auto intro: rpc_step.intros)

lemma sys_client_reachable: "sys_reachable u s \<Longrightarrow> rpc_reachable (su_errorf u) (sy_client s)"
proof (induction rule: sys_reachable.induct)
  case (step s t)
  then show ?case using sys_step_client [OF step.hyps(2)] by (auto intro: rpc_steps.step)
qed (simp add: sys_start_def rpc_steps.refl)

section \<open>Streams\<close>

text \<open>
  A stream of headers and bodies in pairs; a header without a body can only be the last message, of a
  codec that is closed.
\<close>

fun paired :: "(Header \<Rightarrow> 'b \<Rightarrow> bool) \<Rightarrow> bool \<Rightarrow> 'b message list \<Rightarrow> bool" where
  "paired P closed [] = True"
| "paired P closed [MHeader h] = (closed \<and> (\<exists>b. P h b))"
| "paired P closed (MHeader h # MBody b # ms) = (P h b \<and> paired P closed ms)"
| "paired P closed _ = False"

lemma paired_mono: "(\<And>h b. P h b \<Longrightarrow> Q h b) \<Longrightarrow> paired P closed ms \<Longrightarrow> paired Q closed ms"
  by (induction P closed ms rule: paired.induct) auto

lemma paired_close: "paired P closed ms \<Longrightarrow> paired P True ms"
  by (induction P closed ms rule: paired.induct) auto

lemma paired_append: "paired P False xs \<Longrightarrow> paired P closed ys \<Longrightarrow> paired P closed (xs @ ys)"
  by (induction P "False" xs rule: paired.induct) auto

lemma wrote_cases:
  assumes "wrote h b c c'"
  obtains (lost) "gob_closed c'" "c' = c"
  | (nothing) "\<not> gob_closed c" "c' = c\<lparr>gob_closed := True\<rparr>"
  | (header) "\<not> gob_closed c" "c' = c\<lparr>gob_out := gob_out c @ [MHeader h], gob_closed := True\<rparr>"
  | (all) "\<not> gob_closed c" "c' = c\<lparr>gob_out := gob_out c @ [MHeader h, MBody b]\<rparr>"
  using assms by (auto simp: wrote_def codec_Write_def Let_def split: if_splits option.splits)

text \<open>What holds of a stream and of the closing of its codec, if writes and the closing keep it.\<close>

lemma wrote_stream:
  assumes "wrote h b c c'" and "Q (gob_closed c) (xs @ gob_out c)" and "\<And>ms. Q False ms \<Longrightarrow> Q True ms"
    and "\<And>ms. Q False ms \<Longrightarrow> Q True (ms @ [MHeader h])" and "\<And>ms. Q False ms \<Longrightarrow> Q False (ms @ [MHeader h, MBody b])"
  shows "Q (gob_closed c') (xs @ gob_out c')"
  using assms(1)
proof (cases rule: wrote_cases)
  case nothing
  with assms(2,3) show ?thesis by simp
next
  case header
  with assms(2,4) show ?thesis by (simp flip: append_assoc)
next
  case all
  with assms(2,5) show ?thesis by (simp flip: append_assoc)
qed (use assms(2) in simp)

lemma wrote_paired:
  assumes "wrote h b c c'" and "paired P (gob_closed c) (xs @ gob_out c)" and "P h b"
  shows "paired P (gob_closed c') (xs @ gob_out c')"
  by (rule wrote_stream [where Q = "paired P", OF assms(1,2)]) (auto intro!: paired_close paired_append assms(3))

lemma wrote_more:
  assumes "wrote h b c c'"
  shows "gob_in c' = gob_in c" and "\<exists>ys. gob_out c' = gob_out c @ ys" and "gob_closed c \<Longrightarrow> gob_closed c'"
  using assms by (cases rule: wrote_cases; simp)+

section \<open>The invariant\<close>

text \<open>
  \<open>f\<close> gives the sequence numbers of the calls.  What travels to the server are requests of registered
  calls, and what travels to the client are answers to them, which are right if they are without error.
\<close>

definition asks :: "('b, 'a) rpc_setup \<Rightarrow> (call_no \<Rightarrow> uint64) \<Rightarrow> Header \<Rightarrow> 'b \<Rightarrow> bool" where
  "asks u f h b \<longleftrightarrow> (\<exists>k. f k \<noteq> 0 \<and> h = request_header (su_method u k) (f k) \<and> b = su_args u k)"

definition replies :: "('b, 'a) rpc_setup \<Rightarrow> (call_no \<Rightarrow> uint64) \<Rightarrow> Header \<Rightarrow> 'b \<Rightarrow> bool" where
  "replies u f h b \<longleftrightarrow> (\<exists>k. f k \<noteq> 0 \<and> Seq h = f k \<and> (h_Error h = [] \<longrightarrow> rpc_answer u k = ([], b)))"

text \<open>A server whose next message is a body that is no header will stop.\<close>

definition upstream_ok :: "('b, 'a) rpc_setup \<Rightarrow> (call_no \<Rightarrow> uint64) \<Rightarrow> ('b, 'a) rpc_system \<Rightarrow> bool" where
  "upstream_ok u f s \<longleftrightarrow>
     (sy_serving s \<longrightarrow>
        paired (asks u f) (gob_closed (sy_cc s)) (gob_in (sy_sc s) @ gob_out (sy_cc s)) \<or>
        (\<exists>b ms. gob_in (sy_sc s) @ gob_out (sy_cc s) = MBody b # ms \<and> su_as_header u b = None))"

fun downstream_ok ::
  "(Header \<Rightarrow> 'b \<Rightarrow> bool) \<Rightarrow> receiver \<Rightarrow> bool \<Rightarrow> 'b message list \<Rightarrow> bool" where
  "downstream_ok P AtHeader closed ms = paired P closed ms"
| "downstream_ok P (AtBody q herr k) closed [] = closed"
| "downstream_ok P (AtBody q herr k) closed (MBody b # ms) =
     ((\<exists>h. Seq h = q \<and> h_Error h = herr \<and> P h b) \<and> paired P closed ms)"
| "downstream_ok P (AtBody q herr k) closed (MHeader h # ms) = False"
| "downstream_ok P (Failed err) closed ms = True"
| "downstream_ok P Stopped closed ms = True"

definition work_ok ::
  "('b, 'a) rpc_setup \<Rightarrow> (call_no \<Rightarrow> uint64) \<Rightarrow> Header \<times> ('b, 'a) methodType \<times> 'a \<times> 'b handling \<Rightarrow> bool" where
  "work_ok u f = (\<lambda>(h, m, arg, w). \<exists>k svc. f k \<noteq> 0 \<and> h = request_header (su_method u k) (f k) \<and>
     findService (su_method u k) (su_server u) = Inr (svc, m) \<and> mt_decode m (MBody (su_args u k)) = Inr arg \<and>
     (\<forall>res. hr_worker w = At_called res \<or> hr_worker w = Sending_answer res \<longrightarrow> res = fst (service_call m arg)))"

definition received_ok :: "('b, 'a) rpc_setup \<Rightarrow> (call_no \<Rightarrow> uint64) \<Rightarrow> (uint64 \<times> 'b) list \<Rightarrow> bool" where
  "received_ok u f rs \<longleftrightarrow>
     (\<forall>(q, r) \<in> set rs. \<exists>k b. f k = q \<and> q \<noteq> 0 \<and> rpc_answer u k = ([], b) \<and> su_read u (MBody b) = Inr r)"

definition sys_inv :: "('b, 'a) rpc_setup \<Rightarrow> (call_no \<Rightarrow> uint64) \<Rightarrow> ('b, 'a) rpc_system \<Rightarrow> bool" where
  "sys_inv u f s \<longleftrightarrow>
     upstream_ok u f s \<and>
     downstream_ok (replies u f) (cl_receiver (sy_client s)) (gob_closed (sy_sc s))
       (gob_in (sy_cc s) @ gob_out (sy_sc s)) \<and>
     (\<forall>h. sy_refusal s = Some h \<longrightarrow> replies u f h (su_invalid u)) \<and>
     (\<forall>x \<in> set (sy_work s). work_ok u f x) \<and>
     received_ok u f (cl_received (sy_client s))"

lemma sys_invD:
  assumes "sys_inv u f s"
  shows "upstream_ok u f s"
    and "downstream_ok (replies u f) (cl_receiver (sy_client s)) (gob_closed (sy_sc s)) (gob_in (sy_cc s) @ gob_out (sy_sc s))"
    and "sy_refusal s = Some h \<Longrightarrow> replies u f h (su_invalid u)"
    and "x \<in> set (sy_work s) \<Longrightarrow> work_ok u f x"
    and "received_ok u f (cl_received (sy_client s))"
  using assms by (simp_all add: sys_inv_def)

text \<open>Numbers that are given stay; so does all that is said about the streams.\<close>

definition later :: "(call_no \<Rightarrow> uint64) \<Rightarrow> (call_no \<Rightarrow> uint64) \<Rightarrow> bool" where
  "later f g \<longleftrightarrow> (\<forall>k. f k \<noteq> 0 \<longrightarrow> g k = f k)"

lemma asks_later: "later f g \<Longrightarrow> asks u f h b \<Longrightarrow> asks u g h b"
  unfolding asks_def later_def by metis

lemma replies_later: "later f g \<Longrightarrow> replies u f h b \<Longrightarrow> replies u g h b"
  unfolding replies_def later_def by metis

lemma work_later: "later f g \<Longrightarrow> work_ok u f x \<Longrightarrow> work_ok u g x"
  unfolding work_ok_def later_def by (cases x) (simp, metis)

lemma downstream_mono:
  assumes "downstream_ok P r closed ms" and "\<And>h b. P h b \<Longrightarrow> Q h b"
  shows "downstream_ok Q r closed ms"
proof -
  have "paired P closed ms \<Longrightarrow> paired Q closed ms" for closed ms by (rule paired_mono [OF assms(2)])
  with assms show ?thesis by (cases "(P, r, closed, ms)" rule: downstream_ok.cases) auto
qed

lemma sys_inv_later:
  assumes "sys_inv u f s" and "later f g"
  shows "sys_inv u g s"
proof -
  have received: "received_ok u g (cl_received (sy_client s))"
    unfolding received_ok_def
  proof clarify
    fix q r assume "(q, r) \<in> set (cl_received (sy_client s))"
    with sys_invD(5) [OF assms(1)] obtain k b
      where "f k = q" "q \<noteq> 0" "rpc_answer u k = ([], b)" "su_read u (MBody b) = Inr r"
      unfolding received_ok_def by blast
    moreover have "g k = f k" using calculation(1,2) assms(2) unfolding later_def by blast
    ultimately show "\<exists>k b. g k = q \<and> q \<noteq> 0 \<and> rpc_answer u k = ([], b) \<and> su_read u (MBody b) = Inr r" by auto
  qed
  have "paired (asks u f) closed ms \<Longrightarrow> paired (asks u g) closed ms" for closed ms
    by (rule paired_mono [OF asks_later [OF assms(2)]])
  then have up: "upstream_ok u g s" using sys_invD(1) [OF assms(1)] unfolding upstream_ok_def by blast
  have down: "downstream_ok (replies u g) (cl_receiver (sy_client s)) (gob_closed (sy_sc s))
      (gob_in (sy_cc s) @ gob_out (sy_sc s))"
    by (rule downstream_mono [OF sys_invD(2) [OF assms(1)] replies_later [OF assms(2)]])
  from received up down sys_invD(3,4) [OF assms(1)] show ?thesis
    unfolding sys_inv_def by (simp add: replies_later [OF assms(2)] work_later [OF assms(2)])
qed

text \<open>Only a call that has no number yet is given one.\<close>

lemma rpc_step_later:
  assumes "rpc_step errorf c c'" and "rpc_inv c"
  shows "later (seqs c) (seqs c')"
  using assms
proof (induction rule: rpc_step.induct)
  case (begin_send c k)
  have "call_Seq (cl_calls c k) = 0"
    using rpc_invD(1) [OF begin_send.prems, of k] begin_send.hyps by (simp add: ok_defs)
  then show ?case by (auto simp: later_def send_begin_def registerCall_def call_done_def Let_def)
next
  case (end_send c k q res)
  then show ?case
    by (cases res; cases "cl_pending c q") (simp_all add: later_def send_end_def removeCall_def call_done_def Let_def)
next
  case (body c q herr k res)
  then show ?case
    by (cases k; cases res) (simp_all add: later_def recv_body_def call_done_def Let_def)
qed (simp_all add: later_def rpc_upd_defs client_Close_def)

section \<open>Steps keep the invariant\<close>

lemma keep_client:
  assumes "sys_inv u f s" and "cl_received c = cl_received (sy_client s)"
    and "cl_receiver c = cl_receiver (sy_client s) \<or> cl_receiver c = Stopped \<or> (\<exists>err. cl_receiver c = Failed err)"
  shows "sys_inv u f (s\<lparr>sy_client := c\<rparr>)"
  using assms(1,2) assms(3) by (auto simp: sys_inv_def upstream_ok_def)

lemma client_same [simp]:
  "cl_receiver (send_begin k c) = cl_receiver c" "cl_received (send_begin k c) = cl_received c"
  "cl_receiver (send_end k q res c) = cl_receiver c" "cl_received (send_end k q res c) = cl_received c"
  "cl_receiver (snd (client_Close closed c)) = cl_receiver c" "cl_received (snd (client_Close closed c)) = cl_received c"
  "cl_receiver (snd (removeCall q c)) = cl_receiver c" "cl_received (snd (removeCall q c)) = cl_received c"
  "cl_received (terminateCalls err c) = cl_received c"
  by (simp_all add: rpc_defs split: option.splits)

lemma keep_write:
  assumes "sys_inv u f s" and "wrote (request_header (su_method u k) (f k)) (su_args u k) (sy_cc s) cc" and "f k \<noteq> 0"
  shows "sys_inv u f (s\<lparr>sy_cc := cc\<rparr>)"
proof -
  have asks: "asks u f (request_header (su_method u k) (f k)) (su_args u k)" using assms(3) by (auto simp: asks_def)
  have pairs: "paired (asks u f) (gob_closed (sy_cc s)) (gob_in (sy_sc s) @ gob_out (sy_cc s)) \<Longrightarrow>
      paired (asks u f) (gob_closed cc) (gob_in (sy_sc s) @ gob_out cc)"
    by (rule wrote_paired [where P = "asks u f", OF assms(2) _ asks])
  obtain ys where cc: "gob_in cc = gob_in (sy_cc s)" "gob_out cc = gob_out (sy_cc s) @ ys"
    using wrote_more [OF assms(2)] by blast
  have "gob_in (sy_sc s) @ gob_out cc = MBody b # ms @ ys" if "gob_in (sy_sc s) @ gob_out (sy_cc s) = MBody b # ms" for b ms
    using that by (simp add: cc(2) flip: append_assoc)
  with sys_invD(1) [OF assms(1)] pairs have "upstream_ok u f (s\<lparr>sy_cc := cc\<rparr>)"
    by (auto simp: upstream_ok_def)
  with assms(1) cc(1) show ?thesis by (simp add: sys_inv_def)
qed

lemma downstream_close: "downstream_ok P r closed ms \<Longrightarrow> downstream_ok P r True ms"
  by (cases "(P, r, closed, ms)" rule: downstream_ok.cases) (auto intro: paired_close)

lemma keep_close:
  assumes "sys_inv u f s"
  shows "sys_inv u f (s\<lparr>sy_cc := (sy_cc s)\<lparr>gob_closed := True\<rparr>\<rparr>)"
    and "sys_inv u f (s\<lparr>sy_sc := (sy_sc s)\<lparr>gob_closed := True\<rparr>\<rparr>)"
  using assms by (auto simp: sys_inv_def upstream_ok_def intro: paired_close downstream_close)

lemma keep_header:
  assumes "sys_inv u f s" and "cl_receiver (sy_client s) = AtHeader"
    and "codec_ReadHeader (su_as_header u) (sy_cc s) = (Inr h, cc)"
  shows "sys_inv u f (s\<lparr>sy_client := recv_header (Seq h) (h_Error h) (sy_client s), sy_cc := cc\<rparr>)"
proof -
  have p: "paired (replies u f) (gob_closed (sy_sc s)) (gob_in (sy_cc s) @ gob_out (sy_sc s))"
    using sys_invD(2) [OF assms(1)] assms(2) by simp
  then obtain rest where cc: "gob_in (sy_cc s) = MHeader h # rest" "cc = (sy_cc s)\<lparr>gob_in := rest\<rparr>"
    using assms(3) by (auto simp: codec_ReadHeader_def split: list.splits message.splits)
  have "downstream_ok (replies u f) (AtBody (Seq h) (h_Error h) k) (gob_closed (sy_sc s)) (rest @ gob_out (sy_sc s))" for k
    using p cc(1) by (cases "rest @ gob_out (sy_sc s)"; cases "hd (rest @ gob_out (sy_sc s))") auto
  with assms(1) cc(2) show ?thesis
    by (auto simp: sys_inv_def upstream_ok_def recv_header_def removeCall_def)
qed

lemma keep_body:
  assumes "sys_inv u f s" and "cl_receiver (sy_client s) = AtBody q herr k"
    and dec: "k = None \<or> herr \<noteq> [] \<or> dec = su_read u" and "codec_ReadBody dec (sy_cc s) = (res, cc)"
  shows "sys_inv u f (s\<lparr>sy_client := recv_body (su_errorf u) q herr k res (sy_client s), sy_cc := cc\<rparr>)"
proof -
  let ?c = "recv_body (su_errorf u) q herr k res (sy_client s)"
  have receiver: "cl_receiver ?c = (case res of Inl err \<Rightarrow> Failed err | Inr _ \<Rightarrow> AtHeader)"
    by (simp add: recv_body_def Let_def)
  have same: "gob_out cc = gob_out (sy_cc s)" "gob_closed cc = gob_closed (sy_cc s)"
    using assms(4) by (auto simp: codec_ReadBody_def split: list.splits)
  have down: "downstream_ok (replies u f) (AtBody q herr k) (gob_closed (sy_sc s)) (gob_in (sy_cc s) @ gob_out (sy_sc s))"
    using sys_invD(2) [OF assms(1)] assms(2) by simp
  have next_ok: "downstream_ok (replies u f) (cl_receiver ?c) (gob_closed (sy_sc s)) (gob_in cc @ gob_out (sy_sc s))"
    and body: "\<And>r. res = Inr r \<Longrightarrow> \<exists>h b. Seq h = q \<and> h_Error h = herr \<and> replies u f h b \<and> dec (MBody b) = Inr r"
    using down assms(4) receiver
    by (cases "gob_in (sy_cc s)"; cases "hd (gob_in (sy_cc s))"; cases res; auto simp: codec_ReadBody_def)+
  have "received_ok u f (cl_received ?c)"
  proof (cases "\<exists>y r. k = Some y \<and> herr = [] \<and> res = Inr r")
    case True
    then obtain y r where y: "k = Some y" "herr = []" "res = Inr r" by blast
    with body obtain h b where h: "Seq h = q" "h_Error h = []" "replies u f h b" "dec (MBody b) = Inr r" by blast
    have "cl_received ?c = (q, r) # cl_received (sy_client s)"
      using y by (simp add: recv_body_def call_done_def)
    moreover have "dec = su_read u" using dec y by simp
    ultimately show ?thesis
      using h sys_invD(5) [OF assms(1)] by (auto simp: received_ok_def replies_def)
  next
    case False
    then have "cl_received ?c = cl_received (sy_client s)"
      by (cases k; cases res) (auto simp: recv_body_def call_done_def)
    then show ?thesis using sys_invD(5) [OF assms(1)] by simp
  qed
  with assms(1) next_ok same show ?thesis by (auto simp: sys_inv_def upstream_ok_def)
qed

lemma keep_body_error:
  assumes "sys_inv u f s" and "cl_receiver (sy_client s) = AtBody q herr k"
  shows "sys_inv u f (s\<lparr>sy_client := recv_body (su_errorf u) q herr k (Inl err) (sy_client s)\<rparr>)"
  by (rule keep_client [OF assms(1)]) (cases k; simp add: recv_body_def call_done_def Let_def)+

text \<open>What the server makes of the next message: a request of a registered call.\<close>

definition read_ok :: "('b, 'a) rpc_setup \<Rightarrow> (call_no \<Rightarrow> uint64) \<Rightarrow> Header \<Rightarrow> error + (('b, 'a) methodType \<times> 'a) \<Rightarrow> bool" where
  "read_ok u f h r \<longleftrightarrow> (\<exists>k. f k \<noteq> 0 \<and> h = request_header (su_method u k) (f k) \<and>
     (case r of
        Inl err \<Rightarrow> err = [] \<longrightarrow> rpc_answer u k = (err, su_invalid u)
      | Inr (m, arg) \<Rightarrow> \<exists>svc. findService (su_method u k) (su_server u) = Inr (svc, m) \<and>
          mt_decode m (MBody (su_args u k)) = Inr arg))"

lemma server_read:
  assumes inv: "sys_inv u f s" and "sy_serving s" and no_header: "\<And>k. su_as_header u (su_args u k) = None"
    and read: "readRequest (su_as_header u) (su_server u) (sy_sc s) = (Returns (Some (h, r)), sc)"
  shows "read_ok u f h r \<and> upstream_ok u f (s\<lparr>sy_sc := sc\<rparr>) \<and> gob_out sc = gob_out (sy_sc s) \<and>
    gob_closed sc = gob_closed (sy_sc s)"
proof -
  let ?out = "gob_out (sy_cc s)"
  obtain m0 rest where m0: "gob_in (sy_sc s) = m0 # rest"
    using read by (cases "gob_in (sy_sc s)") (auto simp: readRequest_def codec_ReadHeader_def)
  have up: "paired (asks u f) (gob_closed (sy_cc s)) (m0 # rest @ ?out) \<or> (\<exists>b. m0 = MBody b \<and> su_as_header u b = None)"
    using sys_invD(1) [OF inv] assms(2) m0 by (auto simp: upstream_ok_def)
  then obtain h0 where h0: "m0 = MHeader h0"
    using read m0 by (cases m0) (auto simp: readRequest_def codec_ReadHeader_def)
  with up have paired: "paired (asks u f) (gob_closed (sy_cc s)) (MHeader h0 # rest @ ?out)" by simp
  then obtain k where k: "f k \<noteq> 0" "h0 = request_header (su_method u k) (f k)"
    by (cases "rest @ ?out"; cases "hd (rest @ ?out)") (auto simp: asks_def)
  let ?sc1 = "(sy_sc s)\<lparr>gob_in := rest\<rparr>"
  have behind_header: "upstream_ok u f (s\<lparr>sy_sc := ?sc1\<rparr>)"
    using paired no_header by (cases "rest @ ?out"; cases "hd (rest @ ?out)") (auto simp: upstream_ok_def asks_def)
  show ?thesis
  proof (cases "findService (su_method u k) (su_server u)")
    case (Inl err)
    then have "h = h0" "r = Inl err" "sc = ?sc1"
      using read m0 h0 k by (auto simp: readRequest_def codec_ReadHeader_def request_header_def)
    moreover have "rpc_answer u k = (err, su_invalid u)" using Inl by (simp add: rpc_answer_def)
    ultimately show ?thesis using k behind_header by (auto simp: read_ok_def)
  next
    case (Inr svc_m)
    then obtain svc m where m: "findService (su_method u k) (su_server u) = Inr (svc, m)" by (cases svc_m) auto
    show ?thesis
    proof (cases rest)
      case Nil
      then have "h = h0" "r = Inl ''EOF''" "sc = ?sc1"
        using read m0 h0 k m by (auto simp: readRequest_def codec_ReadHeader_def codec_ReadBody_def request_header_def)
      then show ?thesis using k behind_header by (auto simp: read_ok_def)
    next
      case (Cons m1 rest1)
      with paired obtain b where b: "m1 = MBody b" "asks u f h0 b" "paired (asks u f) (gob_closed (sy_cc s)) (rest1 @ ?out)"
        by (cases m1) auto
      from b(2) obtain k' where k': "f k' \<noteq> 0" "h0 = request_header (su_method u k') (f k')" "b = su_args u k'"
        by (auto simp: asks_def)
      have same: "su_method u k' = su_method u k" using k(2) k'(2) by (simp add: request_header_def)
      have sc: "h = h0" "sc = (sy_sc s)\<lparr>gob_in := rest1\<rparr>"
        "r = (case mt_decode m (MBody b) of Inl err \<Rightarrow> Inl err | Inr arg \<Rightarrow> Inr (m, arg))"
        using read m0 h0 k m Cons b
        by (auto simp: readRequest_def codec_ReadHeader_def codec_ReadBody_def request_header_def split: sum.splits)
      have "read_ok u f h r"
        using k' m same sc unfolding read_ok_def
        by (intro exI [of _ k']) (auto simp: rpc_answer_def split: sum.split)
      with b(3) sc(2) show ?thesis by (simp add: upstream_ok_def)
    qed
  qed
qed

lemma keep_server_reads:
  assumes "sys_inv u f s" and "sy_serving s" and "\<And>k. su_as_header u (su_args u k) = None"
    and "readRequest (su_as_header u) (su_server u) (sy_sc s) = (Returns (Some (h, Inr (m, arg))), sc)"
  shows "sys_inv u f (s\<lparr>sy_sc := sc, sy_work := sy_work s @ [(h, m, arg, handle_start)]\<rparr>)"
proof -
  note r = server_read [OF assms]
  then have "work_ok u f (h, m, arg, handle_start)"
    unfolding read_ok_def work_ok_def by (auto simp: handle_start_def)
  with r have "work_ok u f (h, m, arg, handle_start)" "upstream_ok u f (s\<lparr>sy_sc := sc\<rparr>)"
    "gob_out sc = gob_out (sy_sc s)" "gob_closed sc = gob_closed (sy_sc s)" by simp_all
  with assms(1) show ?thesis by (auto simp: sys_inv_def upstream_ok_def)
qed

lemma keep_server_refuses:
  assumes "sys_inv u f s" and "sy_serving s" and "\<And>k. su_as_header u (su_args u k) = None"
    and "readRequest (su_as_header u) (su_server u) (sy_sc s) = (Returns (Some (h, Inl err)), sc)"
  shows "sys_inv u f (s\<lparr>sy_sc := sc, sy_refusal := Some (answer_header h (Inl err :: error + 'b))\<rparr>)"
proof -
  note r = server_read [OF assms]
  then have "replies u f (answer_header h (Inl err :: error + 'b)) (su_invalid u)"
    unfolding read_ok_def replies_def by (auto simp: answer_header_def request_header_def)
  with r have "replies u f (answer_header h (Inl err :: error + 'b)) (su_invalid u)" "upstream_ok u f (s\<lparr>sy_sc := sc\<rparr>)"
    "gob_out sc = gob_out (sy_sc s)" "gob_closed sc = gob_closed (sy_sc s)" by simp_all
  with assms(1) show ?thesis by (auto simp: sys_inv_def upstream_ok_def)
qed

lemma keep_server_stops:
  assumes "sys_inv u f s" and "readRequest (su_as_header u) (su_server u) (sy_sc s) = (Returns None, sc)"
  shows "sys_inv u f (s\<lparr>sy_sc := sc, sy_serving := False\<rparr>)"
proof -
  have "gob_out sc = gob_out (sy_sc s)" "gob_closed sc = gob_closed (sy_sc s)"
    using assms(2) by (auto simp: readRequest_def codec_ReadHeader_def codec_ReadBody_def
        split: list.splits message.splits sum.splits option.splits prod.splits)
  with assms(1) show ?thesis by (auto simp: sys_inv_def upstream_ok_def)
qed

text \<open>An answer that is right may be written at any time.\<close>

lemma downstream_append:
  "downstream_ok P r False xs \<Longrightarrow> paired P closed ys \<Longrightarrow> downstream_ok P r closed (xs @ ys)"
  by (cases "(P, r, False, xs)" rule: downstream_ok.cases) (auto intro: paired_append)

lemma downstream_wrote:
  assumes "downstream_ok P r (gob_closed c) (xs @ gob_out c)" and "wrote h b c c'" and "P h b"
  shows "downstream_ok P r (gob_closed c') (xs @ gob_out c')"
  by (rule wrote_stream [where Q = "downstream_ok P r", OF assms(2,1)])
    (auto intro: downstream_close intro!: downstream_append assms(3))

lemma keep_answer:
  assumes "sys_inv u f s" and "wrote h b (sy_sc s) sc" and "replies u f h b"
  shows "sys_inv u f (s\<lparr>sy_sc := sc\<rparr>)"
proof -
  have "downstream_ok (replies u f) (cl_receiver (sy_client s)) (gob_closed sc) (gob_in (sy_cc s) @ gob_out sc)"
    by (rule downstream_wrote [where P = "replies u f", OF sys_invD(2) [OF assms(1)] assms(2,3)])
  with assms(1) wrote_more(1) [OF assms(2)] show ?thesis by (simp add: sys_inv_def upstream_ok_def)
qed

lemma keep_work:
  assumes "sys_inv u f s" and "work_ok u f x"
  shows "sys_inv u f (s\<lparr>sy_work := (sy_work s)[i := x]\<rparr>)"
  using assms set_update_subset_insert [of "sy_work s" i x] by (auto simp: sys_inv_def upstream_ok_def)

lemma work_step:
  assumes "work_ok u f (h, m, arg, w)" and "handle_step limited limit w w'"
    and "hr_worker w \<noteq> Calling \<or> hr_worker w' \<in> {Calling, At_called (fst (service_call m arg))}"
  shows "work_ok u f (h, m, arg, w')"
  using assms(2,1,3) unfolding work_ok_def by (induction rule: handle_step.induct) auto

text \<open>An answer of a request at work is the result of its method, or the error of the time limit.\<close>

lemma work_answer:
  assumes "work_ok u f (h, m, arg, w)" and "handle_step limited limit w w'" and "hr_sent w' = hr_sent w @ [res]"
  shows "replies u f (answer_header h res) (answer_body (su_invalid u) res) \<and> work_ok u f (h, m, arg, w')"
proof -
  from assms(1) obtain k svc where k: "f k \<noteq> 0" "h = request_header (su_method u k) (f k)"
    "findService (su_method u k) (su_server u) = Inr (svc, m)" "mt_decode m (MBody (su_args u k)) = Inr arg"
    "\<And>res. hr_worker w = At_called res \<or> hr_worker w = Sending_answer res \<Longrightarrow> res = fst (service_call m arg)"
    by (auto simp: work_ok_def)
  have "(hr_worker w = Sending_answer res \<and> hr_worker w' = At_sent) \<or>
      (res = Inl (timeout_error limit) \<and> hr_worker w' = hr_worker w)"
    using assms(2,3) by (induction rule: handle_step.induct) auto
  then show ?thesis
  proof
    assume w: "hr_worker w = Sending_answer res \<and> hr_worker w' = At_sent"
    then have "res = fst (service_call m arg)" using k(5) by blast
    then have "replies u f (answer_header h res) (answer_body (su_invalid u) res)"
      using k(1-4) unfolding replies_def
      by (intro exI [of _ k])
        (auto simp: rpc_answer_def answer_header_def answer_body_def request_header_def split: sum.split)
    with w k show ?thesis by (auto simp: work_ok_def)
  next
    assume w: "res = Inl (timeout_error limit) \<and> hr_worker w' = hr_worker w"
    then have "replies u f (answer_header h res) (answer_body (su_invalid u) res)"
      using k(1,2) by (auto simp: replies_def answer_header_def request_header_def timeout_error_def)
    with w k show ?thesis by (auto simp: work_ok_def)
  qed
qed

lemma sys_inv_step:
  assumes "sys_step u s t" and "sys_inv u (seqs (sy_client t)) s" and "rpc_inv (sy_client s)"
    and no_header: "\<And>k. su_as_header u (su_args u k) = None"
  shows "sys_inv u (seqs (sy_client t)) t"
  using assms(1-3)
proof (induction rule: sys_step.induct)
  case (caller_writes s k q cc res)
  let ?c = "send_end k q res (sy_client s)"
  have "call_Seq (cl_calls (sy_client s) k) = q" "q \<noteq> 0"
    using rpc_invD(1) [OF caller_writes.prems(2), of k] caller_writes.hyps(1) by (auto simp: ok_defs)
  moreover have "call_Seq (cl_calls ?c k) = call_Seq (cl_calls (sy_client s) k)"
    by (simp add: rpc_defs split: option.split)
  ultimately have q: "seqs ?c k = q" "seqs ?c k \<noteq> 0" by simp_all
  have client: "sys_inv u (seqs ?c) (s\<lparr>sy_client := ?c\<rparr>)"
    using keep_client [of u _ s ?c] caller_writes.prems(1) by simp
  show ?case
    using keep_write [OF client, of k cc] caller_writes.hyps(2) q by simp
next
  case (client_closes s closed)
  from keep_close(1) [OF keep_client [OF client_closes.prems(1), of "snd (client_Close closed (sy_client s))"]]
  show ?case by (simp add: codec_Close_def)
next
  case (receive_header s h cc)
  then show ?case using keep_header by (simp, blast)
next
  case (receive_body s q herr k dec res cc)
  then show ?case using keep_body [of u _ s q herr k dec res cc] by simp
next
  case (body_fails s q herr k err)
  then show ?case using keep_body_error [of u _ s q herr k err] by simp
next
  case (breaks s)
  then show ?case using keep_close(2) [OF keep_close(1)] by fastforce
next
  case (server_reads s h m arg sc)
  then show ?case using keep_server_reads [OF _ _ no_header] by simp
next
  case (server_refuses s h err sc)
  then show ?case using keep_server_refuses [OF _ _ no_header] by simp
next
  case (refusal_sent s h sc)
  then have "sys_inv u (seqs (sy_client s)) (s\<lparr>sy_sc := sc\<rparr>)"
    using keep_answer sys_invD(3) by fastforce
  then show ?case by (simp add: sys_inv_def upstream_ok_def)
next
  case (server_stops s sc)
  then show ?case using keep_server_stops by simp
next
  case (server_crashes s e sc)
  then show ?case by (auto simp: sys_inv_def upstream_ok_def intro: downstream_close)
next
  case (server_closes s)
  then show ?case using keep_close(2) by simp
next
  case (request_works i s h m arg w w')
  then have "work_ok u (seqs (sy_client s)) (h, m, arg, w)" using sys_invD(4) by (fastforce dest: nth_mem)
  from work_step [OF this request_works.hyps(3,5)] keep_work request_works.prems(1) show ?case by simp
next
  case (request_answers i s h m arg w w' res sc)
  then have "work_ok u (seqs (sy_client s)) (h, m, arg, w)" using sys_invD(4) by (fastforce dest: nth_mem)
  from work_answer [OF this request_answers.hyps(3,4)] keep_work keep_answer request_answers show ?case by fastforce
qed (use keep_client in \<open>simp_all add: sys_inv_def upstream_ok_def\<close>)

lemma sys_reachable_inv:
  assumes "sys_reachable u s" and "cl_registered (sy_client s) < 2 ^ 64"
    and "\<And>k. su_as_header u (su_args u k) = None"
  shows "sys_inv u (seqs (sy_client s)) s"
  using assms(1,2)
proof (induction rule: sys_reachable.induct)
  case start
  show ?case
    by (simp add: sys_inv_def sys_start_def upstream_ok_def NewGobCodec_def newClientCodec_def received_ok_def)
next
  case (step s t)
  have fewer: "cl_registered (sy_client s) \<le> cl_registered (sy_client t)"
    using sys_step_client [OF step.hyps(2)] registered_mono by (auto simp: eq_commute)
  then have inv: "rpc_inv (sy_client s)"
    using rpc_reachable_inv [OF sys_client_reachable [OF step.hyps(1)] rpc_inv_init] step.prems by simp
  have "later (seqs (sy_client s)) (seqs (sy_client t))"
    using sys_step_client [OF step.hyps(2)] rpc_step_later [OF _ inv] by (auto simp: later_def)
  from sys_inv_step [OF step.hyps(2) sys_inv_later [OF step.IH this] inv assms(3)] fewer step.prems
  show ?case by simp
qed

section \<open>Remote calls\<close>

lemma remote_call_result:
  assumes "sys_reachable u s" and "cl_registered (sy_client s) < 2 ^ 64"
    and "\<And>k. su_as_header u (su_args u k) = None" and "cl_phase (sy_client s) k = Returned None"
  obtains b r where "rpc_answer u k = ([], b)" and "su_read u (MBody b) = Inr r"
    and "call_Reply (cl_calls (sy_client s) k) = Some r"
proof -
  have inv: "rpc_inv (sy_client s)"
    by (rule rpc_reachable_inv [OF sys_client_reachable [OF assms(1)] rpc_inv_init assms(2)])
  from rpc_invD(1) [OF this, of k] assms(4) obtain r where
    r: "call_Reply (cl_calls (sy_client s) k) = Some r" "(seqs (sy_client s) k, r) \<in> set (cl_received (sy_client s))"
    by (auto simp: ok_defs)
  have "received_ok u (seqs (sy_client s)) (cl_received (sy_client s))"
    by (rule sys_invD(5) [OF sys_reachable_inv [OF assms(1-3)]])
  with r(2) obtain k' b where b: "seqs (sy_client s) k' = seqs (sy_client s) k" "seqs (sy_client s) k \<noteq> 0"
    "rpc_answer u k' = ([], b)" "su_read u (MBody b) = Inr r"
    unfolding received_ok_def by blast
  have "k' = k" using rpc_invD(4) [OF inv] b(1,2) unfolding numbers_ok_def by metis
  with b r(1) that show ?thesis by blast
qed

text \<open>
  C2: a remote call that returns without an error has done what a local call would do: its reply is what
  the reply type makes of the result that the method registered under the name of the call gives for the
  decoded argument of this very call, for any number of calls at once, in whatever order requests, answers,
  time limits, givings-up and failures of the connection come.
\<close>

theorem remote_call_is_local_call:
  assumes "sys_reachable u s" and "cl_registered (sy_client s) < 2 ^ 64"
    and "\<And>k. su_as_header u (su_args u k) = None" and "cl_phase (sy_client s) k = Returned None"
  shows "\<exists>b r. rpc_answer u k = ([], b) \<and> su_read u (MBody b) = Inr r \<and>
    call_Reply (cl_calls (sy_client s) k) = Some r"
  using remote_call_result [OF assms] by blast

lemma wroteI: "\<not> gob_closed c \<Longrightarrow> wrote h b c (c\<lparr>gob_out := gob_out c @ [MHeader h, MBody b]\<rparr>)"
  using codec_Write_out [of h b c] by (auto simp: wrote_def)

definition sys_at ::
  "'b rpc_client \<Rightarrow> 'b message list \<Rightarrow> 'b message list \<Rightarrow> 'b message list \<Rightarrow> 'b message list \<Rightarrow>
   (Header \<times> ('b, 'a) methodType \<times> 'a \<times> 'b handling) list \<Rightarrow> ('b, 'a) rpc_system" where
  "sys_at c cin cout sin sout work =
     \<lparr>sy_client = c, sy_cc = \<lparr>gob_in = cin, gob_out = cout, gob_closed = False\<rparr>,
      sy_sc = \<lparr>gob_in = sin, gob_out = sout, gob_closed = False\<rparr>, sy_serving = True, sy_refusal = None,
      sy_work = work\<rparr>"

text \<open>One call of a method that succeeds, from its beginning to its end.\<close>

lemma one_call_runs:
  fixes u :: "('b, 'a) rpc_setup" and b r :: 'b
  assumes found: "findService (su_method u 0) (su_server u) = Inr (svc, m)" and "allocates m"
    and decode: "mt_decode m (MBody (su_args u 0)) = Inr arg" and func: "mt_func m arg = Inr b"
    and reads: "su_read u (MBody b) = Inr r"
  defines "c1 \<equiv> send_begin 0 (set_phase 0 Sending newClientCodec) :: 'b rpc_client"
  defines "c2 \<equiv> send_end 0 1 None c1"
  defines "c3 \<equiv> recv_header 1 [] c2"
  defines "c4 \<equiv> recv_body (su_errorf u) 1 [] (Some 0) (Inr r) c3"
  defines "h \<equiv> request_header (su_method u 0) 1"
  shows "sys_reachable u (sys_at (set_phase 0 (Returned None) c4) [] [] [] []
    [(h, m, arg, \<lparr>hr_worker = At_sent, hr_waiter = At_sent_wait, hr_sent = [Inr b]\<rparr>)])"
proof -
  note go = sys_reachable.step
  obtain argv replyv where alloc: "newArgv (mt_ArgType m) = Returns argv" "newReplyv (mt_ReplyType m) = Returns replyv"
    using assms(2) by (rule allocatesE)
  have c1: "cl_phase c1 0 = Writing 1" "cl_receiver c1 = AtHeader"
    by (simp_all add: c1_def example_defs)
  have c2: "cl_phase c2 0 = Waiting_done" "cl_receiver c2 = AtHeader" "cl_pending c2 1 = Some 0"
    by (simp_all add: c2_def c1_def example_defs)
  have c3: "cl_receiver c3 = AtBody 1 [] (Some 0)"
    using c2 by (simp add: c3_def recv_header_def removeCall_def)
  have "sys_step u sys_start (sys_at (set_phase 0 Sending newClientCodec) [] [] [] [] [])"
    using sys_step.caller_starts [of sys_start 0 u]
    by (simp add: sys_at_def sys_start_def NewGobCodec_def newClientCodec_def)
  note r = go [OF sys_reachable.start this]
  have "sys_step u (sys_at (set_phase 0 Sending newClientCodec) [] [] [] [] []) (sys_at c1 [] [] [] [] [])"
    using sys_step.caller_registers [of "sys_at (set_phase 0 Sending newClientCodec) [] [] [] [] []" 0 u]
    by (simp add: sys_at_def c1_def newClientCodec_def)
  note r = go [OF r this]
  let ?start = "\<lparr>hr_worker = Calling, hr_waiter = At_select, hr_sent = []\<rparr> :: 'b handling"
  let ?called = "\<lparr>hr_worker = At_called (Inr b), hr_waiter = At_select, hr_sent = []\<rparr>"
  let ?sending = "\<lparr>hr_worker = Sending_answer (Inr b), hr_waiter = At_sent_wait, hr_sent = []\<rparr>"
  let ?sent = "\<lparr>hr_worker = At_sent, hr_waiter = At_sent_wait, hr_sent = [Inr b]\<rparr>"
  have "sys_step u (sys_at c1 [] [] [] [] []) (sys_at c2 [] [MHeader h, MBody (su_args u 0)] [] [] [])"
    using sys_step.caller_writes [of "sys_at c1 [] [] [] [] []" 0 1 u _ None,
        OF _ wroteI [of "sy_cc (sys_at c1 [] [] [] [] [])"]]
    by (simp add: sys_at_def c1 h_def c2_def)
  note r = go [OF r this]
  have "sys_step u (sys_at c2 [] [MHeader h, MBody (su_args u 0)] [] [] []) (sys_at c2 [] [MBody (su_args u 0)] [MHeader h] [] [])"
    using sys_step.to_server [of "sys_at c2 [] [MHeader h, MBody (su_args u 0)] [] [] []" _ _ u] by (simp add: sys_at_def)
  note r = go [OF r this]
  have "sys_step u (sys_at c2 [] [MBody (su_args u 0)] [MHeader h] [] []) (sys_at c2 [] [] [MHeader h, MBody (su_args u 0)] [] [])"
    using sys_step.to_server [of "sys_at c2 [] [MBody (su_args u 0)] [MHeader h] [] []" _ _ u] by (simp add: sys_at_def)
  note r = go [OF r this]
  have "sys_step u (sys_at c2 [] [] [MHeader h, MBody (su_args u 0)] [] []) (sys_at c2 [] [] [] [] [(h, m, arg, ?start)])"
    using sys_step.server_reads [of "sys_at c2 [] [] [MHeader h, MBody (su_args u 0)] [] []" u h m arg
        "\<lparr>gob_in = [], gob_out = [], gob_closed = False\<rparr>"] found
    by (simp add: sys_at_def readRequest_def codec_ReadHeader_def codec_ReadBody_def h_def request_header_def
        handle_start_def alloc decode)
  note r = go [OF r this]
  have "sys_step u (sys_at c2 [] [] [] [] [(h, m, arg, ?start)]) (sys_at c2 [] [] [] [] [(h, m, arg, ?called)])"
    using sys_step.request_works [of 0 "sys_at c2 [] [] [] [] [(h, m, arg, ?start)]" h m arg ?start u ?called]
      handle_step.call_returns [of ?start _ _ "Inr b"]
    by (simp add: sys_at_def service_call_def func)
  note r = go [OF r this]
  have "sys_step u (sys_at c2 [] [] [] [] [(h, m, arg, ?called)]) (sys_at c2 [] [] [] [] [(h, m, arg, ?sending)])"
    using sys_step.request_works [of 0 "sys_at c2 [] [] [] [] [(h, m, arg, ?called)]" h m arg ?called u ?sending]
      handle_step.meet_called [of ?called "Inr b"]
    by (simp add: sys_at_def)
  note r = go [OF r this]
  have "sys_step u (sys_at c2 [] [] [] [] [(h, m, arg, ?sending)])
      (sys_at c2 [] [] [] [MHeader h, MBody b] [(h, m, arg, ?sent)])"
    using sys_step.request_answers [of 0 "sys_at c2 [] [] [] [] [(h, m, arg, ?sending)]" h m arg ?sending u ?sent
        "Inr b", OF _ _ _ _ wroteI [of "sy_sc (sys_at c2 [] [] [] [] [(h, m, arg, ?sending)])"]]
      handle_step.answer [of ?sending "Inr b"]
    by (simp add: sys_at_def answer_header_def answer_body_def)
  note r = go [OF r this]
  have "sys_step u (sys_at c2 [] [] [] [MHeader h, MBody b] [(h, m, arg, ?sent)])
      (sys_at c2 [MHeader h] [] [] [MBody b] [(h, m, arg, ?sent)])"
    using sys_step.to_client [of "sys_at c2 [] [] [] [MHeader h, MBody b] [(h, m, arg, ?sent)]" _ _ u] by (simp add: sys_at_def)
  note r = go [OF r this]
  have "sys_step u (sys_at c2 [MHeader h] [] [] [MBody b] [(h, m, arg, ?sent)])
      (sys_at c2 [MHeader h, MBody b] [] [] [] [(h, m, arg, ?sent)])"
    using sys_step.to_client [of "sys_at c2 [MHeader h] [] [] [MBody b] [(h, m, arg, ?sent)]" _ _ u] by (simp add: sys_at_def)
  note r = go [OF r this]
  have "sys_step u (sys_at c2 [MHeader h, MBody b] [] [] [] [(h, m, arg, ?sent)])
      (sys_at c3 [MBody b] [] [] [] [(h, m, arg, ?sent)])"
    using sys_step.receive_header [of "sys_at c2 [MHeader h, MBody b] [] [] [] [(h, m, arg, ?sent)]" u h
        "\<lparr>gob_in = [MBody b], gob_out = [], gob_closed = False\<rparr>"]
    by (simp add: sys_at_def c2 codec_ReadHeader_def h_def request_header_def c3_def)
  note r = go [OF r this]
  have "sys_step u (sys_at c3 [MBody b] [] [] [] [(h, m, arg, ?sent)]) (sys_at c4 [] [] [] [] [(h, m, arg, ?sent)])"
    using sys_step.receive_body [of "sys_at c3 [MBody b] [] [] [] [(h, m, arg, ?sent)]" 1 "[]" "Some 0"
        "su_read u" u "Inr r" "\<lparr>gob_in = [], gob_out = [], gob_closed = False\<rparr>"]
    by (simp add: sys_at_def c3 codec_ReadBody_def reads c4_def)
  note r = go [OF r this]
  have c4: "cl_phase c4 0 = Waiting_done" "call_Done (cl_calls c4 0) = [None]"
    by (simp_all add: c4_def c3_def c2_def c1_def example_defs)
  have "sys_step u (sys_at c4 [] [] [] [] [(h, m, arg, ?sent)])
      (sys_at (set_phase 0 (Returned None) c4) [] [] [] [] [(h, m, arg, ?sent)])"
    using sys_step.caller_returns [of "sys_at c4 [] [] [] [] [(h, m, arg, ?sent)]" 0 None "[]" u]
    by (simp add: sys_at_def c4)
  from go [OF r this] show ?thesis .
qed

text \<open>A call of the method that adds a number to itself, over the whole connection.\<close>

definition foo_setup :: "(nat, nat) rpc_setup" where
  "foo_setup =
     \<lparr>su_server = foo_server, su_as_header = (\<lambda>_. None), su_invalid = 0, su_method = (\<lambda>_. ''Foo.Sum''),
      su_args = (\<lambda>_. 4), su_read = (\<lambda>m. case m of MBody b \<Rightarrow> Inr b | MHeader h \<Rightarrow> Inl ''type''),
      su_errorf = (\<lambda>e. e), su_limited = False, su_limit = []\<rparr>"

theorem remote_call_is_local_call_witness:
  "\<exists>s b r. sys_reachable foo_setup s \<and> cl_phase (sy_client s) 0 = Returned None \<and>
     rpc_answer foo_setup 0 = ([], b) \<and> su_read foo_setup (MBody b) = Inr r \<and>
     call_Reply (cl_calls (sy_client s) 0) = Some r \<and> r = 8"
proof -
  let ?c = "set_phase 0 (Returned None) (recv_body (\<lambda>e. e) 1 [] (Some 0) (Inr 8) (recv_header 1 []
    (send_end 0 1 None (send_begin 0 (set_phase 0 Sending newClientCodec))))) :: nat rpc_client"
  have "findService (su_method foo_setup 0) (su_server foo_setup) = Inr (foo_service, foo_impl ''Sum'')"
    using foo_found by (simp add: foo_setup_def)
  moreover have "mt_decode (foo_impl ''Sum'') (MBody (su_args foo_setup 0)) = Inr 4" "mt_func (foo_impl ''Sum'') 4 = Inr 8"
      "su_read foo_setup (MBody 8) = Inr 8" "su_errorf foo_setup = (\<lambda>e. e)"
    by (simp_all add: foo_setup_def foo_impl_def)
  ultimately obtain work where reach: "sys_reachable foo_setup (sys_at ?c [] [] [] [] work)"
    using one_call_runs [OF _ foo_allocates, of foo_setup foo_service "''Sum''" 4 8 8] by metis
  let ?s = "sys_at ?c [] [] [] [] work"
  have facts: "cl_registered (sy_client ?s) < 2 ^ 64" "su_as_header foo_setup (su_args foo_setup k) = None"
    "cl_phase (sy_client ?s) 0 = Returned None" "call_Reply (cl_calls (sy_client ?s) 0) = Some 8" for k
    by (simp_all add: sys_at_def foo_setup_def example_defs)
  obtain b r where "rpc_answer foo_setup 0 = ([], b)" "su_read foo_setup (MBody b) = Inr r"
    "call_Reply (cl_calls (sy_client ?s) 0) = Some r"
    using remote_call_is_local_call [OF reach facts(1-3)] by blast
  with reach facts(3,4) show ?thesis
    by (intro exI [of _ ?s] exI [of _ b] exI [of _ r]) auto
qed

end
