(* ===== verification/Registry.thy ===== *)
theory Registry
  imports Prelude
begin

text \<open>
  Package \<^verbatim>\<open>geerpc/registry\<close> (\<^verbatim>\<open>registry.go\<close>): servers announce themselves by heartbeats, clients
  ask for those whose last heartbeat is recent enough.  A time is a number of nanoseconds since
  the zero time of Go; the clock is read once per call here and given to it as \<open>now\<close>.  The map of
  servers is an association list with distinct keys, whose order never shows, because the answer
  is sorted.
\<close>

section \<open>The registry\<close>

record ServerItem =
  item_Addr :: string
  item_start :: int

record GeeRegistry =
  reg_timeout :: int
  reg_servers :: "(string \<times> ServerItem) list"

definition minute :: int where
  "minute = 60 * 1000000000"

definition defaultTimeout :: int where
  "defaultTimeout = 5 * minute"

definition registry_New :: "int \<Rightarrow> GeeRegistry" where
  "registry_New timeout = \<lparr>reg_timeout = timeout, reg_servers = []\<rparr>"

definition putServer :: "int \<Rightarrow> string \<Rightarrow> GeeRegistry \<Rightarrow> GeeRegistry" where
  "putServer now addr r =
     (case map_of (reg_servers r) addr of
        None \<Rightarrow>
          r\<lparr>reg_servers := reg_servers r @ [(addr, \<lparr>item_Addr = addr, item_start = now\<rparr>)]\<rparr>
      | Some s \<Rightarrow>
          r\<lparr>reg_servers := map (\<lambda>(k, it). if k = addr then (k, it\<lparr>item_start := now\<rparr>) else (k, it))
              (reg_servers r)\<rparr>)"

definition alive_item :: "int \<Rightarrow> int \<Rightarrow> ServerItem \<Rightarrow> bool" where
  "alive_item timeout now it \<longleftrightarrow> timeout = 0 \<or> now < item_start it + timeout"

definition aliveServers :: "int \<Rightarrow> GeeRegistry \<Rightarrow> string list \<times> GeeRegistry" where
  "aliveServers now r =
     (let alive = filter (\<lambda>(addr, s). alive_item (reg_timeout r) now s) (reg_servers r)
      in (sort (map fst alive), r\<lparr>reg_servers := alive\<rparr>))"

text \<open>The answer to a request: the status and the header \<^verbatim>\<open>X-Geerpc-Servers\<close>.\<close>

record registry_answer =
  ra_status :: int
  ra_servers :: "string option"

definition registry_ServeHTTP ::
  "int \<Rightarrow> string \<Rightarrow> string \<Rightarrow> GeeRegistry \<Rightarrow> registry_answer \<times> GeeRegistry" where
  "registry_ServeHTTP now method header_addr r =
     (if method = ''GET'' then
        (let (alive, r') = aliveServers now r
         in (\<lparr>ra_status = 200, ra_servers = Some (strings_Join alive '','')\<rparr>, r'))
      else if method = ''POST'' then
        (if header_addr = [] then (\<lparr>ra_status = 500, ra_servers = None\<rparr>, r)
         else (\<lparr>ra_status = 200, ra_servers = None\<rparr>, putServer now header_addr r))
      else (\<lparr>ra_status = 405, ra_servers = None\<rparr>, r))"

text \<open>
  Heartbeats.  A heartbeat is a POST with the address in the header, over a transport \<open>http_Do\<close>; for a
  URL of the registry that \<^verbatim>\<open>http.NewRequest\<close> refuses (\<open>valid_url\<close>) the request is nil, whose header is
  used all the same.  After the first heartbeat, a goroutine sends one at each tick of a clock, as long
  as there was no error; \<open>heartbeat_loop\<close> is its run over a number of ticks.
\<close>

definition heartbeat_interval :: "int \<Rightarrow> int" where
  "heartbeat_interval duration = (if duration = 0 then defaultTimeout - 1 * minute else duration)"

definition sendHeartbeat ::
  "(string \<Rightarrow> bool) \<Rightarrow> (string \<Rightarrow> string \<Rightarrow> string \<Rightarrow> (error option, 'w) action) \<Rightarrow> string \<Rightarrow> string \<Rightarrow>
   (error option, 'w) action"
where
  "sendHeartbeat valid_url http_Do registry addr w =
     (if \<not> valid_url registry then (Panics ''nil pointer dereference'', w)
      else and_then (http_Do ''POST'' registry addr w) (\<lambda>res w'. (Returns res, w')))"

primrec heartbeat_loop :: "(error option, 'w) action \<Rightarrow> nat \<Rightarrow> error option \<Rightarrow> (error option, 'w) action" where
  "heartbeat_loop send 0 err w = (Returns err, w)"
| "heartbeat_loop send (Suc ticks) err w =
     (if err = None then and_then (send w) (\<lambda>err' w'. heartbeat_loop send ticks err' w')
      else (Returns err, w))"

definition Heartbeat ::
  "(string \<Rightarrow> bool) \<Rightarrow> (string \<Rightarrow> string \<Rightarrow> string \<Rightarrow> (error option, 'w) action) \<Rightarrow> string \<Rightarrow> string \<Rightarrow> nat \<Rightarrow>
   (error option, 'w) action"
where
  "Heartbeat valid_url http_Do registry addr ticks w =
     (let send = sendHeartbeat valid_url http_Do registry addr
      in and_then (send w) (\<lambda>err w'. heartbeat_loop send ticks err w'))"

section \<open>The registry over time\<close>

text \<open>A history of requests: heartbeats and queries, each with its time, the last one first.\<close>

datatype reg_event = Heartbeat_at int string | Query_at int

primrec event_time :: "reg_event \<Rightarrow> int" where
  "event_time (Heartbeat_at t addr) = t"
| "event_time (Query_at t) = t"

fun registry_after :: "int \<Rightarrow> reg_event list \<Rightarrow> GeeRegistry" where
  "registry_after timeout [] = registry_New timeout"
| "registry_after timeout (Heartbeat_at t addr # evs) =
     snd (registry_ServeHTTP t ''POST'' addr (registry_after timeout evs))"
| "registry_after timeout (Query_at t # evs) =
     snd (registry_ServeHTTP t ''GET'' [] (registry_after timeout evs))"

fun last_heartbeat :: "reg_event list \<Rightarrow> string \<Rightarrow> int option" where
  "last_heartbeat [] a = None"
| "last_heartbeat (Heartbeat_at t addr # evs) a =
     (if addr = a \<and> a \<noteq> [] then Some t else last_heartbeat evs a)"
| "last_heartbeat (Query_at t # evs) a = last_heartbeat evs a"

text \<open>Time does not go back: the events from the last one on have times that do not rise.\<close>

definition in_time :: "int \<Rightarrow> reg_event list \<Rightarrow> bool" where
  "in_time now evs \<longleftrightarrow> sorted_wrt (\<lambda>x y. y \<le> x) (now # map event_time evs)"

lemma in_time_Cons: "in_time now (e # evs) \<Longrightarrow> event_time e \<le> now \<and> in_time (event_time e) evs"
  by (auto simp: in_time_def)

definition alive_since :: "int \<Rightarrow> int \<Rightarrow> int \<Rightarrow> bool" where
  "alive_since timeout now t \<longleftrightarrow> timeout = 0 \<or> now < t + timeout"

text \<open>
  The invariant: every stored server has the time of its last heartbeat; a server that is not
  stored any more had died by the time \<open>now\<close>.
\<close>

definition reg_inv :: "int \<Rightarrow> reg_event list \<Rightarrow> int \<Rightarrow> GeeRegistry \<Rightarrow> bool" where
  "reg_inv timeout evs now r \<longleftrightarrow>
     reg_timeout r = timeout \<and> distinct (map fst (reg_servers r)) \<and>
     (\<forall>a it. (a, it) \<in> set (reg_servers r) \<longrightarrow> last_heartbeat evs a = Some (item_start it)) \<and>
     (\<forall>a t. last_heartbeat evs a = Some t \<longrightarrow>
        a \<in> fst ` set (reg_servers r) \<or> \<not> alive_since timeout now t)"

lemma reg_invD:
  assumes "reg_inv timeout evs now r"
  shows "reg_timeout r = timeout" and "distinct (map fst (reg_servers r))"
    and "(a, it) \<in> set (reg_servers r) \<Longrightarrow> last_heartbeat evs a = Some (item_start it)"
    and "last_heartbeat evs a = Some t \<Longrightarrow> alive_since timeout now t \<Longrightarrow> a \<in> fst ` set (reg_servers r)"
  using assms by (auto simp: reg_inv_def)

lemma alive_since_mono: "now \<le> now' \<Longrightarrow> alive_since timeout now' t \<Longrightarrow> alive_since timeout now t"
  by (auto simp: alive_since_def)

lemma reg_inv_later: "reg_inv timeout evs now r \<Longrightarrow> now \<le> now' \<Longrightarrow> reg_inv timeout evs now' r"
  unfolding reg_inv_def using alive_since_mono by blast

lemma fst_map_update:
  "map fst (map (\<lambda>(k, it). if k = a then (k, f it) else (k, it)) xs) = map fst xs"
  by (induction xs) auto

lemma reg_inv_put:
  assumes inv: "reg_inv timeout evs now r" and a: "addr \<noteq> []"
  shows "reg_inv timeout (Heartbeat_at now addr # evs) now (putServer now addr r)"
proof (cases "map_of (reg_servers r) addr")
  case None
  then have fresh: "addr \<notin> fst ` set (reg_servers r)" by (simp add: map_of_eq_None_iff)
  have put: "putServer now addr r =
      r\<lparr>reg_servers := reg_servers r @ [(addr, \<lparr>item_Addr = addr, item_start = now\<rparr>)]\<rparr>"
    using None by (simp add: putServer_def)
  have "last_heartbeat (Heartbeat_at now addr # evs) b = Some (item_start it)"
    if "(b, it) \<in> set (reg_servers (putServer now addr r))" for b it
  proof (cases "(b, it) \<in> set (reg_servers r)")
    case True
    then have "b \<noteq> addr" using fresh by force
    with True reg_invD(3) [OF inv] show ?thesis by auto
  next
    case False
    with that put a show ?thesis by auto
  qed
  with inv fresh a put show ?thesis
    by (auto simp: reg_inv_def)
next
  case (Some s)
  let ?f = "\<lambda>(k, it). if k = addr then (k, it\<lparr>item_start := now\<rparr>) else (k, it)"
  have put: "reg_servers (putServer now addr r) = map ?f (reg_servers r)"
    "reg_timeout (putServer now addr r) = reg_timeout r"
    using Some by (simp_all add: putServer_def)
  have keys: "map fst (map ?f (reg_servers r)) = map fst (reg_servers r)" by (rule fst_map_update)
  then have keys': "fst ` set (map ?f (reg_servers r)) = fst ` set (reg_servers r)"
    by (metis set_map)
  have listed: "addr \<in> fst ` set (reg_servers r)" using Some by (force dest: map_of_SomeD)
  have "last_heartbeat (Heartbeat_at now addr # evs) b = Some (item_start it)"
    if "(b, it) \<in> set (map ?f (reg_servers r))" for b it
    using that a reg_invD(3) [OF inv] by (auto split: if_splits)
  then show ?thesis
    using inv listed unfolding reg_inv_def put keys keys' by auto
qed

lemma reg_inv_query:
  assumes inv: "reg_inv timeout evs now r"
  shows "reg_inv timeout (Query_at now # evs) now (snd (aliveServers now r))"
proof -
  have "a \<in> fst ` set (filter (\<lambda>(addr, s). alive_item timeout now s) (reg_servers r))"
    if l: "last_heartbeat evs a = Some t" "alive_since timeout now t" for a t
  proof -
    obtain it where it: "(a, it) \<in> set (reg_servers r)" using reg_invD(4) [OF inv l] by auto
    with reg_invD(3) [OF inv it] l have "alive_item timeout now it"
      by (simp add: alive_item_def alive_since_def)
    with it show ?thesis by force
  qed
  then show ?thesis
    using inv unfolding reg_inv_def aliveServers_def Let_def
    by (auto simp: distinct_map_filter)
qed

lemma reg_inv_after: "in_time now evs \<Longrightarrow> reg_inv timeout evs now (registry_after timeout evs)"
proof (induction timeout evs arbitrary: now rule: registry_after.induct)
  case (1 timeout)
  then show ?case by (simp add: reg_inv_def registry_New_def)
next
  case (2 timeout t addr evs)
  from in_time_Cons [OF 2(2)] have t: "t \<le> now" "in_time t evs" by simp_all
  note IH = "2.IH" [OF t(2)]
  show ?case
  proof (cases "addr = []")
    case True
    then have "last_heartbeat (Heartbeat_at t addr # evs) = last_heartbeat evs" by (auto simp: fun_eq_iff)
    with True reg_inv_later [OF IH t(1)] show ?thesis
      by (simp add: registry_ServeHTTP_def reg_inv_def)
  next
    case False
    with reg_inv_later [OF reg_inv_put [OF IH False] t(1)] show ?thesis
      by (simp add: registry_ServeHTTP_def)
  qed
next
  case (3 timeout t evs)
  from in_time_Cons [OF 3(2)] have t: "t \<le> now" "in_time t evs" by simp_all
  from reg_inv_later [OF reg_inv_query [OF "3.IH" [OF t(2)]] t(1)] show ?case
    by (simp add: registry_ServeHTTP_def case_prod_unfold Let_def)
qed

lemma alive_servers_spec:
  assumes "reg_inv timeout evs now r"
  shows "sorted (fst (aliveServers now r)) \<and> distinct (fst (aliveServers now r)) \<and>
    (\<forall>a. a \<in> set (fst (aliveServers now r)) \<longleftrightarrow>
       (\<exists>t. last_heartbeat evs a = Some t \<and> alive_since timeout now t))"
proof -
  have "a \<in> set (fst (aliveServers now r)) \<longleftrightarrow>
      (\<exists>t. last_heartbeat evs a = Some t \<and> alive_since timeout now t)" for a
  proof
    assume "a \<in> set (fst (aliveServers now r))"
    then obtain it where "(a, it) \<in> set (reg_servers r)" "alive_item (reg_timeout r) now it"
      by (auto simp: aliveServers_def Let_def)
    with reg_invD(1,3) [OF assms] show "\<exists>t. last_heartbeat evs a = Some t \<and> alive_since timeout now t"
      by (auto simp: alive_item_def alive_since_def)
  next
    assume "\<exists>t. last_heartbeat evs a = Some t \<and> alive_since timeout now t"
    then obtain t where t: "last_heartbeat evs a = Some t" "alive_since timeout now t" by blast
    then obtain it where it: "(a, it) \<in> set (reg_servers r)" using reg_invD(4) [OF assms t] by auto
    with reg_invD(1,3) [OF assms] t have "alive_item (reg_timeout r) now it"
      by (fastforce simp: alive_item_def alive_since_def)
    with it show "a \<in> set (fst (aliveServers now r))"
      by (force simp: aliveServers_def Let_def)
  qed
  with reg_invD(2) [OF assms] show ?thesis
    by (simp add: aliveServers_def Let_def distinct_map_filter)
qed

section \<open>Properties\<close>

text \<open>
  C18: the registry keeps what it promises: after any history of heartbeats and queries, with
  the servers that queries dropped on the way, a query answers with the sorted list, without
  repetition, of exactly those servers whose last heartbeat is less than the timeout ago.
\<close>

theorem registry_lists_live_servers:
  assumes "in_time now evs"
  shows "sorted (fst (aliveServers now (registry_after timeout evs))) \<and>
    distinct (fst (aliveServers now (registry_after timeout evs))) \<and>
    (\<forall>a. a \<in> set (fst (aliveServers now (registry_after timeout evs))) \<longleftrightarrow>
       (\<exists>t. last_heartbeat evs a = Some t \<and> alive_since timeout now t))"
  by (rule alive_servers_spec [OF reg_inv_after [OF assms]])

theorem registry_lists_live_servers_witness:
  "''b'' \<notin> set (fst (aliveServers 20 (registry_after 10 [Heartbeat_at 15 ''a'', Query_at 12, Heartbeat_at 3 ''b'']))) \<and>
   ''a'' \<in> set (fst (aliveServers 20 (registry_after 10 [Heartbeat_at 15 ''a'', Query_at 12, Heartbeat_at 3 ''b''])))"
proof -
  have "in_time 20 [Heartbeat_at 15 ''a'', Query_at 12, Heartbeat_at 3 ''b'']" by (simp add: in_time_def)
  from registry_lists_live_servers [OF this, of 10] show ?thesis by (simp add: alive_since_def)
qed

text \<open>
  A server that sends its heartbeats on time is always listed by the default registry: with
  the default interval, at any moment until the next heartbeat is due, whatever the other
  servers and the clients do in between.
\<close>

theorem heartbeats_keep_alive:
  assumes "in_time now evs" and "last_heartbeat evs addr = Some t"
    and "now \<le> t + heartbeat_interval 0"
  shows "addr \<in> set (fst (aliveServers now (registry_after defaultTimeout evs)))"
  using alive_servers_spec [OF reg_inv_after [OF assms(1)], of defaultTimeout] assms(2,3)
  by (auto simp: alive_since_def heartbeat_interval_def defaultTimeout_def minute_def)

theorem heartbeats_keep_alive_witness:
  "''a'' \<in> set (fst (aliveServers 200000000000 (registry_after defaultTimeout [Query_at 9, Heartbeat_at 5 ''a''])))"
  by (rule heartbeats_keep_alive [where t = 5])
    (simp_all add: in_time_def heartbeat_interval_def defaultTimeout_def minute_def)

lemma heartbeat_loop_error: "heartbeat_loop send ticks (Some e) w = (Returns (Some e), w)"
  by (cases ticks) simp_all

lemma heartbeat_loop_more:
  "heartbeat_loop send ticks err w = (Returns (Some e), w') \<Longrightarrow>
   heartbeat_loop send (ticks + further) err w = (Returns (Some e), w')"
proof (induction ticks arbitrary: err w)
  case 0
  then show ?case by (cases err) (simp_all add: heartbeat_loop_error)
qed (auto split: if_splits)

text \<open>
  The first heartbeat that fails is the last one: however many ticks follow, no further heartbeat is
  sent, so that the registry drops the server for good after a single failure.
\<close>

theorem heartbeats_end_with_first_error:
  assumes "Heartbeat valid_url http_Do registry addr ticks w = (Returns (Some e), w')"
  shows "Heartbeat valid_url http_Do registry addr (ticks + further) w = (Returns (Some e), w')"
  using assms heartbeat_loop_more by (fastforce simp: Heartbeat_def Let_def)

theorem heartbeats_end_with_first_error_witness:
  "Heartbeat (\<lambda>_. True) (\<lambda>meth url addr n. (Returns (if n = 2 then Some ''timeout'' else None), n + 1)) ''http://r'' ''a'' (2 + 5)
     (0::nat) = (Returns (Some ''timeout''), 3)"
  by (rule heartbeats_end_with_first_error) (simp add: Heartbeat_def sendHeartbeat_def Let_def numeral_eq_Suc)

end
