(* ===== verification/Discovery.thy ===== *)
theory Discovery
  imports Registry
begin

text \<open>
  Package \<^verbatim>\<open>geerpc/xclient\<close>, \<^verbatim>\<open>discovery.go\<close> and \<^verbatim>\<open>discovery_gee.go\<close>: the choice of a server.  A
  random number is any number, reduced to the range that is asked for.  The discovery that asks
  a registry embeds the other one, as its record extends the other record.
\<close>

section \<open>A fixed list of servers\<close>

type_synonym SelectMode = int

definition RandomSelect :: SelectMode where
  "RandomSelect = 0"

definition RoundRobinSelect :: SelectMode where
  "RoundRobinSelect = 1"

record MultiServerDiscovery =
  d_servers :: "string list"
  d_index :: int

definition rand_Intn :: "nat \<Rightarrow> int \<Rightarrow> int" where
  "rand_Intn r n = int r mod n"

definition NewMultiServerDiscovery :: "nat \<Rightarrow> string list \<Rightarrow> MultiServerDiscovery" where
  "NewMultiServerDiscovery r servers =
     \<lparr>d_servers = servers, d_index = rand_Intn r (2 ^ 31 - 1 - 1)\<rparr>"

definition msd_Refresh :: "'a MultiServerDiscovery_scheme \<Rightarrow> error option \<times> 'a MultiServerDiscovery_scheme" where
  "msd_Refresh d = (None, d)"

definition msd_Update ::
  "string list \<Rightarrow> 'a MultiServerDiscovery_scheme \<Rightarrow> error option \<times> 'a MultiServerDiscovery_scheme" where
  "msd_Update servers d = (None, d\<lparr>d_servers := servers\<rparr>)"

definition msd_Get ::
  "nat \<Rightarrow> SelectMode \<Rightarrow> 'a MultiServerDiscovery_scheme \<Rightarrow>
   (error + string) \<times> 'a MultiServerDiscovery_scheme"
where
  "msd_Get r mode d =
     (let n = int (length (d_servers d))
      in if n = 0 then (Inl ''rpc discovery: no available servers'', d)
         else if mode = RandomSelect then (Inr (d_servers d ! nat (rand_Intn r n)), d)
         else if mode = RoundRobinSelect then
           (Inr (d_servers d ! nat (d_index d mod n)), d\<lparr>d_index := (d_index d + 1) mod n\<rparr>)
         else (Inl ''rpc discovery: not supported select mode'', d))"

definition msd_GetAll ::
  "'a MultiServerDiscovery_scheme \<Rightarrow> (error + string list) \<times> 'a MultiServerDiscovery_scheme" where
  "msd_GetAll d = (Inr (d_servers d), d)"

section \<open>Servers from a registry\<close>

record GeeRegistryDiscovery = MultiServerDiscovery +
  d_registry :: string
  d_timeout :: int
  d_lastUpdate :: int

definition defaultUpdateTimeout :: int where
  "defaultUpdateTimeout = 10 * 1000000000"

definition NewGeeRegistryDiscovery :: "nat \<Rightarrow> string \<Rightarrow> int \<Rightarrow> GeeRegistryDiscovery" where
  "NewGeeRegistryDiscovery r addr timeout =
     MultiServerDiscovery.extend (NewMultiServerDiscovery r [])
       \<lparr>d_registry = addr, d_timeout = (if timeout = 0 then defaultUpdateTimeout else timeout),
        d_lastUpdate = 0\<rparr>"

definition grd_Update ::
  "int \<Rightarrow> string list \<Rightarrow> GeeRegistryDiscovery \<Rightarrow> error option \<times> GeeRegistryDiscovery" where
  "grd_Update now servers d = (None, d\<lparr>d_servers := servers, d_lastUpdate := now\<rparr>)"

text \<open>The loop over the pieces of the header.\<close>

definition parse_servers :: "string \<Rightarrow> string list" where
  "parse_servers header =
     map strings_TrimSpace
       (filter (\<lambda>s. strings_TrimSpace s \<noteq> []) (strings_Split (CHR '','') header))"

text \<open>
  \<open>http_Get\<close> is the transport: it yields an error or the header \<^verbatim>\<open>X-Geerpc-Servers\<close> of the answer,
  empty if there is none.
\<close>

definition grd_Refresh ::
  "(string \<Rightarrow> (error + string, 'w) action) \<Rightarrow> int \<Rightarrow>
   (error option, GeeRegistryDiscovery \<times> 'w) action"
where
  "grd_Refresh http_Get now = (\<lambda>(d, w).
     if now < d_lastUpdate d + d_timeout d then (Returns None, (d, w))
     else
       (case http_Get (d_registry d) w of
          (Returns (Inl err), w') \<Rightarrow> (Returns (Some err), (d, w'))
        | (Returns (Inr header), w') \<Rightarrow>
            (Returns None, (d\<lparr>d_servers := parse_servers header, d_lastUpdate := now\<rparr>, w'))
        | (Panics e, w') \<Rightarrow> (Panics e, (d, w'))
        | (Hangs, w') \<Rightarrow> (Hangs, (d, w'))))"

definition grd_Get ::
  "(string \<Rightarrow> (error + string, 'w) action) \<Rightarrow> int \<Rightarrow> nat \<Rightarrow> SelectMode \<Rightarrow>
   (error + string, GeeRegistryDiscovery \<times> 'w) action"
where
  "grd_Get http_Get now r mode s =
     and_then (grd_Refresh http_Get now s) (\<lambda>err (d, w).
       case err of
         Some e \<Rightarrow> (Returns (Inl e), (d, w))
       | None \<Rightarrow> (let (res, d') = msd_Get r mode d in (Returns res, (d', w))))"

definition grd_GetAll ::
  "(string \<Rightarrow> (error + string, 'w) action) \<Rightarrow> int \<Rightarrow>
   (error + string list, GeeRegistryDiscovery \<times> 'w) action"
where
  "grd_GetAll http_Get now s =
     and_then (grd_Refresh http_Get now s) (\<lambda>err (d, w).
       case err of
         Some e \<Rightarrow> (Returns (Inl e), (d, w))
       | None \<Rightarrow> (let (res, d') = msd_GetAll d in (Returns res, (d', w))))"

section \<open>The interface of a discovery\<close>

text \<open>
  What a client relies on: a server that is chosen is one of those that the discovery holds when
  it answers, all of them are what \<^verbatim>\<open>GetAll\<close> returns, and \<^verbatim>\<open>Update\<close> sets them.
\<close>

locale discovery =
  fixes servers :: "'d \<Rightarrow> string list"
    and get :: "nat \<Rightarrow> SelectMode \<Rightarrow> (error + string, 'd) action"
    and get_all :: "(error + string list, 'd) action"
    and update :: "string list \<Rightarrow> 'd \<Rightarrow> 'd"
  assumes get_in: "get r mode d = (Returns (Inr s), d') \<Longrightarrow> s \<in> set (servers d')"
    and all_in: "get_all d = (Returns (Inr ss), d') \<Longrightarrow> ss = servers d'"
    and update_servers: "servers (update ss d) = ss"
begin

text \<open>The servers that a sequence of choices may come from, when nothing but choices happens.\<close>

lemma get_after_all:
  assumes "get_all d = (Returns (Inr ss), d')" and "get r mode d' = (Returns (Inr s), d'')"
    and "servers d'' = servers d'"
  shows "s \<in> set ss"
  using assms get_in [OF assms(2)] all_in [OF assms(1)] by simp

end

lemma msd_Get_in:
  assumes "msd_Get r mode d = (Inr s, d')"
  shows "s \<in> set (d_servers d) \<and> d_servers d' = d_servers d"
proof -
  have "d_servers d \<noteq> [] \<Longrightarrow> nat (i mod int (length (d_servers d))) < length (d_servers d)" for i
    by (simp add: nat_less_iff)
  with assms show ?thesis
    by (auto simp: msd_Get_def Let_def rand_Intn_def split: if_splits)
qed

interpretation multi: discovery d_servers
  "\<lambda>r mode d. (Returns (fst (msd_Get r mode d)), snd (msd_Get r mode d))"
  "\<lambda>d. (Returns (fst (msd_GetAll d)), snd (msd_GetAll d))" "\<lambda>ss d. snd (msd_Update ss d)"
proof unfold_locales
  fix r mode s and d d' :: "'a MultiServerDiscovery_scheme"
  assume "(Returns (fst (msd_Get r mode d)), snd (msd_Get r mode d)) = (Returns (Inr s), d')"
  then show "s \<in> set (d_servers d')" using msd_Get_in [of r mode d s d'] by (auto simp: prod_eq_iff)
qed (simp_all add: msd_GetAll_def msd_Update_def)

interpretation from_registry: discovery "\<lambda>(d, w). d_servers d" "grd_Get http_Get now"
  "grd_GetAll http_Get now" "\<lambda>ss (d, w). (snd (grd_Update now ss d), w)" for http_Get now
proof unfold_locales
  fix r mode s and d d' :: "GeeRegistryDiscovery \<times> 'a"
  assume "grd_Get http_Get now r mode d = (Returns (Inr s), d')"
  then show "s \<in> set (case d' of (d, w) \<Rightarrow> d_servers d)"
    using msd_Get_in by (fastforce simp: grd_Get_def split: option.splits prod.splits)
next
  fix ss and d d' :: "GeeRegistryDiscovery \<times> 'a"
  assume "grd_GetAll http_Get now d = (Returns (Inr ss), d')"
  then show "ss = (case d' of (d, w) \<Rightarrow> d_servers d)"
    by (auto simp: grd_GetAll_def msd_GetAll_def split: option.splits prod.splits)
qed (auto simp: grd_Update_def split: prod.split)

section \<open>Properties\<close>

text \<open>A number of choices in a row.\<close>

fun msd_Gets :: "nat \<Rightarrow> SelectMode \<Rightarrow> nat \<Rightarrow> 'a MultiServerDiscovery_scheme \<Rightarrow> (error + string) list" where
  "msd_Gets r mode 0 d = []"
| "msd_Gets r mode (Suc k) d = fst (msd_Get r mode d) # msd_Gets r mode k (snd (msd_Get r mode d))"

lemma round_robin_from:
  assumes "d_servers d \<noteq> []"
  shows "msd_Gets r RoundRobinSelect k d =
    map (\<lambda>i. Inr (d_servers d ! nat ((d_index d + int i) mod int (length (d_servers d))))) [0..<k]"
  using assms
proof (induction k arbitrary: d)
  case (Suc k)
  let ?n = "int (length (d_servers d))"
  let ?d = "d\<lparr>d_index := (d_index d + 1) mod ?n\<rparr>"
  have get: "msd_Get r RoundRobinSelect d = (Inr (d_servers d ! nat (d_index d mod ?n)), ?d)"
    using Suc.prems by (simp add: msd_Get_def Let_def RandomSelect_def RoundRobinSelect_def)
  have "msd_Gets r RoundRobinSelect k ?d =
      map (\<lambda>i. Inr (d_servers d ! nat ((d_index d + int (Suc i)) mod ?n))) [0..<k]"
    using Suc by (simp add: mod_simps algebra_simps)
  then show ?case
    by (simp add: get upt_conv_Cons map_Suc_upt [symmetric] del: upt_Suc map_Suc_upt)
qed simp

lemma rotation_bij: "0 < n \<Longrightarrow> bij_betw (\<lambda>i. nat ((a + int i) mod int n)) {..<n} {..<n}"
proof -
  assume n: "0 < n"
  have inj: "inj_on (\<lambda>i. nat ((a + int i) mod int n)) {..<n}"
  proof (rule inj_onI)
    fix i j assume ij: "i \<in> {..<n}" "j \<in> {..<n}" "nat ((a + int i) mod int n) = nat ((a + int j) mod int n)"
    then have "(a + int i) mod int n = (a + int j) mod int n" using n by (simp add: eq_nat_nat_iff)
    then have "int i mod int n = int j mod int n"
      by (metis add_diff_cancel_left' mod_diff_left_eq)
    with ij show "i = j" by simp
  qed
  moreover have "(\<lambda>i. nat ((a + int i) mod int n)) ` {..<n} \<subseteq> {..<n}"
    using n by (auto simp: nat_less_iff)
  ultimately show ?thesis by (simp add: bij_betw_def endo_inj_surj)
qed

text \<open>
  Round-robin is fair: from any state with \<open>n\<close> servers, also right after an update to another
  list, the \<open>k\<close>-th choice is the server \<open>k\<close> places after the first one, going round; so
  any \<open>n\<close> choices in a row use every position exactly once.
\<close>

theorem round_robin_fair:
  assumes "d_servers d \<noteq> []"
  shows "msd_Gets r RoundRobinSelect k d =
      map (\<lambda>i. Inr (d_servers d ! nat ((d_index d + int i) mod int (length (d_servers d))))) [0..<k] \<and>
    bij_betw (\<lambda>i. nat ((d_index d + int i) mod int (length (d_servers d))))
      {..<length (d_servers d)} {..<length (d_servers d)}"
  using round_robin_from [OF assms] rotation_bij [of "length (d_servers d)"] assms by simp

theorem round_robin_fair_witness:
  "msd_Gets 0 RoundRobinSelect 3 \<lparr>d_servers = [''a'', ''b''], d_index = 5\<rparr> = [Inr ''b'', Inr ''a'', Inr ''b'']"
  using round_robin_fair [of "\<lparr>d_servers = [''a'', ''b''], d_index = 5\<rparr>" 0 3] by (simp add: upt_rec)

definition plain_addr :: "string \<Rightarrow> bool" where
  "plain_addr s \<longleftrightarrow> s \<noteq> [] \<and> CHR '','' \<notin> set s \<and> strings_TrimSpace s = s"

lemma parse_servers_Join:
  assumes "\<forall>s \<in> set ss. plain_addr s"
  shows "parse_servers (strings_Join ss '','') = ss"
proof (cases "ss = []")
  case False
  then have "strings_Split (CHR '','') (strings_Join ss '','') = ss"
    using assms by (intro Split_Join) (auto simp: plain_addr_def)
  moreover have "filter (\<lambda>s. strings_TrimSpace s \<noteq> []) ss = ss" "map strings_TrimSpace ss = ss"
    using assms by (auto simp: plain_addr_def filter_id_conv intro: map_idI)
  ultimately show ?thesis by (simp add: parse_servers_def)
qed (simp add: parse_servers_def strings_TrimSpace_def)

text \<open>The transport to a registry that is reached at the time \<open>now\<close>.\<close>

definition registry_transport :: "int \<Rightarrow> string \<Rightarrow> (error + string, GeeRegistry) action" where
  "registry_transport now url reg =
     (let (answer, reg') = registry_ServeHTTP now ''GET'' [] reg
      in (Returns (Inr (case ra_servers answer of None \<Rightarrow> [] | Some h \<Rightarrow> h)), reg'))"

lemma refresh_from_registry:
  assumes "reg_inv timeout evs now reg" and "\<forall>a t. last_heartbeat evs a = Some t \<longrightarrow> plain_addr a"
  shows "grd_Refresh (registry_transport now) now (d, reg) =
    (if now < d_lastUpdate d + d_timeout d then (Returns None, (d, reg))
     else (Returns None,
       (d\<lparr>d_servers := fst (aliveServers now reg), d_lastUpdate := now\<rparr>, snd (aliveServers now reg))))"
proof -
  have "\<forall>s \<in> set (fst (aliveServers now reg)). plain_addr s"
    using alive_servers_spec [OF assms(1)] assms(2) by auto
  from parse_servers_Join [OF this] show ?thesis
    by (simp add: grd_Refresh_def registry_transport_def registry_ServeHTTP_def case_prod_unfold Let_def)
qed

text \<open>
  C33: from the registry to the client: for addresses without commas and without spaces at
  their ends, a refresh that is due, over a transport that hands over the registry's answer,
  gives the discovery exactly the live servers in the order of the registry; a refresh that is
  not due changes nothing and does not contact the registry.
\<close>

theorem refresh_gets_live_servers:
  assumes "\<forall>a t. last_heartbeat evs a = Some t \<longrightarrow> plain_addr a" and "in_time now evs"
  shows "grd_Refresh (registry_transport now) now (d, registry_after timeout evs) =
    (if now < d_lastUpdate d + d_timeout d then (Returns None, (d, registry_after timeout evs))
     else (Returns None,
       (d\<lparr>d_servers := fst (aliveServers now (registry_after timeout evs)), d_lastUpdate := now\<rparr>,
        snd (aliveServers now (registry_after timeout evs)))))"
  by (rule refresh_from_registry [OF reg_inv_after [OF assms(2)] assms(1)])

theorem refresh_gets_live_servers_witness:
  "d_servers (fst (snd (grd_Refresh (registry_transport 20) 20
     (NewGeeRegistryDiscovery 3 ''reg'' 10, registry_after 10 [Heartbeat_at 15 ''tcp@b'', Heartbeat_at 14 ''tcp@a''])))) =
   [''tcp@a'', ''tcp@b'']"
proof -
  let ?evs = "[Heartbeat_at 15 ''tcp@b'', Heartbeat_at 14 ''tcp@a'']"
  have "plain_addr ''tcp@a''" "plain_addr ''tcp@b''"
    by (simp_all add: plain_addr_def strings_TrimSpace_def is_space_def)
  then have "\<forall>a t. last_heartbeat ?evs a = Some t \<longrightarrow> plain_addr a" by auto
  moreover have "in_time 20 ?evs" by (simp add: in_time_def)
  ultimately have "d_servers (fst (snd (grd_Refresh (registry_transport 20) 20
      (NewGeeRegistryDiscovery 3 ''reg'' 10, registry_after 10 ?evs)))) = fst (aliveServers 20 (registry_after 10 ?evs))"
    using refresh_gets_live_servers [of ?evs 20 "NewGeeRegistryDiscovery 3 ''reg'' 10" 10]
    by (simp add: NewGeeRegistryDiscovery_def MultiServerDiscovery.defs)
  also have "\<dots> = [''tcp@a'', ''tcp@b'']"
    by (simp add: aliveServers_def registry_ServeHTTP_def putServer_def registry_New_def alive_item_def
        insort_key.simps Let_def)
  finally show ?thesis .
qed

end
