(* ===== verification/XClient.thy ===== *)
theory XClient
  imports Discovery
begin

text \<open>
  Package \<^verbatim>\<open>geerpc/xclient\<close>, \<^verbatim>\<open>xclient.go\<close>: a client of many servers, with one connection per
  address.  Connections and the network are behind the operations of \<open>client_ops\<close>, which act on
  the world \<open>'w\<close>: \<^verbatim>\<open>IsAvailable\<close>, \<^verbatim>\<open>Close\<close>, the two ways to dial, and a call on a connection.
\<close>

section \<open>Connections\<close>

record ('c, 'o, 'w) client_ops =
  op_IsAvailable :: "'c \<Rightarrow> 'w \<Rightarrow> bool"
  op_Close :: "'c \<Rightarrow> 'w \<Rightarrow> 'w"
  op_Dial :: "string \<Rightarrow> string \<Rightarrow> 'o \<Rightarrow> (error + 'c, 'w) action"
  op_DialHTTP :: "string \<Rightarrow> string \<Rightarrow> 'o \<Rightarrow> (error + 'c, 'w) action"

definition XDial ::
  "('c, 'o, 'w) client_ops \<Rightarrow> string \<Rightarrow> 'o \<Rightarrow> (error + 'c, 'w) action" where
  "XDial ops rpcAddr opt w =
     (case strings_Split (CHR ''@'') rpcAddr of
        [protocol, addr] \<Rightarrow>
          (if protocol = ''http'' then op_DialHTTP ops ''tcp'' addr opt w
           else op_Dial ops protocol addr opt w)
      | _ \<Rightarrow>
          (Returns (Inl (''rpc client err: wrong format '' @ [CHR 0x27] @ rpcAddr @ [CHR 0x27] @
             '', expect protocol@addr'')), w))"

text \<open>The map of connections is an association list with distinct keys.\<close>

record ('c, 'o, 'd) XClient =
  xc_d :: 'd
  xc_mode :: SelectMode
  xc_opt :: 'o
  xc_clients :: "(string \<times> 'c) list"

definition NewXClient :: "'d \<Rightarrow> SelectMode \<Rightarrow> 'o \<Rightarrow> ('c, 'o, 'd) XClient" where
  "NewXClient d mode opt = \<lparr>xc_d = d, xc_mode = mode, xc_opt = opt, xc_clients = []\<rparr>"

definition xc_Close ::
  "('c, 'o, 'w) client_ops \<Rightarrow> ('c, 'o, 'd) XClient \<times> 'w \<Rightarrow> ('c, 'o, 'd) XClient \<times> 'w" where
  "xc_Close ops = (\<lambda>(xc, w).
     (xc\<lparr>xc_clients := []\<rparr>, fold (\<lambda>(key, client). op_Close ops client) (xc_clients xc) w))"

definition without :: "string \<Rightarrow> (string \<times> 'c) list \<Rightarrow> (string \<times> 'c) list" where
  "without k = filter (\<lambda>(k', c). k' \<noteq> k)"

definition xc_dial ::
  "('c, 'o, 'w) client_ops \<Rightarrow> string \<Rightarrow> (error + 'c, ('c, 'o, 'd) XClient \<times> 'w) action" where
  "xc_dial ops rpcAddr = (\<lambda>(xc, w).
     let cached = map_of (xc_clients xc) rpcAddr;
         (client, xc1, w1) =
           (case cached of
              Some c \<Rightarrow>
                if \<not> op_IsAvailable ops c w
                then (None, xc\<lparr>xc_clients := without rpcAddr (xc_clients xc)\<rparr>, op_Close ops c w)
                else (Some c, xc, w)
            | None \<Rightarrow> (None, xc, w))
     in case client of
          Some c \<Rightarrow> (Returns (Inr c), (xc1, w1))
        | None \<Rightarrow>
            (case XDial ops rpcAddr (xc_opt xc1) w1 of
               (Returns (Inl err), w2) \<Rightarrow> (Returns (Inl err), (xc1, w2))
             | (Returns (Inr c), w2) \<Rightarrow>
                 (Returns (Inr c), (xc1\<lparr>xc_clients := xc_clients xc1 @ [(rpcAddr, c)]\<rparr>, w2))
             | (Panics e, w2) \<Rightarrow> (Panics e, (xc1, w2))
             | (Hangs, w2) \<Rightarrow> (Hangs, (xc1, w2))))"

text \<open>\<open>client_Call\<close> is the call on a connection, with its arguments applied.\<close>

definition xc_call ::
  "('c, 'o, 'w) client_ops \<Rightarrow> ('c \<Rightarrow> (error + 'r, 'w) action) \<Rightarrow> string \<Rightarrow>
   (error + 'r, ('c, 'o, 'd) XClient \<times> 'w) action"
where
  "xc_call ops client_Call rpcAddr s =
     and_then (xc_dial ops rpcAddr s) (\<lambda>res (xc, w).
       case res of
         Inl err \<Rightarrow> (Returns (Inl err), (xc, w))
       | Inr c \<Rightarrow> (let (out, w') = client_Call c w in (out, (xc, w'))))"

text \<open>\<open>d_Get\<close> is the method \<^verbatim>\<open>Get\<close> of the discovery, which may use the world.\<close>

definition xc_Call ::
  "('c, 'o, 'w) client_ops \<Rightarrow> (SelectMode \<Rightarrow> (error + string, 'd \<times> 'w) action) \<Rightarrow>
   ('c \<Rightarrow> (error + 'r, 'w) action) \<Rightarrow> (error + 'r, ('c, 'o, 'd) XClient \<times> 'w) action"
where
  "xc_Call ops d_Get client_Call = (\<lambda>(xc, w).
     and_then
       (let (out, (d', w')) = d_Get (xc_mode xc) (xc_d xc, w) in (out, (xc\<lparr>xc_d := d'\<rparr>, w')))
       (\<lambda>res s. case res of
          Inl err \<Rightarrow> (Returns (Inl err), s)
        | Inr rpcAddr \<Rightarrow> xc_call ops client_Call rpcAddr s))"

section \<open>Broadcast\<close>

text \<open>
  The goroutines of a broadcast finish one after the other, each holding the mutex; the state
  they share is the first error, the reply, the flag \<^verbatim>\<open>replyDone\<close> and the context's cancellation.
\<close>

record 'r broadcast =
  b_e :: "error option"
  b_reply :: "'r option"
  b_replyDone :: bool
  b_cancelled :: bool

definition bcast_start :: "bool \<Rightarrow> 'r broadcast" where
  "bcast_start has_reply =
     \<lparr>b_e = None, b_reply = None, b_replyDone = (\<not> has_reply), b_cancelled = False\<rparr>"

definition bcast_finish :: "error + 'r \<Rightarrow> 'r broadcast \<Rightarrow> 'r broadcast" where
  "bcast_finish res b =
     (let b1 = (case res of
                  Inl err \<Rightarrow> if b_e b = None then b\<lparr>b_e := Some err, b_cancelled := True\<rparr> else b
                | Inr _ \<Rightarrow> b)
      in case res of
           Inr r \<Rightarrow>
             if \<not> b_replyDone b1 then b1\<lparr>b_reply := Some r, b_replyDone := True, b_cancelled := True\<rparr>
             else b1
         | Inl _ \<Rightarrow> b1)"

text \<open>
  A schedule lists the goroutines in the order in which they finish: the answer that the server
  gives to the call, and whether the call is still waiting for it when it notices that the
  context is cancelled.  A call that notices gives up with the error of \<^verbatim>\<open>Client.Call\<close>.
\<close>

definition cancel_error :: error where
  "cancel_error = ''rpc client: call failed:context canceled''"

definition bcast_result :: "'r broadcast \<Rightarrow> (error + 'r) \<times> bool \<Rightarrow> error + 'r" where
  "bcast_result b x = (if snd x \<and> b_cancelled b then Inl cancel_error else fst x)"

fun bcast_run :: "((error + 'r) \<times> bool) list \<Rightarrow> 'r broadcast \<Rightarrow> 'r broadcast" where
  "bcast_run [] b = b"
| "bcast_run (x # xs) b = bcast_run xs (bcast_finish (bcast_result b x) b)"

definition Broadcast :: "error + ((error + 'r) \<times> bool) list \<Rightarrow> bool \<Rightarrow> error option \<times> 'r option" where
  "Broadcast servers has_reply =
     (case servers of
        Inl err \<Rightarrow> (Some err, None)
      | Inr schedule \<Rightarrow>
          (let b = bcast_run schedule (bcast_start has_reply) in (b_e b, b_reply b)))"

section \<open>Properties\<close>

lemma map_of_without: "map_of (without k xs) k' = (if k' = k then None else map_of xs k')"
  by (induction xs) (auto simp: without_def)

lemma without_fresh: "k \<notin> fst ` set (without k xs)"
  by (auto simp: without_def)

definition xc_inv :: "('c, 'o, 'd) XClient \<Rightarrow> bool" where
  "xc_inv xc \<longleftrightarrow> distinct (map fst (xc_clients xc))"

lemma distinct_without: "distinct (map fst xs) \<Longrightarrow> distinct (map fst (without k xs))"
  by (simp add: without_def distinct_map_filter)

lemma xc_dial_hit:
  assumes "map_of (xc_clients xc) addr = Some c" and "op_IsAvailable ops c w"
  shows "xc_dial ops addr (xc, w) = (Returns (Inr c), (xc, w))"
  using assms by (simp add: xc_dial_def)

text \<open>The state in which a new connection is dialled: a cached one that is down is closed first.\<close>

definition xc_dropped :: "('c, 'o, 'w) client_ops \<Rightarrow> string \<Rightarrow> ('c, 'o, 'd) XClient \<times> 'w \<Rightarrow>
    ('c, 'o, 'd) XClient \<times> 'w" where
  "xc_dropped ops addr = (\<lambda>(xc, w).
     case map_of (xc_clients xc) addr of
       None \<Rightarrow> (xc, w)
     | Some c \<Rightarrow> (xc\<lparr>xc_clients := without addr (xc_clients xc)\<rparr>, op_Close ops c w))"

lemma xc_dial_miss:
  assumes "\<And>c. map_of (xc_clients xc) addr = Some c \<Longrightarrow> \<not> op_IsAvailable ops c w"
  shows "xc_dial ops addr (xc, w) =
    (let (xc1, w1) = xc_dropped ops addr (xc, w)
     in case XDial ops addr (xc_opt xc) w1 of
          (Returns (Inl err), w2) \<Rightarrow> (Returns (Inl err), (xc1, w2))
        | (Returns (Inr c), w2) \<Rightarrow>
            (Returns (Inr c), (xc1\<lparr>xc_clients := xc_clients xc1 @ [(addr, c)]\<rparr>, w2))
        | (Panics e, w2) \<Rightarrow> (Panics e, (xc1, w2))
        | (Hangs, w2) \<Rightarrow> (Hangs, (xc1, w2)))"
  using assms by (cases "map_of (xc_clients xc) addr") (auto simp: xc_dial_def xc_dropped_def Let_def)

lemma xc_dropped_facts:
  assumes "xc_dropped ops addr (xc, w) = (xc1, w1)"
  shows "xc_inv xc \<Longrightarrow> xc_inv xc1" and "map_of (xc_clients xc1) addr = None"
    and "a \<noteq> addr \<Longrightarrow> map_of (xc_clients xc1) a = map_of (xc_clients xc) a"
  using assms
  by (auto simp: xc_dropped_def xc_inv_def distinct_without map_of_without split: option.splits)

text \<open>What a dial and a call leave behind, whatever comes of them.\<close>

lemma xc_dial_Returns:
  assumes "xc_dial ops addr (xc, w) = (Returns res, (xc', w'))"
  shows "xc_d xc' = xc_d xc" and "xc_opt xc' = xc_opt xc" and "xc_mode xc' = xc_mode xc"
    and "(a, c) \<in> set (xc_clients xc') \<Longrightarrow>
      (a, c) \<in> set (xc_clients xc) \<or> a = addr \<and> (\<exists>w w'. XDial ops addr (xc_opt xc) w = (Returns (Inr c), w'))"
    and "res = Inr c \<Longrightarrow> (addr, c) \<in> set (xc_clients xc')"
proof -
  note split = option.splits if_splits prod.splits outcome.splits sum.splits
  show "xc_d xc' = xc_d xc" "xc_opt xc' = xc_opt xc" "xc_mode xc' = xc_mode xc"
    using assms by (auto simp: xc_dial_def Let_def split: split)
  show "res = Inr c \<Longrightarrow> (addr, c) \<in> set (xc_clients xc')"
    using assms by (auto simp: xc_dial_def Let_def split: split dest: map_of_SomeD)
  show "(a, c) \<in> set (xc_clients xc') \<Longrightarrow>
      (a, c) \<in> set (xc_clients xc) \<or> a = addr \<and> (\<exists>w w'. XDial ops addr (xc_opt xc) w = (Returns (Inr c), w'))"
    using assms by (auto simp: xc_dial_def without_def Let_def split: split) blast+
qed

lemma xc_Call_Returns:
  assumes "xc_Call ops d_Get client_Call (xc, w) = (Returns res, (xc', w'))"
  shows "\<exists>target d' w1. d_Get (xc_mode xc) (xc_d xc, w) = (Returns target, (d', w1)) \<and>
    (case target of
       Inl err \<Rightarrow> res = Inl err \<and> xc' = xc\<lparr>xc_d := d'\<rparr> \<and> w' = w1
     | Inr addr \<Rightarrow>
         (\<exists>dialled w2. xc_dial ops addr (xc\<lparr>xc_d := d'\<rparr>, w1) = (Returns dialled, (xc', w2)) \<and>
           (case dialled of
              Inl err \<Rightarrow> res = Inl err \<and> w' = w2
            | Inr c \<Rightarrow> client_Call c w2 = (Returns res, w'))))"
proof -
  obtain out d' w1 where get: "d_Get (xc_mode xc) (xc_d xc, w) = (out, (d', w1))"
    by (cases "d_Get (xc_mode xc) (xc_d xc, w)") auto
  with assms obtain target where out: "out = Returns target" by (auto simp: xc_Call_def)
  show ?thesis
  proof (cases target)
    case (Inr addr)
    with assms get out have call: "xc_call ops client_Call addr (xc\<lparr>xc_d := d'\<rparr>, w1) = (Returns res, (xc', w'))"
      by (simp add: xc_Call_def)
    then obtain dialled xc2 w2 where dial: "xc_dial ops addr (xc\<lparr>xc_d := d'\<rparr>, w1) = (Returns dialled, (xc2, w2))"
      by (auto simp: xc_call_def)
    with call have "xc2 = xc' \<and> (case dialled of Inl err \<Rightarrow> res = Inl err \<and> w' = w2
        | Inr c \<Rightarrow> client_Call c w2 = (Returns res, w'))"
      by (cases dialled) (auto simp: xc_call_def split: prod.splits)
    with dial get out Inr show ?thesis by auto
  qed (use assms get out in \<open>simp add: xc_Call_def\<close>)
qed

lemma xc_Call_answered:
  fixes r :: 'c
  assumes "xc_Call ops d_Get client_Call (xc, w) = (Returns (Inr r), (xc', w'))"
  shows "\<exists>c w0. client_Call c w0 = (Returns (Inr r), w')"
proof -
  from xc_Call_Returns [OF assms] obtain target d' w1 where
    target: "case target of
       Inl err \<Rightarrow> (Inr r :: error + 'c) = Inl err \<and> xc' = xc\<lparr>xc_d := d'\<rparr> \<and> w' = w1
     | Inr addr \<Rightarrow>
         (\<exists>dialled w2. xc_dial ops addr (xc\<lparr>xc_d := d'\<rparr>, w1) = (Returns dialled, (xc', w2)) \<and>
           (case dialled of
              Inl err \<Rightarrow> (Inr r :: error + 'c) = Inl err \<and> w' = w2
            | Inr c \<Rightarrow> client_Call c w2 = (Returns (Inr r), w')))" by blast
  show ?thesis
  proof (cases target)
    case (Inr addr)
    with target obtain dialled w2 where d: "case dialled of
        Inl err \<Rightarrow> (Inr r :: error + 'c) = Inl err \<and> w' = w2 | Inr c \<Rightarrow> client_Call c w2 = (Returns (Inr r), w')" by auto
    then show ?thesis by (cases dialled) auto
  qed (use target in simp)
qed

text \<open>
  Connections are shared: after a successful dial the connection is cached for its address,
  the other addresses keep theirs, there is one connection per address, and as long as it is
  available the next dial gives the same connection without touching the network.
\<close>

theorem dial_caches_connection:
  assumes "xc_inv xc" and "xc_dial ops addr (xc, w) = (Returns (Inr c), (xc', w'))"
  shows "xc_inv xc' \<and> map_of (xc_clients xc') addr = Some c \<and>
    (\<forall>a. a \<noteq> addr \<longrightarrow> map_of (xc_clients xc') a = map_of (xc_clients xc) a) \<and>
    (\<forall>w2. op_IsAvailable ops c w2 \<longrightarrow> xc_dial ops addr (xc', w2) = (Returns (Inr c), (xc', w2)))"
proof -
  have new: "xc_inv xc' \<and> map_of (xc_clients xc') addr = Some c \<and>
    (\<forall>a. a \<noteq> addr \<longrightarrow> map_of (xc_clients xc') a = map_of (xc_clients xc) a)"
  proof (cases "\<exists>c0. map_of (xc_clients xc) addr = Some c0 \<and> op_IsAvailable ops c0 w")
    case True
    then show ?thesis using assms xc_dial_hit by (auto; fastforce)
  next
    case False
    obtain xc1 w1 where d: "xc_dropped ops addr (xc, w) = (xc1, w1)" by (cases "xc_dropped ops addr (xc, w)")
    have "xc' = xc1\<lparr>xc_clients := xc_clients xc1 @ [(addr, c)]\<rparr>"
      using assms(2) xc_dial_miss [of xc addr ops w] False d
      by (auto split: prod.splits outcome.splits sum.splits)
    moreover have "addr \<notin> fst ` set (xc_clients xc1)"
      using xc_dropped_facts(2) [OF d] by (simp add: map_of_eq_None_iff)
    ultimately show ?thesis
      using xc_dropped_facts [OF d] assms(1)
      by (auto simp: xc_inv_def map_add_def split: option.split)
  qed
  then show ?thesis using xc_dial_hit by fastforce
qed

definition direct_ops :: "(nat, unit, nat) client_ops" where
  "direct_ops = \<lparr>op_IsAvailable = (\<lambda>c w. True), op_Close = (\<lambda>c w. w),
     op_Dial = (\<lambda>p a opt w. (Returns (Inr w), w + 1)), op_DialHTTP = (\<lambda>p a opt w. (Returns (Inl ''down''), w))\<rparr>"

theorem dial_caches_connection_witness:
  "\<exists>xc'. xc_dial direct_ops ''tcp@a'' (NewXClient () 0 (), 7) = (Returns (Inr 7), (xc', 8)) \<and>
     map_of (xc_clients xc') ''tcp@a'' = Some 7"
proof -
  have d: "xc_dial direct_ops ''tcp@a'' (NewXClient () 0 (), 7) =
      (Returns (Inr 7), ((NewXClient () 0 ())\<lparr>xc_clients := [(''tcp@a'', 7)]\<rparr>, 8))"
    by (simp add: xc_dial_def XDial_def direct_ops_def NewXClient_def)
  have "xc_inv (NewXClient () 0 ())" by (simp add: xc_inv_def NewXClient_def)
  from dial_caches_connection [OF this d] d show ?thesis by blast
qed

lemma bcast_failed: "b_e b \<noteq> None \<Longrightarrow> b_e (bcast_run xs b) = b_e b"
proof (induction xs arbitrary: b)
  case (Cons x xs)
  have "b_e (bcast_finish (bcast_result b x) b) = b_e b"
    using Cons.prems by (auto simp: bcast_finish_def Let_def split: sum.split)
  with Cons show ?case by simp
qed simp

lemma bcast_reply_kept:
  "b_replyDone b \<Longrightarrow> b_reply (bcast_run xs b) = b_reply b"
proof (induction xs arbitrary: b)
  case (Cons x xs)
  have "b_reply (bcast_finish (bcast_result b x) b) = b_reply b" "b_replyDone (bcast_finish (bcast_result b x) b)"
    using Cons.prems by (auto simp: bcast_finish_def Let_def split: sum.split)
  with Cons show ?case by simp
qed simp

lemma bcast_cancelled:
  assumes "\<forall>x \<in> set xs. \<exists>r. fst x = Inr r" and "b_cancelled b" and "b_replyDone b" and "b_e b = None"
  shows "b_e (bcast_run xs b) = (if \<exists>x \<in> set xs. snd x then Some cancel_error else None)"
  using assms
proof (induction xs arbitrary: b)
  case (Cons x xs)
  then obtain r where r: "fst x = Inr r" by auto
  show ?case
  proof (cases "snd x")
    case True
    then have "b_e (bcast_finish (bcast_result b x) b) = Some cancel_error"
      using Cons.prems by (simp add: bcast_result_def bcast_finish_def Let_def)
    then show ?thesis using True bcast_failed [of "bcast_finish (bcast_result b x) b" xs] by simp
  next
    case False
    then have "bcast_finish (bcast_result b x) b = b"
      using r Cons.prems by (simp add: bcast_result_def bcast_finish_def Let_def)
    with False Cons show ?thesis by simp
  qed
qed simp

lemma bcast_no_reply:
  assumes "\<forall>x \<in> set xs. \<exists>r. fst x = Inr r" and "\<not> b_cancelled b" and "b_replyDone b" and "b_e b = None"
  shows "bcast_run xs b = b"
  using assms
proof (induction xs arbitrary: b)
  case (Cons x xs)
  then have "bcast_finish (bcast_result b x) b = b"
    by (auto simp: bcast_result_def bcast_finish_def Let_def)
  with Cons show ?case by simp
qed simp

text \<open>
  What a broadcast answers, over all orders in which its goroutines finish.  When every
  server answers its call with success, the broadcast still fails, with the cancellation error,
  as soon as a reply is wanted and some goroutine behind the first one notices the cancellation
  that the first success causes; otherwise it succeeds, with the reply that came first.
\<close>

theorem broadcast_of_successes:
  assumes "\<forall>x \<in> set (x0 # xs). \<exists>r. fst x = Inr r"
  shows "Broadcast (Inr (x0 # xs)) has_reply =
    (if has_reply
     then (if \<exists>x \<in> set xs. snd x then Some cancel_error else None,
           case fst x0 of Inr r \<Rightarrow> Some r | Inl _ \<Rightarrow> None)
     else (None, None))"
proof -
  obtain r where r: "fst x0 = Inr r" using assms by auto
  show ?thesis
  proof (cases has_reply)
    case True
    let ?b = "bcast_finish (bcast_result (bcast_start True) x0) (bcast_start True :: 'a broadcast)"
    have b: "b_cancelled ?b" "b_replyDone ?b" "b_e ?b = None" "b_reply ?b = Some r"
      using r by (simp_all add: bcast_start_def bcast_result_def bcast_finish_def Let_def)
    from bcast_cancelled [OF _ b(1-3), of xs] bcast_reply_kept [OF b(2), of xs] b(4) assms True r
    show ?thesis by (simp add: Broadcast_def Let_def)
  next
    case False
    have "bcast_run (x0 # xs) (bcast_start False) = (bcast_start False :: 'a broadcast)"
      by (rule bcast_no_reply [OF assms]) (simp_all add: bcast_start_def)
    with False show ?thesis by (simp add: Broadcast_def Let_def bcast_start_def del: bcast_run.simps)
  qed
qed

theorem broadcast_of_successes_witness:
  "Broadcast (Inr [(Inr (3 :: nat), False), (Inr 3, True)]) True = (Some cancel_error, Some 3)"
  using broadcast_of_successes [of "(Inr 3, False)" "[(Inr 3, True)]" True] by simp

fun bcast_results :: "((error + 'r) \<times> bool) list \<Rightarrow> 'r broadcast \<Rightarrow> (error + 'r) list" where
  "bcast_results [] b = []"
| "bcast_results (x # xs) b = bcast_result b x # bcast_results xs (bcast_finish (bcast_result b x) b)"

lemma bcast_first_error:
  "b_e b = None \<Longrightarrow> b_e (bcast_run xs b) =
     (case filter isl (bcast_results xs b) of [] \<Rightarrow> None | Inl err # _ \<Rightarrow> Some err | _ \<Rightarrow> None)"
proof (induction xs arbitrary: b)
  case (Cons x xs)
  show ?case
  proof (cases "bcast_result b x")
    case (Inl err)
    then have "b_e (bcast_finish (bcast_result b x) b) = Some err"
      using Cons.prems by (simp add: bcast_finish_def Let_def)
    then show ?thesis using Inl bcast_failed [of "bcast_finish (bcast_result b x) b" xs] by simp
  next
    case (Inr r)
    then have "b_e (bcast_finish (bcast_result b x) b) = None"
      using Cons.prems by (simp add: bcast_finish_def Let_def)
    with Inr Cons.IH show ?thesis by simp
  qed
qed simp

text \<open>
  A failure is never lost: the broadcast returns an error exactly when the result of some
  goroutine was one, and it is the error of the goroutine that failed first.
\<close>

theorem broadcast_reports_first_error:
  "fst (Broadcast (Inr schedule) has_reply) =
     (case filter isl (bcast_results schedule (bcast_start has_reply)) of
        [] \<Rightarrow> None | Inl err # _ \<Rightarrow> Some err | _ \<Rightarrow> None)"
  using bcast_first_error [of "bcast_start has_reply" schedule]
  by (simp add: Broadcast_def Let_def bcast_start_def)

lemma split_at_two:
  "strings_Split c s = [p, a] \<longleftrightarrow> c \<notin> set p \<and> c \<notin> set a \<and> s = p @ c # a"
proof
  assume "strings_Split c s = [p, a]"
  with Join_Split [of c s] Split_pieces [of _ c s] show "c \<notin> set p \<and> c \<notin> set a \<and> s = p @ c # a" by auto
next
  assume "c \<notin> set p \<and> c \<notin> set a \<and> s = p @ c # a"
  then show "strings_Split c s = [p, a]" by (simp add: Split_append_sep Split_no_sep)
qed

text \<open>
  The format of an address: \<^verbatim>\<open>XDial\<close> dials what \<^verbatim>\<open>protocol@addr\<close> says, over HTTP for the
  protocol \<^verbatim>\<open>http\<close>, and fails without dialling exactly when the address does not have one at
  sign.
\<close>

theorem XDial_format:
  "(\<exists>p a. CHR ''@'' \<notin> set p \<and> CHR ''@'' \<notin> set a \<and> rpcAddr = p @ ''@'' @ a \<and>
      XDial ops rpcAddr opt w =
        (if p = ''http'' then op_DialHTTP ops ''tcp'' a opt w else op_Dial ops p a opt w)) \<or>
   (\<not> (\<exists>p a. CHR ''@'' \<notin> set p \<and> CHR ''@'' \<notin> set a \<and> rpcAddr = p @ ''@'' @ a) \<and>
      (\<exists>err. XDial ops rpcAddr opt w = (Returns (Inl err), w)))"
proof (cases "\<exists>p a. strings_Split (CHR ''@'') rpcAddr = [p, a]")
  case True
  then obtain p a where pa: "strings_Split (CHR ''@'') rpcAddr = [p, a]" by blast
  with split_at_two [of "CHR ''@''" rpcAddr p a] show ?thesis by (auto simp: XDial_def)
next
  case False
  then have "\<exists>err. XDial ops rpcAddr opt w = (Returns (Inl err), w)"
    by (auto simp: XDial_def split: list.split)
  moreover have "\<not> (\<exists>p a. CHR ''@'' \<notin> set p \<and> CHR ''@'' \<notin> set a \<and> rpcAddr = p @ ''@'' @ a)"
    using False split_at_two [of "CHR ''@''" rpcAddr] by auto
  ultimately show ?thesis by blast
qed

end
