(* ===== verification/RpcDemo.thy ===== *)
theory RpcDemo
  imports RpcSystem XClient
begin

text \<open>
  The program \<^verbatim>\<open>GeeRPC/main.go\<close>: a service with two methods, two servers that announce themselves to a
  registry, and clients that call and broadcast.  Sockets, the waiting for goroutines and the text of
  the servers' own log are left out.
\<close>

section \<open>The service\<close>

record Args =
  Num1 :: int64
  Num2 :: int64

definition Foo_Sum :: "Args \<Rightarrow> error + int64" where
  "Foo_Sum args = Inr (Num1 args + Num2 args)"

text \<open>A duration is a 64-bit number of nanoseconds; a sleep of a negative one ends at once.\<close>

definition time_Second :: int64 where
  "time_Second = 1000000000"

definition sleep_duration :: "Args \<Rightarrow> int64" where
  "sleep_duration args = Num1 args * time_Second"

definition Foo_Sleep :: "Args \<Rightarrow> int \<Rightarrow> (error + int64) \<times> int" where
  "Foo_Sleep args now = (Inr (Num1 args + Num2 args), now + max 0 (sint (sleep_duration args)))"

text \<open>What goes over a connection of the program: arguments, replies and the empty struct.\<close>

datatype demo_value = VArgs Args | VReply int64 | VEmpty

definition read_args :: "demo_value message \<Rightarrow> error + Args" where
  "read_args m = (case m of MBody (VArgs a) \<Rightarrow> Inr a | _ \<Rightarrow> Inl ''gob: type mismatch'')"

definition read_reply :: "demo_value message \<Rightarrow> error + demo_value" where
  "read_reply m = (case m of MBody (VReply r) \<Rightarrow> Inr (VReply r) | _ \<Rightarrow> Inl ''gob: type mismatch'')"

definition foo_result :: "error + int64 \<Rightarrow> error + demo_value" where
  "foo_result res = (case res of Inl err \<Rightarrow> Inl err | Inr r \<Rightarrow> Inr (VReply r))"

text \<open>The methods of a pointer to \<^verbatim>\<open>Foo\<close>, as reflection lists them.\<close>

definition args_type :: go_type where
  "args_type = GoType ''Args'' ''main'' False Other_kind None"

definition int_pointer :: go_type where
  "int_pointer = GoType [] [] False Ptr_kind (Some (GoType ''int'' [] False Other_kind None))"

definition demo_methods :: "reflect_method list" where
  "demo_methods =
     (let foo = GoType [] [] False Ptr_kind (Some (GoType ''Foo'' ''main'' False Other_kind None));
          err = GoType ''error'' [] True Other_kind None
      in map (\<lambda>name. \<lparr>rm_Name = name, rm_In = [foo, args_type, int_pointer], rm_Out = [err]\<rparr>) [''Sleep'', ''Sum''])"

definition demo_impl :: "string \<Rightarrow> (demo_value, Args) methodType" where
  "demo_impl name =
     \<lparr>mt_ArgType = args_type, mt_ReplyType = int_pointer, mt_decode = read_args,
      mt_func = (\<lambda>a. foo_result (if name = ''Sum'' then Foo_Sum a else fst (Foo_Sleep a 0))),
      mt_numCalls = 0\<rparr>"

section \<open>Servers\<close>

text \<open>
  A server that listens at \<open>lis\<close>: \<^term>\<open>None\<close> is the end of the process; the second component is the
  address that its heartbeats announce.
\<close>

definition startServer :: "string \<Rightarrow> ((demo_value, Args) server \<times> string) option" where
  "startServer lis =
     (case newService demo_impl ''Foo'' demo_methods of
        None \<Rightarrow> None
      | Some f \<Rightarrow>
          (case server_Register f NewServer of
             (Some err, _) \<Rightarrow> None
           | (None, server) \<Rightarrow> Some (server, ''tcp@'' @ lis)))"

section \<open>Clients\<close>

text \<open>The line that \<^verbatim>\<open>foo\<close> logs.\<close>

definition foo_line :: "string \<Rightarrow> string \<Rightarrow> Args \<Rightarrow> error + int64 \<Rightarrow> string" where
  "foo_line typ serviceMethod args res =
     typ @ '' '' @ serviceMethod @
       (case res of
          Inl err \<Rightarrow> '' error: '' @ err
        | Inr reply \<Rightarrow>
            '' success: '' @ strconv_Itoa (sint (Num1 args)) @ '' + '' @ strconv_Itoa (sint (Num2 args)) @
            '' = '' @ strconv_Itoa (sint reply))"

text \<open>The variable of the reply is 0 until it is set.\<close>

definition broadcast_reply :: "error option \<times> int64 option \<Rightarrow> error + int64" where
  "broadcast_reply = (\<lambda>(err, reply).
     case err of Some e \<Rightarrow> Inl e | None \<Rightarrow> Inr (case reply of None \<Rightarrow> 0 | Some r \<Rightarrow> r))"

text \<open>\<open>xcall\<close> and \<open>xbroadcast\<close> are the two methods of the client, applied to their context.\<close>

definition foo ::
  "(string \<Rightarrow> Args \<Rightarrow> (error + int64, 's) action) \<Rightarrow>
   (string \<Rightarrow> Args \<Rightarrow> (error option \<times> int64 option, 's) action) \<Rightarrow>
   string \<Rightarrow> string \<Rightarrow> Args \<Rightarrow> (string, 's) action"
where
  "foo xcall xbroadcast typ serviceMethod args s =
     and_then
       (if typ = ''call'' then xcall serviceMethod args s
        else if typ = ''broadcast'' then
          and_then (xbroadcast serviceMethod args s) (\<lambda>res s1. (Returns (broadcast_reply res), s1))
        else (Returns (Inr 0), s))
       (\<lambda>res s1. (Returns (foo_line typ serviceMethod args res), s1))"

text \<open>
  The arguments of the \<open>i\<close>-th goroutine, and what the goroutines do: the kind of call, the method, the
  arguments and the time limit of the context in nanoseconds.
\<close>

definition job :: "nat \<Rightarrow> Args" where
  "job i = \<lparr>Num1 = of_nat i, Num2 = of_nat i * of_nat i\<rparr>"

type_synonym foo_call = "string \<times> string \<times> Args \<times> int64 option"

definition call_jobs :: "foo_call list list" where
  "call_jobs = map (\<lambda>i. [(''call'', ''Foo.Sum'', job i, None)]) [0..<5]"

definition broadcast_jobs :: "foo_call list list" where
  "broadcast_jobs =
     map (\<lambda>i. [(''broadcast'', ''Foo.Sum'', job i, None),
               (''broadcast'', ''Foo.Sleep'', job i, Some (time_Second * 2))]) [0..<5]"

section \<open>Properties\<close>

text \<open>
  Calls on one connection to a server that was started, each with its method and its arguments; and the
  goroutines of \<^verbatim>\<open>call\<close> on it.
\<close>

definition demo_system :: "(demo_value, Args) server \<Rightarrow> (call_no \<Rightarrow> string \<times> Args) \<Rightarrow> (demo_value, Args) rpc_setup" where
  "demo_system server jobs =
     \<lparr>su_server = server, su_as_header = (\<lambda>_. None), su_invalid = VEmpty, su_method = (\<lambda>k. fst (jobs k)),
      su_args = (\<lambda>k. VArgs (snd (jobs k))), su_read = read_reply, su_errorf = (\<lambda>e. e), su_limited = False, su_limit = []\<rparr>"

definition demo_setup :: "(demo_value, Args) server \<Rightarrow> (demo_value, Args) rpc_setup" where
  "demo_setup server = demo_system server (\<lambda>k. (''Foo.Sum'', job k))"

lemma startServer_methods:
  "\<exists>server. startServer lis = Some (server, ''tcp@'' @ lis) \<and>
     (\<exists>svc. findService ''Foo.Sum'' server = Inr (svc, demo_impl ''Sum''))"
proof -
  let ?svc = "\<lparr>svc_name = ''Foo'', svc_method = registerMethods demo_impl demo_methods\<rparr>"
  have "startServer lis = Some ([''Foo'' \<mapsto> ?svc], ''tcp@'' @ lis)"
    by (simp add: startServer_def newService_def IsExported_def server_Register_def NewServer_def)
  moreover have "registerMethods demo_impl demo_methods ''Sum'' = Some (demo_impl ''Sum'')"
    by (simp add: registerMethods_find demo_methods_def suitable_method_def isExportedOrBuiltinType_def
        IsExported_def args_type_def int_pointer_def new_method_def demo_impl_def Let_def)
  then have "findService ''Foo.Sum'' [''Foo'' \<mapsto> ?svc] = Inr (?svc, demo_impl ''Sum'')"
    using findService_split [of "''Sum''" "''Foo''" "[''Foo'' \<mapsto> ?svc]"] by simp
  ultimately show ?thesis by blast
qed

lemma startServer_found:
  assumes "startServer lis = Some (server, addr)"
  obtains svc where "findService ''Foo.Sum'' server = Inr (svc, demo_impl ''Sum'')"
  using assms startServer_methods [of lis] by auto

lemma demo_allocates: "allocates (demo_impl name)"
  by (simp add: allocates_def newArgv_def newReplyv_def type_Elem_def demo_impl_def args_type_def int_pointer_def)

lemma job_numbers: "k < 5 \<Longrightarrow> sint (Num1 (job k)) = int k" "k < 5 \<Longrightarrow> sint (Num2 (job k)) = int (k * k)"
  "k < 5 \<Longrightarrow> sint (Num1 (job k) + Num2 (job k)) = int (k + k * k)"
  by (auto simp: job_def less_Suc_eq numeral_eq_Suc)

text \<open>An answered call of \<^verbatim>\<open>Foo.Sum\<close>, whatever else is called on the connection, gives the sum.\<close>

lemma demo_sum_answer:
  assumes "startServer lis = Some (server, addr)" and "sys_reachable (demo_system server jobs) s"
    and "cl_registered (sy_client s) < 2 ^ 64" and "cl_phase (sy_client s) k = Returned None"
    and "jobs k = (''Foo.Sum'', args)"
  shows "call_Reply (cl_calls (sy_client s) k) = Some (VReply (Num1 args + Num2 args))"
proof -
  have hdr: "su_as_header (demo_system server jobs) (su_args (demo_system server jobs) i) = None" for i
    by (simp add: demo_system_def)
  obtain b x where b: "rpc_answer (demo_system server jobs) k = ([], b)" "su_read (demo_system server jobs) (MBody b) = Inr x"
    "call_Reply (cl_calls (sy_client s) k) = Some x"
    by (rule remote_call_result [OF assms(2,3) hdr assms(4)])
  obtain svc where "findService ''Foo.Sum'' server = Inr (svc, demo_impl ''Sum'')"
    using assms(1) by (rule startServer_found)
  with b(1) have "b = VReply (Num1 args + Num2 args)"
    by (simp add: rpc_answer_def demo_system_def assms(5) demo_impl_def read_args_def service_call_def foo_result_def Foo_Sum_def)
  with b(2,3) show ?thesis by (simp add: demo_system_def read_reply_def)
qed

text \<open>
  C28: every goroutine of the demo that gets an answer logs the right sum, whatever the interleaving of
  the calls on a connection, and however the connection fails.
\<close>

theorem demo_calls_log_sums:
  assumes "startServer lis = Some (server, addr)" and "sys_reachable (demo_setup server) s"
    and "cl_registered (sy_client s) < 2 ^ 64" and "k < 5" and "cl_phase (sy_client s) k = Returned None"
  shows "\<exists>r. call_Reply (cl_calls (sy_client s) k) = Some (VReply r) \<and>
    foo_line ''call'' ''Foo.Sum'' (job k) (Inr r) =
      ''call Foo.Sum success: '' @ strconv_Itoa (int k) @ '' + '' @ strconv_Itoa (int (k * k)) @ '' = '' @
      strconv_Itoa (int (k + k * k))"
proof -
  have "call_Reply (cl_calls (sy_client s) k) = Some (VReply (Num1 (job k) + Num2 (job k)))"
    using demo_sum_answer [OF assms(1) assms(2) [unfolded demo_setup_def] assms(3,5)] by simp
  with job_numbers [OF assms(4)] show ?thesis by (simp add: foo_line_def del: of_nat_mult of_nat_add)
qed

lemma small_numbers: "strconv_Itoa 0 = ''0''" "strconv_Itoa 2 = ''2''" "strconv_Itoa 4 = ''4''"
  by code_simp+

lemma demo_call_runs:
  "\<exists>server s. startServer ''host:1234'' = Some (server, ''tcp@host:1234'') \<and> sys_reachable (demo_setup server) s \<and>
     cl_registered (sy_client s) < 2 ^ 64 \<and> cl_phase (sy_client s) 0 = Returned None \<and>
     call_Reply (cl_calls (sy_client s) 0) = Some (VReply 0)"
proof -
  obtain server svc where srv: "startServer ''host:1234'' = Some (server, ''tcp@'' @ ''host:1234'')"
      "findService ''Foo.Sum'' server = Inr (svc, demo_impl ''Sum'')"
    using startServer_methods [of "''host:1234''"] by blast
  let ?u = "demo_setup server" and ?v = "VReply 0"
  have f: "findService (su_method ?u 0) (su_server ?u) = Inr (svc, demo_impl ''Sum'')"
    "mt_decode (demo_impl ''Sum'') (MBody (su_args ?u 0)) = Inr (job 0)" "mt_func (demo_impl ''Sum'') (job 0) = Inr ?v"
    "su_read ?u (MBody ?v) = Inr ?v" "su_errorf ?u = (\<lambda>e. e)"
    using srv(2)
    by (simp_all add: demo_setup_def demo_system_def demo_impl_def read_args_def foo_result_def Foo_Sum_def read_reply_def job_def)
  let ?c = "set_phase 0 (Returned None) (recv_body (\<lambda>e. e) 1 [] (Some 0) (Inr ?v) (recv_header 1 []
    (send_end 0 1 None (send_begin 0 (set_phase 0 Sending newClientCodec))))) :: demo_value rpc_client"
  obtain work where reach: "sys_reachable ?u (sys_at ?c [] [] [] [] work)"
    using one_call_runs [OF f(1) demo_allocates f(2-4)] f(5) by metis
  moreover have "cl_registered (sy_client (sys_at ?c [] [] [] [] work)) < 2 ^ 64"
    "cl_phase (sy_client (sys_at ?c [] [] [] [] work)) 0 = Returned None"
    "call_Reply (cl_calls (sy_client (sys_at ?c [] [] [] [] work)) 0) = Some (VReply 0)"
    by (simp_all add: sys_at_def example_defs)
  ultimately show ?thesis using srv(1) by (intro exI [of _ server] exI [of _ "sys_at ?c [] [] [] [] work"]) simp
qed

theorem demo_calls_log_sums_witness:
  "\<exists>server s r. startServer ''host:1234'' = Some (server, ''tcp@host:1234'') \<and> sys_reachable (demo_setup server) s \<and>
     cl_phase (sy_client s) 0 = Returned None \<and> call_Reply (cl_calls (sy_client s) 0) = Some (VReply r) \<and>
     foo_line ''call'' ''Foo.Sum'' (job 0) (Inr r) = ''call Foo.Sum success: 0 + 0 = 0''"
proof -
  from demo_call_runs obtain server s where s: "startServer ''host:1234'' = Some (server, ''tcp@host:1234'')"
    "sys_reachable (demo_setup server) s" "cl_registered (sy_client s) < 2 ^ 64"
    "cl_phase (sy_client s) 0 = Returned None" by blast
  from demo_calls_log_sums [OF s(1-3) _ s(4)] s show ?thesis
    by (intro exI [of _ server] exI [of _ s]) (auto simp: small_numbers)
qed

text \<open>
  The address that a server announces is one that clients dial over TCP.
\<close>

lemma announced_address_dials:
  assumes "startServer lis = Some (server, addr)" and "CHR ''@'' \<notin> set lis"
  shows "XDial ops addr opt w = op_Dial ops ''tcp'' lis opt w"
proof -
  have "addr = ''tcp'' @ CHR ''@'' # lis" using assms(1) startServer_methods [of lis] by auto
  moreover have "strings_Split (CHR ''@'') (''tcp'' @ CHR ''@'' # lis) = [''tcp'', lis]"
    by (subst Split_append_sep) (simp_all add: Split_no_sep [OF assms(2)])
  ultimately show ?thesis by (simp add: XDial_def)
qed

text \<open>
  A broadcast of the demo to two servers that both compute the sum is logged as an error when the
  second goroutine notices the cancellation that follows the first success; and a broadcast to no
  servers is logged as a success, with the sum 0.
\<close>

lemma demo_broadcast_cancelled:
  "foo_line ''broadcast'' ''Foo.Sum'' (job i)
     (broadcast_reply (Broadcast (Inr [(Foo_Sum (job i), False), (Foo_Sum (job i), True)]) True)) =
   ''broadcast Foo.Sum error: rpc client: call failed:context canceled''"
  by (simp add: Broadcast_def bcast_start_def bcast_result_def bcast_finish_def Foo_Sum_def cancel_error_def
      broadcast_reply_def foo_line_def Let_def)

lemma demo_broadcast_to_nobody:
  "foo_line ''broadcast'' ''Foo.Sum'' (job 2) (broadcast_reply (Broadcast (Inr []) True)) =
   ''broadcast Foo.Sum success: 2 + 4 = 0''"
  by (simp add: Broadcast_def bcast_start_def broadcast_reply_def foo_line_def job_def small_numbers)

text \<open>
  Only the jobs 3 and 4 sleep for longer than the limit of their context, and job 2 exactly as long.
\<close>

lemma sleeps_over_limit:
  "map (\<lambda>i. (sint (time_Second * 2) < sint (sleep_duration (job i)), sint (sleep_duration (job i)) = sint (time_Second * 2)))
     [0..<5] = [(False, False), (False, False), (False, True), (True, False), (True, False)]"
  by (simp add: upt_rec sleep_duration_def job_def time_Second_def)

end
