(* ===== verification/RpcDebug.thy ===== *)
theory RpcDebug
  imports RpcServer Registry
begin

text \<open>
  Package \<^verbatim>\<open>geerpc\<close>, \<^verbatim>\<open>debug.go\<close> and the functions \<^verbatim>\<open>HandleHTTP\<close> of \<^verbatim>\<open>server.go\<close> and
  \<^verbatim>\<open>registry.go\<close>: the page that shows the services with the calls of their methods, and the
  registration of the handlers with the default HTTP server.
\<close>

section \<open>The page\<close>

record ('b, 'a) debugService =
  dbg_Name :: string
  dbg_Method :: "string \<Rightarrow> ('b, 'a) methodType option"

text \<open>\<open>order\<close> is the order in which \<^verbatim>\<open>Range\<close> goes through the names of the services.\<close>

definition debug_services :: "string list \<Rightarrow> ('b, 'a) server \<Rightarrow> ('b, 'a) debugService list" where
  "debug_services order srv =
     List.map_filter (\<lambda>name. map_option (\<lambda>svc. \<lparr>dbg_Name = name, dbg_Method = svc_method svc\<rparr>) (srv name)) order"

text \<open>What \<^verbatim>\<open>html/template\<close> makes of a text between tags.\<close>

definition html_escape_char :: "char \<Rightarrow> string" where
  "html_escape_char c =
     (if c = CHR ''&'' then ''&amp;'' else if c = CHR ''<'' then ''&lt;'' else if c = CHR ''>'' then ''&gt;''
      else if c = CHR 0x22 then ''&#34;'' else if c = CHR 0x27 then ''&#39;'' else if c = CHR ''+'' then ''&#43;''
      else [c])"

definition html_escape :: "string \<Rightarrow> string" where
  "html_escape s = concat (map html_escape_char s)"

text \<open>A line of the template, with its number of tabs.\<close>

definition line :: "nat \<Rightarrow> string \<Rightarrow> string" where
  "line n s = CHR 0x0A # replicate n (CHR 0x09) @ s"

text \<open>
  The template of the page; the methods of a service come in the order of their names.
  \<open>type_string\<close> gives the name that reflection prints for a type.
\<close>

definition debug_method :: "(go_type \<Rightarrow> string) \<Rightarrow> string \<Rightarrow> ('b, 'a) methodType \<Rightarrow> string" where
  "debug_method type_string name m =
     line 3 ''<tr>'' @
     line 3 (''<td align=left font=fixed>'' @ html_escape name @ ''('' @ html_escape (type_string (mt_ArgType m)) @
       '', '' @ html_escape (type_string (mt_ReplyType m)) @ '') error</td>'') @
     line 3 (''<td align=center>'' @ strconv_Itoa (uint (NumCalls m)) @ ''</td>'') @
     line 3 ''</tr>'' @ line 2 []"

definition debug_service_methods :: "('b, 'a) debugService \<Rightarrow> (string \<times> ('b, 'a) methodType) list" where
  "debug_service_methods s =
     map (\<lambda>name. (name, the (dbg_Method s name))) (sorted_list_of_set (dom (dbg_Method s)))"

definition debug_service :: "(go_type \<Rightarrow> string) \<Rightarrow> ('b, 'a) debugService \<Rightarrow> string" where
  "debug_service type_string s =
     line 1 ''<hr>'' @
     line 1 (''Service '' @ html_escape (dbg_Name s)) @
     line 1 ''<hr>'' @
     line 2 ''<table>'' @
     line 2 ''<th align=center>Method</th><th align=center>Calls</th>'' @
     line 2 [] @ concat (map (\<lambda>(name, m). debug_method type_string name m) (debug_service_methods s)) @
     line 2 ''</table>'' @ line 1 []"

definition debugText :: "(go_type \<Rightarrow> string) \<Rightarrow> ('b, 'a) debugService list \<Rightarrow> string" where
  "debugText type_string services =
     ''<html>'' @ line 1 ''<body>'' @ line 1 ''<title>GeeRPC Services</title>'' @ line 1 [] @
     concat (map (debug_service type_string) services) @
     line 1 ''</body>'' @ line 1 ''</html>''"

text \<open>The execution of the template fails only when a write fails, after some bytes.\<close>

definition debug_ServeHTTP ::
  "(go_type \<Rightarrow> string) \<Rightarrow> string list \<Rightarrow> (nat \<times> error) option \<Rightarrow> ('b, 'a) server \<Rightarrow> bytes" where
  "debug_ServeHTTP type_string order fails srv =
     (let page = debugText type_string (debug_services order srv)
      in case fails of
           None \<Rightarrow> page
         | Some (n, err) \<Rightarrow> take n page @ ''rpc: error executing template: '' @ err @ [CHR 0x0A])"

section \<open>Registration of the handlers\<close>

datatype http_handler = Rpc_handler | Debug_handler | Registry_handler

type_synonym serve_mux = "string \<Rightarrow> http_handler option"

text \<open>\<^verbatim>\<open>http.Handle\<close> panics for a path that has a handler.\<close>

definition http_Handle :: "string \<Rightarrow> http_handler \<Rightarrow> (unit, serve_mux) action" where
  "http_Handle path h mux =
     (case mux path of
        Some _ \<Rightarrow> (Panics (''http: multiple registrations for '' @ path), mux)
      | None \<Rightarrow> (Returns (), mux(path \<mapsto> h)))"

definition defaultDebugPath :: string where
  "defaultDebugPath = ''/geerpc/debug''"

definition server_HandleHTTP :: "(unit, serve_mux) action" where
  "server_HandleHTTP mux =
     and_then (http_Handle defaultRPCPath Rpc_handler mux) (\<lambda>_ mux1. http_Handle defaultDebugPath Debug_handler mux1)"

definition defaultPath :: string where
  "defaultPath = ''/geerpc/registry''"

definition registry_HandleHTTP :: "string \<Rightarrow> (unit, serve_mux) action" where
  "registry_HandleHTTP path mux = http_Handle path Registry_handler mux"

text \<open>The functions of the packages on their default server and default registry.\<close>

definition geerpc_Register :: "('b, 'a) service \<Rightarrow> ('b, 'a) server \<Rightarrow> error option \<times> ('b, 'a) server" where
  "geerpc_Register rcvr default_server = server_Register rcvr default_server"

definition geerpc_HandleHTTP :: "(unit, serve_mux) action" where
  "geerpc_HandleHTTP = server_HandleHTTP"

definition DefualtGeeRegister :: GeeRegistry where
  "DefualtGeeRegister = registry_New defaultTimeout"

definition registry_default_HandleHTTP :: "(unit, serve_mux) action" where
  "registry_default_HandleHTTP = registry_HandleHTTP defaultPath"

section \<open>Properties\<close>

text \<open>A call as the server counts it.\<close>

definition count_call :: "string \<times> string \<times> 'a \<Rightarrow> ('b, 'a) server \<Rightarrow> ('b, 'a) server" where
  "count_call = (\<lambda>(svcname, meth, arg) srv.
     case srv svcname of
       None \<Rightarrow> srv
     | Some svc \<Rightarrow>
         (case svc_method svc meth of
            None \<Rightarrow> srv
          | Some m \<Rightarrow>
              srv(svcname \<mapsto> svc\<lparr>svc_method := (svc_method svc)(meth \<mapsto> snd (service_call m arg))\<rparr>)))"

definition method_of :: "('b, 'a) server \<Rightarrow> string \<Rightarrow> string \<Rightarrow> ('b, 'a) methodType option" where
  "method_of srv svcname meth = (case srv svcname of None \<Rightarrow> None | Some svc \<Rightarrow> svc_method svc meth)"

lemma method_of_count_call:
  "method_of (count_call (s, m, arg) srv) s' m' =
     map_option (\<lambda>t. if s' = s \<and> m' = m then t\<lparr>mt_numCalls := mt_numCalls t + 1\<rparr> else t) (method_of srv s' m')"
proof (cases "method_of srv s' m'")
  case None
  then show ?thesis by (auto simp: method_of_def count_call_def split: option.splits)
next
  case (Some t)
  then show ?thesis
    by (auto simp: method_of_def count_call_def service_call_def split: option.splits)
qed

lemma method_of_calls:
  "method_of (fold count_call calls srv) s m =
     map_option (\<lambda>t. t\<lparr>mt_numCalls := mt_numCalls t + of_nat (length (filter (\<lambda>(s', m', arg). s' = s \<and> m' = m) calls))\<rparr>)
       (method_of srv s m)"
proof (induction calls arbitrary: srv)
  case Nil
  then show ?case by (cases "method_of srv s m") simp_all
next
  case (Cons c calls)
  obtain s1 m1 arg where c: "c = (s1, m1, arg)" by (cases c)
  show ?case
    unfolding fold_Cons comp_apply Cons.IH c method_of_count_call
    by (cases "method_of srv s m") (auto simp: add.assoc)
qed

text \<open>
  The page shows for every method of every service how often it has been called: in whatever order the
  services come, each of them has its name and, in the order of their names, its methods with
  their counters, which count the calls modulo the size of the counter.
\<close>

theorem debug_page_counts_calls:
  assumes "srv name = Some svc" and "svc_method svc meth = Some m" and "mt_numCalls m = 0"
    and "finite (dom (svc_method svc))" and "name \<in> set order"
  shows "\<exists>s \<in> set (debug_services order (fold count_call calls srv)). dbg_Name s = name \<and>
    (\<exists>m'. (meth, m') \<in> set (debug_service_methods s) \<and>
       NumCalls m' = of_nat (length (filter (\<lambda>(s', m', arg). s' = name \<and> m' = meth) calls)))"
proof -
  let ?srv = "fold count_call calls srv"
  let ?n = "of_nat (length (filter (\<lambda>(s', m', arg). s' = name \<and> m' = meth) calls))"
  have "method_of srv name meth = Some m" using assms(1,2) by (simp add: method_of_def)
  then have "method_of ?srv name meth = Some (m\<lparr>mt_numCalls := ?n\<rparr>)"
    using method_of_calls [of calls srv name meth] assms(3) by simp
  then obtain svc' where svc': "?srv name = Some svc'" "svc_method svc' meth = Some (m\<lparr>mt_numCalls := ?n\<rparr>)"
    by (auto simp: method_of_def split: option.splits)
  have "dom (method_of ?srv name) = dom (method_of srv name)"
    using method_of_calls [of calls srv name] by (auto simp: dom_def)
  then have "finite (dom (svc_method svc'))"
    using assms(1,4) svc'(1) by (simp add: method_of_def dom_def)
  then have "(meth, m\<lparr>mt_numCalls := ?n\<rparr>) \<in> set (debug_service_methods \<lparr>dbg_Name = name, dbg_Method = svc_method svc'\<rparr>)"
    using svc'(2) by (force simp: debug_service_methods_def)
  moreover have "\<lparr>dbg_Name = name, dbg_Method = svc_method svc'\<rparr> \<in> set (debug_services order ?srv)"
    using assms(5) svc'(1) by (force simp: debug_services_def map_filter_def image_iff)
  moreover have "NumCalls (m\<lparr>mt_numCalls := ?n\<rparr>) = ?n" by (cases m) (simp add: NumCalls_def)
  ultimately show ?thesis by (metis debugService.select_convs(1))
qed

lemma foo_methods_finite: "finite (dom (svc_method foo_service))"
  by (simp add: foo_service_def registerMethods_def foo_defs)

theorem debug_page_counts_calls_witness:
  "\<exists>s m. s \<in> set (debug_services [''Foo''] (fold count_call [(''Foo'', ''Sum'', 1), (''Foo'', ''Sum'', 2)] foo_server)) \<and>
     dbg_Name s = ''Foo'' \<and> (''Sum'', m) \<in> set (debug_service_methods s) \<and> NumCalls m = 2"
proof -
  have "svc_method foo_service ''Sum'' = Some (foo_impl ''Sum'')"
    using foo_found findService_split [of "''Sum''" "''Foo''" foo_server]
    by (simp add: foo_server_def split: option.splits)
  from debug_page_counts_calls [of foo_server "''Foo''" foo_service "''Sum''" "foo_impl ''Sum''" "[''Foo'']"
      "[(''Foo'', ''Sum'', 1), (''Foo'', ''Sum'', 2)]", OF _ this _ foo_methods_finite]
  show ?thesis by (auto simp: foo_server_def foo_impl_def)
qed

text \<open>The page of the test service, with its one method.\<close>

lemma debug_page_of_foo:
  "debug_ServeHTTP ty_Name [''Foo''] None foo_server =
     ''<html>'' @ line 1 ''<body>'' @ line 1 ''<title>GeeRPC Services</title>'' @ line 1 [] @
     line 1 ''<hr>'' @ line 1 ''Service Foo'' @ line 1 ''<hr>'' @ line 2 ''<table>'' @
     line 2 ''<th align=center>Method</th><th align=center>Calls</th>'' @ line 2 [] @
     line 3 ''<tr>'' @ line 3 ''<td align=left font=fixed>Sum(Args, ) error</td>'' @
     line 3 (''<td align=center>'' @ strconv_Itoa 0 @ ''</td>'') @ line 3 ''</tr>'' @ line 2 [] @
     line 2 ''</table>'' @ line 1 [] @ line 1 ''</body>'' @ line 1 ''</html>''"
  by (simp add: debug_ServeHTTP_def debugText_def debug_services_def map_filter_def foo_server_def foo_service_def
      registerMethods_def foo_defs debug_service_def debug_service_methods_def debug_method_def new_method_def
      foo_impl_def NumCalls_def html_escape_def html_escape_char_def)

text \<open>
  \<^verbatim>\<open>HandleHTTP\<close> registers both paths of a server once; a second call panics.
\<close>

lemma HandleHTTP_once:
  assumes "mux defaultRPCPath = None" and "mux defaultDebugPath = None"
  shows "\<exists>mux'. server_HandleHTTP mux = (Returns (), mux') \<and> mux' defaultRPCPath = Some Rpc_handler \<and>
    mux' defaultDebugPath = Some Debug_handler \<and>
    fst (server_HandleHTTP mux') = Panics ''http: multiple registrations for /geerpc''"
  using assms by (simp add: server_HandleHTTP_def http_Handle_def defaultRPCPath_def defaultDebugPath_def)

end
