(* ===== verification/RpcCluster.thy ===== *)
theory RpcCluster
  imports XClient
begin

text \<open>
  The registry, the discovery and the client of many servers put together, over time: servers announce
  themselves, several clients ask the registry, and one client calls through its discovery, which asks
  the registry only when its own list is old.  The calls of the client come one after the other; between
  two events the network may change in any way.
\<close>

section \<open>The parts and their world\<close>

text \<open>
  The world of the client is the registry and the network.  \<open>cs_Call\<close> is the call on a connection, with
  its arguments applied, and \<open>cs_net\<close> the connections with their two ways to dial.
\<close>

record ('c, 'o, 'r, 'w) call_setup =
  cs_net :: "('c, 'o, 'w) client_ops"
  cs_Call :: "'c \<Rightarrow> (error + 'r, 'w) action"
  cs_opt :: 'o
  cs_mode :: SelectMode
  cs_expiry :: int
  cs_refresh :: int
  cs_registry :: string
  cs_random :: nat

type_synonym ('c, 'o, 'w) call_state = "('c, 'o, GeeRegistryDiscovery) XClient \<times> GeeRegistry \<times> 'w"

definition on_net :: "('a, 'w) action \<Rightarrow> ('a, GeeRegistry \<times> 'w) action" where
  "on_net f = (\<lambda>(reg, w). let (out, w') = f w in (out, (reg, w')))"

definition on_registry :: "('a, GeeRegistry) action \<Rightarrow> ('a, GeeRegistry \<times> 'w) action" where
  "on_registry f = (\<lambda>(reg, w). let (out, reg') = f reg in (out, (reg', w)))"

definition world_ops :: "('c, 'o, 'w) client_ops \<Rightarrow> ('c, 'o, GeeRegistry \<times> 'w) client_ops" where
  "world_ops ops =
     \<lparr>op_IsAvailable = (\<lambda>c (reg, w). op_IsAvailable ops c w),
      op_Close = (\<lambda>c (reg, w). (reg, op_Close ops c w)),
      op_Dial = (\<lambda>network addr opt. on_net (op_Dial ops network addr opt)),
      op_DialHTTP = (\<lambda>network addr opt. on_net (op_DialHTTP ops network addr opt))\<rparr>"

definition call_at ::
  "('c, 'o, 'r, 'w) call_setup \<Rightarrow> int \<Rightarrow> nat \<Rightarrow> (error + 'r, ('c, 'o, 'w) call_state) action" where
  "call_at u now rnd =
     xc_Call (world_ops (cs_net u)) (grd_Get (\<lambda>url. on_registry (registry_transport now url)) now rnd)
       (\<lambda>c. on_net (cs_Call u c))"

definition call_start :: "('c, 'o, 'r, 'w) call_setup \<Rightarrow> 'w \<Rightarrow> ('c, 'o, 'w) call_state" where
  "call_start u w =
     (NewXClient (NewGeeRegistryDiscovery (cs_random u) (cs_registry u) (cs_refresh u)) (cs_mode u) (cs_opt u),
      registry_New (cs_expiry u), w)"

section \<open>Histories\<close>

text \<open>The events, the last one first: those of the registry, and the calls of the client.\<close>

datatype call_event = Reg_event reg_event | Call_event int nat

primrec seen_by_registry :: "call_event \<Rightarrow> reg_event" where
  "seen_by_registry (Reg_event e) = e"
| "seen_by_registry (Call_event t rnd) = Query_at t"

abbreviation registry_history :: "call_event list \<Rightarrow> reg_event list" where
  "registry_history \<equiv> map seen_by_registry"

fun registry_step :: "reg_event \<Rightarrow> GeeRegistry \<Rightarrow> GeeRegistry" where
  "registry_step (Heartbeat_at t addr) r = snd (registry_ServeHTTP t ''POST'' addr r)"
| "registry_step (Query_at t) r = snd (registry_ServeHTTP t ''GET'' [] r)"

inductive call_run :: "('c, 'o, 'r, 'w) call_setup \<Rightarrow> call_event list \<Rightarrow> ('c, 'o, 'w) call_state \<Rightarrow> bool" for u where
  run_start: "call_run u [] (call_start u w)"
| run_network: "call_run u evs (xc, reg, w) \<Longrightarrow> call_run u evs (xc, reg, w')"
| run_registry: "call_run u evs (xc, reg, w) \<Longrightarrow> call_run u (Reg_event e # evs) (xc, registry_step e reg, w)"
| run_call: "call_run u evs s \<Longrightarrow> call_at u t rnd s = (Returns res, s') \<Longrightarrow> call_run u (Call_event t rnd # evs) s'"
| run_close: "call_run u evs (xc, reg, w) \<Longrightarrow> xc_Close (world_ops (cs_net u)) (xc, reg, w) = s' \<Longrightarrow> call_run u evs s'"

section \<open>The client's view of the registry\<close>

lemma world_ops_simps [simp]:
  "op_IsAvailable (world_ops ops) c (reg, w) = op_IsAvailable ops c w"
  "op_Close (world_ops ops) c (reg, w) = (reg, op_Close ops c w)"
  by (simp_all add: world_ops_def)

lemma XDial_world: "XDial (world_ops ops) addr opt (reg, w) = on_net (XDial ops addr opt) (reg, w)"
  by (simp add: XDial_def world_ops_def on_net_def split: list.split)

lemma XDial_world_Returns:
  "XDial (world_ops ops) addr opt v = (Returns (Inr c), v') \<Longrightarrow> \<exists>w w'. XDial ops addr opt w = (Returns (Inr c), w')"
  by (cases v) (auto simp: XDial_world on_net_def split: prod.splits)

lemma xc_dial_keeps_registry:
  "xc_dial (world_ops ops) addr (xc, (reg, w)) = (out, (xc', (reg', w'))) \<Longrightarrow> reg' = reg"
  by (auto simp: xc_dial_def XDial_world on_net_def Let_def
      split: option.splits if_splits prod.splits outcome.splits sum.splits)

lemma xc_Close_keeps_registry:
  "fst (fold (\<lambda>(key, client). op_Close (world_ops ops) client) cs (reg, w)) = reg"
  by (induction cs arbitrary: w) (auto simp: world_ops_def)

lemma grd_Get_world:
  "grd_Get (\<lambda>url. on_registry (f url)) now rnd mode (d, (reg, w)) =
    (case grd_Get f now rnd mode (d, reg) of (out, (d', reg')) \<Rightarrow> (out, (d', (reg', w))))"
  by (auto simp: grd_Get_def grd_Refresh_def on_registry_def Let_def split: prod.splits outcome.splits sum.splits)

lemma last_heartbeat_in: "last_heartbeat h a = Some t \<Longrightarrow> Heartbeat_at t a \<in> set h \<and> a \<noteq> []"
  by (induction h a rule: last_heartbeat.induct) (auto split: if_splits)

lemma in_time_all: "in_time now h \<Longrightarrow> e \<in> set h \<Longrightarrow> event_time e \<le> now"
  by (auto simp: in_time_def)

definition plain_servers :: "reg_event list \<Rightarrow> bool" where
  "plain_servers h \<longleftrightarrow> (\<forall>t a. Heartbeat_at t a \<in> set h \<longrightarrow> a \<noteq> [] \<longrightarrow> plain_addr a)"

lemma registry_get:
  assumes inv: "reg_inv expiry h now reg" and "plain_servers h"
    and get: "grd_Get (registry_transport now) now rnd mode (d, reg) = (Returns target, (d', reg'))"
  shows "reg_inv expiry (Query_at now # h) now reg'" and "d_timeout d' = d_timeout d"
    and "target = Inr a \<Longrightarrow> a \<in> set (d_servers d')"
    and "d_servers d' = d_servers d \<and> d_lastUpdate d' = d_lastUpdate d \<and> now < d_lastUpdate d + d_timeout d \<or>
      d_servers d' = fst (aliveServers now reg) \<and> d_lastUpdate d' = now"
proof -
  have plain: "\<forall>a t. last_heartbeat h a = Some t \<longrightarrow> plain_addr a"
    using assms(2) last_heartbeat_in unfolding plain_servers_def by metis
  let ?due = "\<not> now < d_lastUpdate d + d_timeout d"
  have keeps: "d_servers (snd (msd_Get rnd mode D)) = d_servers D \<and> d_timeout (snd (msd_Get rnd mode D)) = d_timeout D \<and>
      d_lastUpdate (snd (msd_Get rnd mode D)) = d_lastUpdate D" for D :: GeeRegistryDiscovery
    by (simp add: msd_Get_def Let_def)
  note refresh = refresh_from_registry [OF inv plain, of d]
  from get refresh have d': "target = fst (msd_Get rnd mode (if ?due then d\<lparr>d_servers := fst (aliveServers now reg), d_lastUpdate := now\<rparr> else d))"
    "d' = snd (msd_Get rnd mode (if ?due then d\<lparr>d_servers := fst (aliveServers now reg), d_lastUpdate := now\<rparr> else d))"
    "reg' = (if ?due then snd (aliveServers now reg) else reg)"
    by (auto simp: grd_Get_def case_prod_unfold Let_def split: if_splits)
  have "reg_inv expiry (Query_at now # h) now reg" using inv by (simp add: reg_inv_def)
  with reg_inv_query [OF inv] d'(3) show "reg_inv expiry (Query_at now # h) now reg'" by simp
  show "d_timeout d' = d_timeout d" unfolding d'(2) by (simp add: keeps)
  show "target = Inr a \<Longrightarrow> a \<in> set (d_servers d')"
    using d'(1,2) msd_Get_in by (metis keeps prod.collapse)
  show "d_servers d' = d_servers d \<and> d_lastUpdate d' = d_lastUpdate d \<and> now < d_lastUpdate d + d_timeout d \<or>
      d_servers d' = fst (aliveServers now reg) \<and> d_lastUpdate d' = now"
    unfolding d'(2) by (simp add: keeps)
qed

section \<open>The invariant\<close>

text \<open>
  The servers of the discovery were alive when it last asked, and every cached connection was dialled to
  its address.
\<close>

definition refresh_period :: "('c, 'o, 'r, 'w) call_setup \<Rightarrow> int" where
  "refresh_period u = (if cs_refresh u = 0 then defaultUpdateTimeout else cs_refresh u)"

definition heard_of :: "('c, 'o, 'r, 'w) call_setup \<Rightarrow> reg_event list \<Rightarrow> int \<Rightarrow> string \<Rightarrow> bool" where
  "heard_of u h now a \<longleftrightarrow> (\<exists>beat. Heartbeat_at beat a \<in> set h \<and> beat \<le> now \<and> alive_since (cs_expiry u) now beat)"

definition dialled_to :: "('c, 'o, 'r, 'w) call_setup \<Rightarrow> string \<Rightarrow> 'c \<Rightarrow> bool" where
  "dialled_to u a c \<longleftrightarrow> (\<exists>w w'. XDial (cs_net u) a (cs_opt u) w = (Returns (Inr c), w'))"

definition client_ok :: "('c, 'o, 'r, 'w) call_setup \<Rightarrow> reg_event list \<Rightarrow> int \<Rightarrow> ('c, 'o, GeeRegistryDiscovery) XClient \<Rightarrow> bool" where
  "client_ok u h now xc \<longleftrightarrow>
     xc_opt xc = cs_opt u \<and> d_timeout (xc_d xc) = refresh_period u \<and>
     (\<forall>a \<in> set (d_servers (xc_d xc)). heard_of u h (d_lastUpdate (xc_d xc)) a \<and> d_lastUpdate (xc_d xc) \<le> now) \<and>
     (\<forall>(a, c) \<in> set (xc_clients xc). dialled_to u a c)"

lemma heard_of_more: "heard_of u h now a \<Longrightarrow> heard_of u (e # h) now a"
  by (auto simp: heard_of_def)

lemma client_ok_later: "client_ok u h now xc \<Longrightarrow> now \<le> now' \<Longrightarrow> client_ok u (e # h) now' xc"
  by (auto simp: client_ok_def intro: heard_of_more)

lemma alive_heard_of:
  assumes "reg_inv (cs_expiry u) h now reg" and "in_time now h" and "a \<in> set (fst (aliveServers now reg))"
  shows "heard_of u h now a"
proof -
  from alive_servers_spec [OF assms(1)] assms(3) obtain t where
    t: "last_heartbeat h a = Some t" "alive_since (cs_expiry u) now t" by blast
  with last_heartbeat_in [OF t(1)] in_time_all [OF assms(2)] show ?thesis by (fastforce simp: heard_of_def)
qed

text \<open>One call keeps it, and goes to a server whose heartbeat is recent.\<close>

definition recently_heard :: "('c, 'o, 'r, 'w) call_setup \<Rightarrow> reg_event list \<Rightarrow> int \<Rightarrow> string \<Rightarrow> bool" where
  "recently_heard u h now a \<longleftrightarrow>
     (\<exists>beat. Heartbeat_at beat a \<in> set h \<and> beat \<le> now \<and>
        (cs_expiry u = 0 \<or> now < beat + cs_expiry u + max 0 (refresh_period u)))"

lemma call_at_Returns:
  assumes ok: "client_ok u h now xc" and inv: "reg_inv (cs_expiry u) h now reg" and t: "in_time now h"
    and plain: "plain_servers h" and call: "call_at u now rnd (xc, (reg, w)) = (Returns res, (xc', (reg', w')))"
  shows "client_ok u (Query_at now # h) now xc'" and "reg_inv (cs_expiry u) (Query_at now # h) now reg'"
    and "res = Inr reply \<Longrightarrow>
      \<exists>addr c w0. recently_heard u h now addr \<and> dialled_to u addr c \<and> cs_Call u c w0 = (Returns (Inr reply), w')"
proof -
  from xc_Call_Returns [OF call [unfolded call_at_def]] obtain target d' w1 where
    get: "grd_Get (\<lambda>url. on_registry (registry_transport now url)) now rnd (xc_mode xc) (xc_d xc, (reg, w)) =
      (Returns target, (d', w1))"
    and rest: "case target of
       Inl err \<Rightarrow> res = Inl err \<and> xc' = xc\<lparr>xc_d := d'\<rparr> \<and> (reg', w') = w1
     | Inr addr \<Rightarrow>
         (\<exists>dialled w2. xc_dial (world_ops (cs_net u)) addr (xc\<lparr>xc_d := d'\<rparr>, w1) = (Returns dialled, (xc', w2)) \<and>
           (case dialled of
              Inl err \<Rightarrow> res = Inl err \<and> (reg', w') = w2
            | Inr c \<Rightarrow> on_net (cs_Call u c) w2 = (Returns res, (reg', w'))))"
    by blast
  obtain reg1 where w1: "w1 = (reg1, w)"
    and get1: "grd_Get (registry_transport now) now rnd (xc_mode xc) (xc_d xc, reg) = (Returns target, (d', reg1))"
    using get by (auto simp: grd_Get_world split: prod.splits)
  note g = registry_get [OF inv plain get1]
  let ?xc1 = "xc\<lparr>xc_d := d'\<rparr>"
  have ok1: "client_ok u (Query_at now # h) now ?xc1"
    using ok g(2,4) alive_heard_of [OF inv t] by (auto simp: client_ok_def intro: heard_of_more)
  have recent: "recently_heard u h now a" if "a \<in> set (d_servers d')" for a
  proof -
    from g(4) consider
        (old) "d_servers d' = d_servers (xc_d xc)" "now < d_lastUpdate (xc_d xc) + d_timeout (xc_d xc)"
      | (new) "d_servers d' = fst (aliveServers now reg)" by blast
    then show ?thesis
    proof cases
      case old
      with that ok obtain beat where "Heartbeat_at beat a \<in> set h" "beat \<le> d_lastUpdate (xc_d xc)"
        "alive_since (cs_expiry u) (d_lastUpdate (xc_d xc)) beat" "d_lastUpdate (xc_d xc) \<le> now"
        "d_timeout (xc_d xc) = refresh_period u"
        by (auto simp: client_ok_def heard_of_def)
      with old(2) show ?thesis by (auto simp: recently_heard_def alive_since_def intro!: exI [of _ beat])
    next
      case new
      with alive_heard_of [OF inv t] that show ?thesis
        by (fastforce simp: heard_of_def recently_heard_def alive_since_def)
    qed
  qed
  have "client_ok u (Query_at now # h) now xc' \<and> reg' = reg1 \<and> (res = Inr reply \<longrightarrow>
      (\<exists>addr c w0. recently_heard u h now addr \<and> dialled_to u addr c \<and> cs_Call u c w0 = (Returns (Inr reply), w')))"
  proof (cases target)
    case (Inl err)
    with rest w1 ok1 show ?thesis by simp
  next
    case (Inr addr)
    with rest w1 obtain dialled w2 where
      dial: "xc_dial (world_ops (cs_net u)) addr (?xc1, (reg1, w)) = (Returns dialled, (xc', w2))"
      and fin: "case dialled of Inl err \<Rightarrow> res = Inl err \<and> (reg', w') = w2
            | Inr c \<Rightarrow> on_net (cs_Call u c) w2 = (Returns res, (reg', w'))" by auto
    obtain w3 where w2: "w2 = (reg1, w3)" using xc_dial_keeps_registry dial by (metis prod.collapse)
    note d = xc_dial_Returns [OF dial]
    have dialled: "dialled_to u a c" if "(a, c) \<in> set (xc_clients xc')" for a c
      using d(4) [OF that] ok XDial_world_Returns by (fastforce simp: client_ok_def dialled_to_def)
    have "client_ok u (Query_at now # h) now xc'"
      using ok1 d(1,2) dialled by (auto simp: client_ok_def)
    moreover have "reg' = reg1" using fin w2 by (auto simp: on_net_def split: sum.splits prod.splits)
    moreover have "recently_heard u h now addr" using recent g(3) Inr by blast
    moreover have "\<exists>c. dialled = Inr c \<and> dialled_to u addr c \<and> cs_Call u c w3 = (Returns (Inr reply), w')"
      if "res = Inr reply"
      using that fin w2 d(5) dialled by (auto simp: on_net_def split: sum.splits prod.splits)
    ultimately show ?thesis by blast
  qed
  with g(1) show "client_ok u (Query_at now # h) now xc'" "reg_inv (cs_expiry u) (Query_at now # h) now reg'"
    "res = Inr reply \<Longrightarrow>
      \<exists>addr c w0. recently_heard u h now addr \<and> dialled_to u addr c \<and> cs_Call u c w0 = (Returns (Inr reply), w')"
    by blast+
qed

lemma registry_step_inv:
  assumes "reg_inv expiry h (event_time e) reg"
  shows "reg_inv expiry (e # h) (event_time e) (registry_step e reg)"
proof (cases e)
  case (Heartbeat_at t addr)
  with assms reg_inv_put [of expiry h t reg addr] show ?thesis
    by (cases "addr = []") (auto simp: registry_ServeHTTP_def reg_inv_def)
next
  case (Query_at t)
  with assms reg_inv_query [of expiry h t reg] show ?thesis
    by (simp add: registry_ServeHTTP_def case_prod_unfold Let_def)
qed

lemma plain_servers_Cons: "plain_servers (e # h) \<Longrightarrow> plain_servers h"
  by (simp add: plain_servers_def)

lemma call_run_inv:
  assumes "call_run u evs s" and "in_time now (registry_history evs)" and "plain_servers (registry_history evs)"
  shows "client_ok u (registry_history evs) now (fst s) \<and>
    reg_inv (cs_expiry u) (registry_history evs) now (fst (snd s))"
  using assms
proof (induction arbitrary: now rule: call_run.induct)
  case (run_start w)
  then show ?case
    by (simp add: call_start_def NewXClient_def NewGeeRegistryDiscovery_def MultiServerDiscovery.defs
        NewMultiServerDiscovery_def client_ok_def refresh_period_def reg_inv_def registry_New_def)
next
  case (run_registry evs xc reg w e)
  have e: "event_time e \<le> now" "in_time (event_time e) (registry_history evs)"
    using in_time_Cons [of now e] run_registry.prems(1) by simp_all
  from run_registry.IH [OF e(2)] run_registry.prems(2)
  have ok: "client_ok u (registry_history evs) (event_time e) xc"
    "reg_inv (cs_expiry u) (registry_history evs) (event_time e) reg" by (simp_all add: plain_servers_Cons)
  from client_ok_later [OF ok(1) e(1)] reg_inv_later [OF registry_step_inv [OF ok(2)] e(1)] show ?case by simp
next
  case (run_call evs s t rnd res s')
  have t: "t \<le> now" "in_time t (registry_history evs)"
    using in_time_Cons [of now "Query_at t"] run_call.prems(1) by simp_all
  have plain: "plain_servers (registry_history evs)" using run_call.prems(2) by (simp add: plain_servers_Cons)
  obtain xc reg w where s: "s = (xc, (reg, w))" by (cases s) auto
  obtain xc' reg' w' where s': "s' = (xc', (reg', w'))" by (cases s') auto
  from run_call.IH [OF t(2) plain] s have ok: "client_ok u (registry_history evs) t xc"
    "reg_inv (cs_expiry u) (registry_history evs) t reg" by simp_all
  note c = call_at_Returns [OF ok t(2) plain run_call.hyps(2) [unfolded s s']]
  from c(1) t(1) have "client_ok u (Query_at t # registry_history evs) now xc'"
    by (auto simp: client_ok_def)
  with reg_inv_later [OF c(2) t(1)] s' show ?case by simp
next
  case (run_close evs xc reg w s')
  then show ?case
    using xc_Close_keeps_registry [of "cs_net u" "xc_clients xc" reg w]
    by (auto simp: xc_Close_def client_ok_def)
qed simp

section \<open>Properties\<close>

text \<open>
  C22: a call that is answered was answered over a connection to a server that has announced itself, and
  not too long ago: at the time of the call, less than the expiry of the registry and the refresh period
  of the discovery together have passed since its last heartbeat that the registry took, in every history
  of heartbeats, queries of others, calls, closings, and changes of the network.  A server that stops its
  heartbeats is called for at most that long.
\<close>

theorem calls_reach_live_servers:
  assumes "call_run u evs s" and "in_time now (registry_history evs)" and "plain_servers (registry_history evs)"
    and "call_at u now rnd s = (Returns (Inr reply), s')" and "cs_expiry u \<noteq> 0"
  shows "\<exists>addr beat c w. Reg_event (Heartbeat_at beat addr) \<in> set evs \<and> beat \<le> now \<and>
    now < beat + cs_expiry u + max 0 (refresh_period u) \<and>
    dialled_to u addr c \<and> cs_Call u c w = (Returns (Inr reply), snd (snd s'))"
proof -
  obtain xc reg w where s: "s = (xc, (reg, w))" by (cases s) auto
  obtain xc' reg' w' where s': "s' = (xc', (reg', w'))" by (cases s') auto
  from call_run_inv [OF assms(1-3)] s have ok: "client_ok u (registry_history evs) now xc"
    "reg_inv (cs_expiry u) (registry_history evs) now reg" by simp_all
  from call_at_Returns(3) [OF ok assms(2,3) assms(4) [unfolded s s'] refl] obtain addr c w0 where
    a: "recently_heard u (registry_history evs) now addr" "dialled_to u addr c"
      "cs_Call u c w0 = (Returns (Inr reply), w')" by blast
  from a(1) obtain beat where beat: "Heartbeat_at beat addr \<in> set (registry_history evs)" "beat \<le> now"
    "now < beat + cs_expiry u + max 0 (refresh_period u)"
    using assms(5) by (auto simp: recently_heard_def)
  from beat(1) obtain e where e: "e \<in> set evs" "seen_by_registry e = Heartbeat_at beat addr" by auto
  from e(2) have "e = Reg_event (Heartbeat_at beat addr)" by (cases e) simp_all
  with e beat a(2,3) s' show ?thesis by auto
qed

text \<open>A network where each dial gives the next number, and a call answers with it.\<close>

definition counting_net :: "(nat, unit, nat) client_ops" where
  "counting_net = \<lparr>op_IsAvailable = (\<lambda>c w. True), op_Close = (\<lambda>c w. w),
     op_Dial = (\<lambda>network addr opt w. (Returns (Inr w), w + 1)),
     op_DialHTTP = (\<lambda>network addr opt w. (Returns (Inl ''down''), w))\<rparr>"

definition counting_setup :: "(nat, unit, nat, nat) call_setup" where
  "counting_setup = \<lparr>cs_net = counting_net, cs_Call = (\<lambda>c w. (Returns (Inr c), w)), cs_opt = (), cs_mode = RoundRobinSelect,
     cs_expiry = 100, cs_refresh = 10, cs_registry = ''reg'', cs_random = 0\<rparr>"

theorem calls_reach_live_servers_witness:
  "\<exists>addr beat c w. Reg_event (Heartbeat_at beat addr) \<in> set [Reg_event (Heartbeat_at 20 ''tcp@a'')] \<and> beat \<le> 25 \<and>
     25 < beat + 100 + 10 \<and> dialled_to counting_setup addr c \<and>
     cs_Call counting_setup c w = (Returns (Inr 7), 8)"
proof -
  let ?u = counting_setup and ?evs = "[Reg_event (Heartbeat_at 20 ''tcp@a'')]"
  obtain xc reg w where start: "call_start ?u 7 = (xc, (reg, w))" by (cases "call_start ?u 7") auto
  let ?s = "(xc, (registry_step (Heartbeat_at 20 ''tcp@a'') reg, w))"
  have run: "call_run ?u ?evs ?s"
    by (rule run_registry) (use run_start [of ?u 7] start in simp)
  let ?reg = "\<lparr>reg_timeout = 100, reg_servers = [(''tcp@a'', \<lparr>item_Addr = ''tcp@a'', item_start = 20\<rparr>)]\<rparr>"
  let ?d = "NewGeeRegistryDiscovery 0 ''reg'' 10"
  have s: "?s = (NewXClient ?d RoundRobinSelect (), (?reg, 7))"
    using start by (auto simp: call_start_def counting_setup_def registry_ServeHTTP_def registry_New_def putServer_def)
  have split: "strings_Split (CHR '','') ''tcp@a'' = [''tcp@a'']" "strings_Split (CHR ''@'') ''tcp@a'' = [''tcp'', ''a'']"
    "strings_TrimSpace ''tcp@a'' = ''tcp@a''"
    by code_simp+
  have transport: "registry_transport 25 ''reg'' ?reg = (Returns (Inr ''tcp@a''), ?reg)"
    by (simp add: registry_transport_def registry_ServeHTTP_def aliveServers_def alive_item_def insort_key.simps)
  have parsed: "parse_servers ''tcp@a'' = [''tcp@a'']" by (simp add: parse_servers_def split)
  let ?d1 = "?d\<lparr>d_servers := [''tcp@a''], d_lastUpdate := 25\<rparr>"
  have "grd_Refresh (\<lambda>url. on_registry (registry_transport 25 url)) 25 (?d, (?reg, 7 :: nat)) = (Returns None, (?d1, (?reg, 7 :: nat)))"
    by (simp add: grd_Refresh_def on_registry_def NewGeeRegistryDiscovery_def MultiServerDiscovery.defs transport parsed)
  moreover have "fst (msd_Get 0 RoundRobinSelect ?d1) = Inr ''tcp@a''"
    by (simp add: msd_Get_def RoundRobinSelect_def RandomSelect_def)
  ultimately have get: "grd_Get (\<lambda>url. on_registry (registry_transport 25 url)) 25 0 RoundRobinSelect (?d, (?reg, 7 :: nat)) =
      (Returns (Inr ''tcp@a''), (snd (msd_Get 0 RoundRobinSelect ?d1), (?reg, 7 :: nat)))"
    by (simp only: grd_Get_def and_then.simps prod.case option.case case_prod_unfold Let_def fst_conv snd_conv)
  have "xc_dial (world_ops counting_net) ''tcp@a'' (XC, (R, 7)) =
      (Returns (Inr 7), (XC\<lparr>xc_clients := [(''tcp@a'', 7)]\<rparr>, (R, 8)))"
    if "xc_clients XC = []" for XC :: "(nat, unit, GeeRegistryDiscovery) XClient" and R
    using that by (simp add: xc_dial_def XDial_def world_ops_def on_net_def split counting_net_def)
  then have "\<exists>s'. call_at ?u 25 0 ?s = (Returns (Inr 7), s') \<and> snd (snd s') = 8"
    unfolding s by (simp add: call_at_def counting_setup_def xc_Call_def xc_call_def NewXClient_def get on_net_def)
  then obtain s' where call: "call_at ?u 25 0 ?s = (Returns (Inr 7), s')" "snd (snd s') = 8" by blast
  have "in_time 25 (registry_history ?evs)" "plain_servers (registry_history ?evs)"
    by (simp_all add: in_time_def plain_servers_def plain_addr_def strings_TrimSpace_def is_space_def)
  from calls_reach_live_servers [OF run this call(1)] call(2) show ?thesis
    by (simp add: counting_setup_def refresh_period_def)
qed

end
