(* ===== verification/XBroadcast.thy ===== *)
theory XBroadcast
  imports RpcCluster
begin

text \<open>
  \<^verbatim>\<open>XClient.Broadcast\<close> of \<^verbatim>\<open>xclient.go\<close> with its goroutines: each dials its server through the shared cache
  of connections, calls over its connection, and then takes the mutex to report.  A transition system
  with one step for each part that holds a mutex, so that a run is an interleaving of the goroutines; the
  function \<open>Broadcast\<close> of \<open>XClient\<close> is what remains of a run when only the order of the reports is kept.
\<close>

section \<open>Goroutines\<close>

text \<open>
  Where a goroutine is: before its call of \<^verbatim>\<open>dial\<close>, in \<^verbatim>\<open>client.Call\<close> on a connection, in front of the
  mutex with its result, or done, when the result is kept for the record.
\<close>

datatype ('c, 'r) bc_phase = To_dial | Calling 'c | To_report "error + 'r" | Reported "error + 'r"

text \<open>
  \<open>bc_ctx\<close> is the error of the context, once it is done: it is cancelled by the broadcast, or the deadline
  that the caller gave passes first.
\<close>

record ('c, 'o, 'r, 'd, 'w) bc_state =
  bc_client :: "('c, 'o, 'd) XClient"
  bc_world :: 'w
  bc_phase :: "nat \<Rightarrow> ('c, 'r) bc_phase"
  bc_shared :: "'r broadcast"
  bc_ctx :: "error option"

definition ctx_Canceled :: error where
  "ctx_Canceled = ''context canceled''"

definition ctx_DeadlineExceeded :: error where
  "ctx_DeadlineExceeded = ''context deadline exceeded''"

text \<open>What does not change: the servers and the arguments of the broadcast, the deadline, the connections.\<close>

record ('c, 'o, 'r, 'w) bc_setup =
  bc_ops :: "('c, 'o, 'w) client_ops"
  bc_Call :: "'c \<Rightarrow> (error + 'r, 'w) action"
  bc_servers :: "string list"
  bc_has_reply :: bool
  bc_deadline :: bool

definition bc_start :: "('c, 'o, 'r, 'w) bc_setup \<Rightarrow> ('c, 'o, 'd) XClient \<Rightarrow> 'w \<Rightarrow> ('c, 'o, 'r, 'd, 'w) bc_state" where
  "bc_start u xc w =
     \<lparr>bc_client = xc, bc_world = w, bc_phase = (\<lambda>_. To_dial), bc_shared = bcast_start (bc_has_reply u), bc_ctx = None\<rparr>"

definition bc_goto :: "nat \<Rightarrow> ('c, 'r) bc_phase \<Rightarrow> ('c, 'o, 'r, 'd, 'w) bc_state \<Rightarrow> ('c, 'o, 'r, 'd, 'w) bc_state" where
  "bc_goto i ph s = s\<lparr>bc_phase := (bc_phase s)(i := ph)\<rparr>"

text \<open>The part under the mutex \<^verbatim>\<open>mu\<close>: the cancellation takes effect if the context is not done yet.\<close>

definition bc_report :: "nat \<Rightarrow> error + 'r \<Rightarrow> ('c, 'o, 'r, 'd, 'w) bc_state \<Rightarrow> ('c, 'o, 'r, 'd, 'w) bc_state" where
  "bc_report i res s =
     (let b = bcast_finish res (bc_shared s)
      in bc_goto i (Reported res)
           (s\<lparr>bc_shared := b,
              bc_ctx := (case bc_ctx s of None \<Rightarrow> if b_cancelled b then Some ctx_Canceled else None | Some e \<Rightarrow> Some e)\<rparr>))"

text \<open>
  What other goroutines may do to the cache of connections meanwhile, in calls, closings and broadcasts of
  their own: connections disappear, and those that appear were dialled to the address that they are for.
\<close>

definition others_may :: "('c, 'o, 'w) client_ops \<Rightarrow> ('c, 'o, 'd) XClient \<Rightarrow> ('c, 'o, 'd) XClient \<Rightarrow> bool" where
  "others_may ops xc xc' \<longleftrightarrow>
     xc_opt xc' = xc_opt xc \<and>
     (\<forall>(a, c) \<in> set (xc_clients xc').
        (a, c) \<in> set (xc_clients xc) \<or> (\<exists>w w'. XDial ops a (xc_opt xc) w = (Returns (Inr c), w')))"

inductive bc_step ::
  "('c, 'o, 'r, 'w) bc_setup \<Rightarrow> ('c, 'o, 'r, 'd, 'w) bc_state \<Rightarrow> ('c, 'o, 'r, 'd, 'w) bc_state \<Rightarrow> bool" for u where
  dials: "i < length (bc_servers u) \<Longrightarrow> bc_phase s i = To_dial \<Longrightarrow>
    xc_dial (bc_ops u) (bc_servers u ! i) (bc_client s, bc_world s) = (Returns res, (xc', w')) \<Longrightarrow>
    bc_step u s (bc_goto i (case res of Inl err \<Rightarrow> To_report (Inl err) | Inr c \<Rightarrow> Calling c)
      (s\<lparr>bc_client := xc', bc_world := w'\<rparr>))"
| answered: "bc_phase s i = Calling c \<Longrightarrow> bc_Call u c (bc_world s) = (Returns res, w') \<Longrightarrow>
    bc_step u s (bc_goto i (To_report res) (s\<lparr>bc_world := w'\<rparr>))"
| gives_up: "bc_phase s i = Calling c \<Longrightarrow> bc_ctx s = Some err \<Longrightarrow>
    bc_step u s (bc_goto i (To_report (Inl (''rpc client: call failed:'' @ err))) s)"
| reports: "bc_phase s i = To_report res \<Longrightarrow> bc_step u s (bc_report i res s)"
| deadline_passes: "bc_deadline u \<Longrightarrow> bc_ctx s = None \<Longrightarrow> bc_step u s (s\<lparr>bc_ctx := Some ctx_DeadlineExceeded\<rparr>)"
| others_use_client: "others_may (bc_ops u) (bc_client s) xc' \<Longrightarrow> bc_step u s (s\<lparr>bc_client := xc'\<rparr>)"
| network_changes: "bc_step u s (s\<lparr>bc_world := w'\<rparr>)"

inductive bc_run ::
  "('c, 'o, 'r, 'w) bc_setup \<Rightarrow> ('c, 'o, 'd) XClient \<Rightarrow> ('c, 'o, 'r, 'd, 'w) bc_state \<Rightarrow> bool" for u xc where
  bc_begin: "bc_run u xc (bc_start u xc w)"
| bc_next: "bc_run u xc s \<Longrightarrow> bc_step u s s' \<Longrightarrow> bc_run u xc s'"

inductive_cases bc_stepE: "bc_step u s s'"

text \<open>\<^verbatim>\<open>wg.Wait\<close> is over when all goroutines have reported; then the broadcast returns.\<close>

definition bc_over :: "('c, 'o, 'r, 'w) bc_setup \<Rightarrow> ('c, 'o, 'r, 'd, 'w) bc_state \<Rightarrow> bool" where
  "bc_over u s \<longleftrightarrow> (\<forall>i < length (bc_servers u). \<exists>res. bc_phase s i = Reported res)"

definition bc_returns :: "('c, 'o, 'r, 'd, 'w) bc_state \<Rightarrow> error option \<times> 'r option" where
  "bc_returns s = (b_e (bc_shared s), b_reply (bc_shared s))"

section \<open>Invariants\<close>

text \<open>
  A result that is no error came from a call on a connection that was dialled to the server of its
  goroutine, or was in the cache for it before.
\<close>

definition connected_to :: "('c, 'o, 'r, 'w) bc_setup \<Rightarrow> ('c, 'o, 'd) XClient \<Rightarrow> string \<Rightarrow> 'c \<Rightarrow> bool" where
  "connected_to u xc a c \<longleftrightarrow>
     (a, c) \<in> set (xc_clients xc) \<or> (\<exists>w w'. XDial (bc_ops u) a (xc_opt xc) w = (Returns (Inr c), w'))"

definition answers :: "('c, 'o, 'r, 'w) bc_setup \<Rightarrow> ('c, 'o, 'd) XClient \<Rightarrow> string \<Rightarrow> 'r \<Rightarrow> bool" where
  "answers u xc a r \<longleftrightarrow> (\<exists>c w w'. connected_to u xc a c \<and> bc_Call u c w = (Returns (Inr r), w'))"

fun phase_ok :: "('c, 'o, 'r, 'w) bc_setup \<Rightarrow> ('c, 'o, 'd) XClient \<Rightarrow> string \<Rightarrow> ('c, 'r) bc_phase \<Rightarrow> bool" where
  "phase_ok u xc a To_dial = True"
| "phase_ok u xc a (Calling c) = connected_to u xc a c"
| "phase_ok u xc a (To_report res) = (\<forall>r. res = Inr r \<longrightarrow> answers u xc a r)"
| "phase_ok u xc a (Reported res) = (\<forall>r. res = Inr r \<longrightarrow> answers u xc a r)"

definition bc_inv :: "('c, 'o, 'r, 'w) bc_setup \<Rightarrow> ('c, 'o, 'd) XClient \<Rightarrow> ('c, 'o, 'r, 'd, 'w) bc_state \<Rightarrow> bool" where
  "bc_inv u xc s \<longleftrightarrow>
     xc_opt (bc_client s) = xc_opt xc \<and>
     (\<forall>(a, c) \<in> set (xc_clients (bc_client s)). connected_to u xc a c) \<and>
     (\<forall>i < length (bc_servers u). phase_ok u xc (bc_servers u ! i) (bc_phase s i)) \<and>
     (\<forall>i. length (bc_servers u) \<le> i \<longrightarrow> bc_phase s i = To_dial)"

text \<open>The shared variables tell of the results that were reported.\<close>

definition reported :: "('c, 'o, 'r, 'd, 'w) bc_state \<Rightarrow> (error + 'r) set" where
  "reported s = {res. \<exists>i. bc_phase s i = Reported res}"

definition tells_of :: "bool \<Rightarrow> 'r broadcast \<Rightarrow> (error + 'r) set \<Rightarrow> bool" where
  "tells_of has_reply b R \<longleftrightarrow>
     (case b_e b of None \<Rightarrow> \<forall>err. Inl err \<notin> R | Some err \<Rightarrow> Inl err \<in> R) \<and>
     (case b_reply b of None \<Rightarrow> has_reply \<longrightarrow> (\<forall>r. Inr r \<notin> R) | Some r \<Rightarrow> has_reply \<and> Inr r \<in> R) \<and>
     (b_replyDone b \<longleftrightarrow> \<not> has_reply \<or> b_reply b \<noteq> None)"

lemma bc_goto_simps [simp]:
  "bc_phase (bc_goto i ph s) = (bc_phase s)(i := ph)" "bc_shared (bc_goto i ph s) = bc_shared s"
  "bc_client (bc_goto i ph s) = bc_client s" "bc_world (bc_goto i ph s) = bc_world s" "bc_ctx (bc_goto i ph s) = bc_ctx s"
  by (simp_all add: bc_goto_def)

lemma bc_report_simps [simp]:
  "bc_phase (bc_report i res s) = (bc_phase s)(i := Reported res)"
  "bc_shared (bc_report i res s) = bcast_finish res (bc_shared s)"
  "bc_client (bc_report i res s) = bc_client s" "bc_world (bc_report i res s) = bc_world s"
  by (simp_all add: bc_report_def Let_def)

lemma others_dial:
  assumes "xc_dial ops addr (xc, w) = (Returns res, (xc', w'))"
  shows "others_may ops xc xc'"
  using xc_dial_Returns(2) [OF assms] xc_dial_Returns(4) [OF assms] by (auto simp: others_may_def)

lemma others_close: "xc_Close ops (xc, w) = (xc', w') \<Longrightarrow> others_may ops xc xc'"
  by (auto simp: others_may_def xc_Close_def)

lemma others_connected:
  assumes "others_may (bc_ops u) xc1 xc2" and "xc_opt xc1 = xc_opt xc"
    and "\<forall>(a, c) \<in> set (xc_clients xc1). connected_to u xc a c"
  shows "xc_opt xc2 = xc_opt xc \<and> (\<forall>(a, c) \<in> set (xc_clients xc2). connected_to u xc a c)"
  using assms by (fastforce simp: others_may_def connected_to_def)

lemma bc_inv_step: "bc_step u s s' \<Longrightarrow> bc_inv u xc s \<Longrightarrow> bc_inv u xc s'"
proof (induction rule: bc_step.induct)
  case (dials i s res xc' w')
  from dials.prems have inv: "xc_opt (bc_client s) = xc_opt xc"
    "\<forall>(a, c) \<in> set (xc_clients (bc_client s)). connected_to u xc a c" by (simp_all add: bc_inv_def)
  note conn = others_connected [OF others_dial [OF dials.hyps(3)] inv]
  have "phase_ok u xc (bc_servers u ! i) (case res of Inl err \<Rightarrow> To_report (Inl err) | Inr c \<Rightarrow> Calling c)"
    using conn xc_dial_Returns(5) [OF dials.hyps(3)] by (auto split: sum.split)
  with conn dials.prems dials.hyps(1) show ?case by (auto simp: bc_inv_def)
next
  case (answered s i c res w')
  then have "i < length (bc_servers u)" by (metis bc_inv_def bc_phase.distinct(1) not_le)
  with answered have "connected_to u xc (bc_servers u ! i) c" by (fastforce simp: bc_inv_def)
  with answered have "phase_ok u xc (bc_servers u ! i) (To_report res)" by (auto simp: answers_def)
  with answered.prems \<open>i < length (bc_servers u)\<close> show ?case by (auto simp: bc_inv_def)
next
  case (gives_up s i c err)
  then have "i < length (bc_servers u)" by (metis bc_inv_def bc_phase.distinct(1) not_le)
  with gives_up.prems show ?case by (auto simp: bc_inv_def)
next
  case (reports s i res)
  then have "i < length (bc_servers u)" by (metis bc_inv_def bc_phase.distinct(3) not_le)
  with reports show ?case by (fastforce simp: bc_inv_def)
next
  case (others_use_client s xc')
  with others_connected [OF others_use_client.hyps, of xc] show ?case by (auto simp: bc_inv_def)
qed (auto simp: bc_inv_def)

lemma tells_of_finish: "tells_of has_reply b R \<Longrightarrow> tells_of has_reply (bcast_finish res b) (insert res R)"
  by (cases res; cases "b_e b"; cases "b_reply b") (auto simp: tells_of_def bcast_finish_def Let_def)

definition tells :: "bool \<Rightarrow> ('c, 'o, 'r, 'd, 'w) bc_state \<Rightarrow> bool" where
  "tells has_reply s \<longleftrightarrow> tells_of has_reply (bc_shared s) (reported s)"

lemma tells_cong:
  assumes "tells hr s" and "bc_phase s' = bc_phase s" and "bc_shared s' = bc_shared s"
  shows "tells hr s'"
  using assms by (simp add: tells_def reported_def)

lemma tells_goto:
  assumes "tells hr s" and "\<And>x. bc_phase s i \<noteq> Reported x" and "\<And>x. ph \<noteq> Reported x"
  shows "tells hr (bc_goto i ph s)"
proof -
  have "reported (bc_goto i ph s) = reported s"
    unfolding reported_def bc_goto_simps fun_upd_apply by (rule Collect_cong) (metis assms(2,3))
  with assms(1) show ?thesis by (simp add: tells_def)
qed

lemma tells_report:
  assumes "tells hr s" and "\<And>x. bc_phase s i \<noteq> Reported x"
  shows "tells hr (bc_report i res s)"
proof -
  have "reported (bc_report i res s) = insert res (reported s)"
  proof (rule set_eqI)
    show "x \<in> reported (bc_report i res s) \<longleftrightarrow> x \<in> insert res (reported s)" for x
      unfolding reported_def bc_report_simps fun_upd_apply insert_iff mem_Collect_eq
      by (metis assms(2) bc_phase.inject(3))
  qed
  with assms(1) show ?thesis by (simp add: tells_def tells_of_finish)
qed

lemma tells_step: "bc_step u s s' \<Longrightarrow> tells hr s \<Longrightarrow> tells hr s'"
proof (induction rule: bc_step.induct)
  case (dials i s res xc' w')
  have "tells hr (s\<lparr>bc_client := xc', bc_world := w'\<rparr>)" by (rule tells_cong [OF dials.prems]) simp_all
  then show ?case by (rule tells_goto) (use dials.hyps in \<open>auto split: sum.split\<close>)
next
  case (answered s i c res w')
  have "tells hr (s\<lparr>bc_world := w'\<rparr>)" by (rule tells_cong [OF answered.prems]) simp_all
  then show ?case by (rule tells_goto) (use answered.hyps in auto)
next
  case (gives_up s i c err)
  then show ?case by (intro tells_goto) auto
next
  case (reports s i res)
  then show ?case by (intro tells_report) auto
next
  case (deadline_passes s)
  show ?case by (rule tells_cong [OF deadline_passes.prems]) simp_all
next
  case (others_use_client s xc')
  show ?case by (rule tells_cong [OF others_use_client.prems]) simp_all
next
  case (network_changes s w')
  show ?case by (rule tells_cong [OF network_changes.prems]) simp_all
qed

lemma bc_run_inv:
  "bc_run u xc s \<Longrightarrow> bc_inv u xc s \<and> tells (bc_has_reply u) s"
proof (induction rule: bc_run.induct)
  case (bc_begin w)
  then show ?case
    by (auto simp: bc_inv_def tells_def tells_of_def reported_def bc_start_def bcast_start_def connected_to_def)
next
  case (bc_next s s')
  then show ?case using bc_inv_step tells_step by blast
qed

section \<open>What a broadcast returns\<close>

lemma bc_over_returns:
  assumes "bc_run u xc s" and "bc_over u s"
  shows "case bc_returns s of
      (None, reply) \<Rightarrow>
        (\<forall>i < length (bc_servers u). \<exists>r. bc_phase s i = Reported (Inr r) \<and> answers u xc (bc_servers u ! i) r) \<and>
        (case reply of
           None \<Rightarrow> \<not> bc_has_reply u \<or> bc_servers u = []
         | Some r \<Rightarrow> bc_has_reply u \<and> (\<exists>a \<in> set (bc_servers u). answers u xc a r))
    | (Some err, reply) \<Rightarrow> \<exists>i < length (bc_servers u). bc_phase s i = Reported (Inl err)"
proof -
  from bc_run_inv [OF assms(1)] have inv: "bc_inv u xc s"
    and tells: "tells_of (bc_has_reply u) (bc_shared s) (reported s)" by (simp_all add: tells_def)
  have idx: "i < length (bc_servers u)" if "bc_phase s i = Reported res" for i res
    using inv that by (metis bc_inv_def bc_phase.distinct(5) not_le)
  have ok: "answers u xc (bc_servers u ! i) r" if "bc_phase s i = Reported (Inr r)" for i r
    using inv that idx [OF that] by (fastforce simp: bc_inv_def)
  show ?thesis
  proof (cases "b_e (bc_shared s)")
    case (Some err)
    with tells have "Inl err \<in> reported s" by (simp add: tells_of_def)
    with Some idx show ?thesis by (auto simp: bc_returns_def reported_def)
  next
    case None
    with tells have noerr: "bc_phase s i \<noteq> Reported (Inl err)" for i err
      by (auto simp: tells_of_def reported_def)
    have all: "\<exists>r. bc_phase s i = Reported (Inr r)" if "i < length (bc_servers u)" for i
    proof -
      from assms(2) that obtain res where "bc_phase s i = Reported res" by (auto simp: bc_over_def)
      with noerr show ?thesis by (cases res) auto
    qed
    show ?thesis
    proof (cases "b_reply (bc_shared s)")
      case None': None
      have "bc_servers u = []" if "bc_has_reply u"
        using tells None' that all [of 0] by (fastforce simp: tells_of_def reported_def)
      with None None' all ok show ?thesis by (fastforce simp: bc_returns_def)
    next
      case (Some r)
      with tells obtain i where "bc_has_reply u" "bc_phase s i = Reported (Inr r)"
        by (auto simp: tells_of_def reported_def)
      with None Some all ok idx show ?thesis by (fastforce simp: bc_returns_def)
    qed
  qed
qed

text \<open>
  C23: a broadcast is all or an error.  When it is over, in every interleaving, it returns no error exactly
  when each of its servers has answered with success, over a connection that was dialled to it (or was
  open before), and then the reply, if one was wanted and there was a server, is one of these answers; else
  the error is that of some goroutine.
\<close>

theorem broadcast_all_or_error:
  assumes "bc_run u xc s" and "bc_over u s"
  shows "case bc_returns s of
      (None, reply) \<Rightarrow>
        (\<forall>i < length (bc_servers u). \<exists>r. bc_phase s i = Reported (Inr r) \<and> answers u xc (bc_servers u ! i) r) \<and>
        (case reply of
           None \<Rightarrow> \<not> bc_has_reply u \<or> bc_servers u = []
         | Some r \<Rightarrow> bc_has_reply u \<and> (\<exists>a \<in> set (bc_servers u). answers u xc a r))
    | (Some err, reply) \<Rightarrow> \<exists>i < length (bc_servers u). bc_phase s i = Reported (Inl err)"
  by (rule bc_over_returns [OF assms])

text \<open>One server that gives a fixed answer.\<close>

definition one_server :: "'r \<Rightarrow> (nat, unit, 'r, nat) bc_setup" where
  "one_server r = \<lparr>bc_ops = direct_ops, bc_Call = (\<lambda>c w. (Returns (Inr r), w)), bc_servers = [''tcp@a''],
     bc_has_reply = True, bc_deadline = False\<rparr>"

abbreviation no_clients :: "(nat, unit, unit) XClient" where
  "no_clients \<equiv> NewXClient () 0 ()"

lemma dial_one_server: "xc_dial direct_ops ''tcp@a'' (no_clients, 7) =
    (Returns (Inr 7), (no_clients\<lparr>xc_clients := [(''tcp@a'', 7)]\<rparr>, 8))"
proof -
  have "strings_Split (CHR ''@'') ''tcp@a'' = [''tcp'', ''a'']" by code_simp
  then show ?thesis by (simp add: xc_dial_def NewXClient_def XDial_def direct_ops_def)
qed

lemma one_server_run:
  "\<exists>s. bc_run (one_server (r :: 'a))  no_clients s \<and> bc_over (one_server r) s \<and> bc_returns s = (None, Some r)"
proof -
  let ?u = "one_server r"
  let ?s0 = "bc_start ?u no_clients 7 :: (nat, unit, 'a, unit, nat) bc_state"
  let ?s1 = "bc_goto 0 (Calling 7) (?s0\<lparr>bc_client := no_clients\<lparr>xc_clients := [(''tcp@a'', 7)]\<rparr>, bc_world := 8\<rparr>)"
  let ?s2 = "bc_goto 0 (To_report (Inr r)) (?s1\<lparr>bc_world := 8\<rparr>)"
  let ?s3 = "bc_report 0 (Inr r) ?s2"
  have step1: "bc_step ?u ?s0 ?s1"
    using bc_step.dials [of 0 ?u ?s0 "Inr 7" "no_clients\<lparr>xc_clients := [(''tcp@a'', 7)]\<rparr>" 8] dial_one_server
    by (simp add: bc_start_def one_server_def)
  have step2: "bc_step ?u ?s1 ?s2"
    using bc_step.answered [of ?s1 0 7 ?u "Inr r" 8] by (simp add: one_server_def)
  have step3: "bc_step ?u ?s2 ?s3" using bc_step.reports [of ?s2 0 "Inr r" ?u] by simp
  have "bc_run ?u no_clients ?s3"
    by (rule bc_next [OF bc_next [OF bc_next [OF bc_begin step1] step2] step3])
  moreover have "bc_over ?u ?s3" by (simp add: bc_over_def one_server_def)
  moreover have "bc_returns ?s3 = (None, Some r)"
    by (simp add: bc_returns_def bc_start_def one_server_def bcast_start_def bcast_finish_def Let_def)
  ultimately show ?thesis by blast
qed

theorem broadcast_all_or_error_witness:
  "\<exists>s. bc_run (one_server (3 :: nat)) no_clients s \<and> bc_over (one_server 3) s \<and> bc_returns s = (None, Some (3 :: nat)) \<and>
     answers (one_server (3 :: nat)) no_clients ''tcp@a'' 3"
proof -
  obtain s where s: "bc_run (one_server (3 :: nat)) no_clients s" "bc_over (one_server 3) s" "bc_returns s = (None, Some (3 :: nat))"
    using one_server_run [of "3 :: nat"] by blast
  from broadcast_all_or_error [OF s(1,2)] s show ?thesis by (auto simp: one_server_def)
qed

section \<open>The end of a broadcast\<close>

fun phase_work :: "('c, 'r) bc_phase \<Rightarrow> nat" where
  "phase_work To_dial = 3"
| "phase_work (Calling c) = 2"
| "phase_work (To_report res) = 1"
| "phase_work (Reported res) = 0"

definition bc_work :: "('c, 'o, 'r, 'w) bc_setup \<Rightarrow> ('c, 'o, 'r, 'd, 'w) bc_state \<Rightarrow> nat" where
  "bc_work u s = (\<Sum>i < length (bc_servers u). phase_work (bc_phase s i))"

lemma bc_work_less:
  assumes "i < length (bc_servers u)" and "bc_phase s' = (bc_phase s)(i := ph)"
    and "phase_work ph < phase_work (bc_phase s i)"
  shows "bc_work u s' < bc_work u s"
  unfolding bc_work_def by (rule sum_strict_mono_ex1) (use assms in auto)

lemma goes_on:
  assumes "bc_step u s s'" and "i < length (bc_servers u)" and "bc_phase s' = (bc_phase s)(i := ph)"
    and "phase_work ph < phase_work (bc_phase s i)"
  shows "\<exists>s'. (bc_step u)\<^sup>*\<^sup>* s s' \<and> bc_work u s' < bc_work u s"
  using bc_work_less [OF assms(2-4)] assms(1) by blast

text \<open>Steps of the goroutines use up work, and all other steps leave the goroutines where they are.\<close>

lemma step_work:
  assumes "bc_step u s s'" and "bc_inv u xc s"
  shows "bc_phase s' = bc_phase s \<or> bc_work u s' < bc_work u s"
proof -
  have idx: "i < length (bc_servers u)" if "bc_phase s i \<noteq> To_dial" for i
    using assms(2) that by (auto simp: bc_inv_def not_le [symmetric])
  note less = bc_work_less [of _ u _ s]
  from assms(1) show ?thesis
  proof (cases rule: bc_step.cases)
    case (dials i res xc' w')
    then show ?thesis using less [of i s'] by (auto split: sum.splits)
  next
    case (answered i c res w')
    then show ?thesis using less [of i s'] idx [of i] by auto
  next
    case (gives_up i c err)
    then show ?thesis using less [of i s'] idx [of i] by auto
  next
    case (reports i res)
    then show ?thesis using less [of i s'] idx [of i] by auto
  qed simp_all
qed

definition dials_return :: "('c, 'o, 'r, 'w) bc_setup \<Rightarrow> ('c, 'o, 'd) XClient \<Rightarrow> bool" where
  "dials_return u xc \<longleftrightarrow>
     (\<forall>a \<in> set (bc_servers u). \<forall>(xc' :: ('c, 'o, 'd) XClient) w. \<exists>res s'. xc_dial (bc_ops u) a (xc', w) = (Returns res, s'))"

text \<open>A goroutine that has not reported takes a step, or the deadline lets it take the next one.\<close>

lemma goroutine_moves:
  fixes s :: "('c, 'o, 'r, 'd, 'w) bc_state" and xc :: "('c, 'o, 'd) XClient"
  assumes "i < length (bc_servers u)" and "\<And>res. bc_phase s i \<noteq> Reported res" and "dials_return u xc"
    and "bc_deadline u \<or> (\<forall>c w. \<exists>res w'. bc_Call u c w = (Returns res, w'))"
  shows "\<exists>s'. (bc_step u)\<^sup>*\<^sup>* s s' \<and> bc_work u s' < bc_work u s"
proof (cases "bc_phase s i")
  case To_dial
  have "bc_servers u ! i \<in> set (bc_servers u)" using assms(1) by simp
  with assms(3) obtain res xc' w' where
    "xc_dial (bc_ops u) (bc_servers u ! i) (bc_client s, bc_world s) = (Returns res, (xc', w'))"
    unfolding dials_return_def by (metis surj_pair)
  from bc_step.dials [OF assms(1) To_dial this] show ?thesis
    by (rule goes_on [OF _ assms(1)]) (auto simp: To_dial split: sum.split)
next
  case (Calling c)
  have stop: "\<exists>s'. (bc_step u)\<^sup>*\<^sup>* t s' \<and> bc_work u s' < bc_work u t"
    if "bc_ctx t = Some err" "bc_phase t = bc_phase s" for t err
  proof -
    have "bc_phase t i = Calling c" using Calling that(2) by simp
    from bc_step.gives_up [OF this that(1)] this show ?thesis
      by (intro goes_on [OF _ assms(1)]) auto
  qed
  show ?thesis
  proof (cases "bc_ctx s")
    case (Some err)
    then show ?thesis using stop by blast
  next
    case None
    show ?thesis
    proof (cases "bc_deadline u")
      case True
      let ?t = "s\<lparr>bc_ctx := Some ctx_DeadlineExceeded\<rparr>"
      have "bc_work u ?t = bc_work u s" by (simp add: bc_work_def)
      with stop [of ?t ctx_DeadlineExceeded] show ?thesis
        using bc_step.deadline_passes [OF True None] by (metis converse_rtranclp_into_rtranclp bc_state.select_convs(5)
            bc_state.surjective bc_state.update_convs(5) bc_state.select_convs(3))
    next
      case False
      with assms(4) obtain res w' where "bc_Call u c (bc_world s) = (Returns res, w')" by blast
      from bc_step.answered [OF Calling this] show ?thesis
        by (rule goes_on [OF _ assms(1)]) (auto simp: Calling)
    qed
  qed
next
  case (To_report res)
  from bc_step.reports [OF To_report] show ?thesis
    by (rule goes_on [OF _ assms(1)]) (auto simp: To_report)
next
  case (Reported res)
  with assms(2) show ?thesis by blast
qed

lemma run_to_the_end:
  fixes s :: "('c, 'o, 'r, 'd, 'w) bc_state" and xc :: "('c, 'o, 'd) XClient"
  assumes "dials_return u xc" and "bc_deadline u \<or> (\<forall>c w. \<exists>res w'. bc_Call u c w = (Returns res, w'))"
  shows "\<exists>s'. (bc_step u)\<^sup>*\<^sup>* s s' \<and> bc_over u s'"
proof (induction "bc_work u s" arbitrary: s rule: less_induct)
  case less
  show ?case
  proof (cases "bc_over u s")
    case True
    then show ?thesis by blast
  next
    case False
    then obtain i where i: "i < length (bc_servers u)" "\<And>res. bc_phase s i \<noteq> Reported res"
      by (auto simp: bc_over_def)
    from goroutine_moves [OF i assms] obtain s1 where
      s1: "(bc_step u)\<^sup>*\<^sup>* s s1" "bc_work u s1 < bc_work u s" by blast
    from less.hyps [OF s1(2)] s1(1) show ?thesis by (meson rtranclp_trans)
  qed
qed

text \<open>
  C26: a broadcast comes to its end.  At any moment, if dialling returns, and if calls return or the
  caller gave a deadline, the goroutines can all report; and every step either leaves the goroutines where
  they are or uses up a part of their work, which is bounded, three steps for each server.
\<close>

theorem broadcast_ends:
  assumes "bc_run u xc s" and "dials_return u xc"
    and "bc_deadline u \<or> (\<forall>c w. \<exists>res w'. bc_Call u c w = (Returns res, w'))"
  shows "(\<exists>s'. (bc_step u)\<^sup>*\<^sup>* s s' \<and> bc_over u s') \<and> bc_work u s \<le> 3 * length (bc_servers u) \<and>
    (\<forall>s'. bc_step u s s' \<longrightarrow> bc_phase s' = bc_phase s \<or> bc_work u s' < bc_work u s)"
proof -
  have "phase_work (bc_phase s i) \<le> 3" for i by (cases "bc_phase s i") simp_all
  then have "bc_work u s \<le> (\<Sum>i < length (bc_servers u). 3)" unfolding bc_work_def by (intro sum_mono)
  with run_to_the_end [OF assms(2,3)] step_work bc_run_inv [OF assms(1)] show ?thesis by fastforce
qed

theorem broadcast_ends_witness:
  "\<exists>s. bc_run (one_server (3 :: nat)) no_clients s \<and> (\<exists>s'. (bc_step (one_server 3))\<^sup>*\<^sup>* s s' \<and> bc_over (one_server 3) s') \<and> bc_work (one_server 3) s \<le> 3"
proof -
  have "\<exists>res s'. xc_dial direct_ops a (xc, w) = (Returns res, s')" for a xc w
    by (auto simp: xc_dial_def XDial_def direct_ops_def Let_def split: option.split list.split)
  then have "dials_return (one_server (3 :: nat)) no_clients" unfolding dials_return_def one_server_def by simp blast
  from broadcast_ends [OF bc_begin [of "one_server (3 :: nat)" no_clients 7] this] show ?thesis
    by (auto simp: one_server_def intro: bc_begin)
qed

end
