(* ===== verification/RpcMain.thy ===== *)
theory RpcMain
  imports RpcDemo RpcDebug XBroadcast
begin

text \<open>
  The program \<^verbatim>\<open>GeeRPC/main.go\<close> as a whole: the registry, two servers that announce themselves before
  \<^verbatim>\<open>main\<close> goes on, and then the clients, which find the servers through the registry.
\<close>

section \<open>The start\<close>

definition regAddr :: string where
  "regAddr = ''http://localhost:9999/geerpc/registry''"

text \<open>The world of the program: the default HTTP server and the default registry behind it.\<close>

type_synonym rpc_world = "serve_mux \<times> GeeRegistry"

definition startRegistry :: "(unit, rpc_world) action" where
  "startRegistry = (\<lambda>(mux, reg). let (out, mux') = registry_default_HandleHTTP mux in (out, (mux', reg)))"

text \<open>
  A request that reaches the default HTTP server at the time \<open>now\<close>: what listens at the path of the
  registry answers it; the client of a heartbeat looks at no status.
\<close>

definition post_to_registry :: "int \<Rightarrow> string \<Rightarrow> string \<Rightarrow> string \<Rightarrow> (error option, rpc_world) action" where
  "post_to_registry now method url addr = (\<lambda>(mux, reg).
     (Returns None,
      (mux, if mux defaultPath = Some Registry_handler then snd (registry_ServeHTTP now method addr reg) else reg)))"

text \<open>
  A server with its listener, up to \<^verbatim>\<open>wg.Done\<close>: the first heartbeat is sent before, the later ones are
  those of the goroutine that \<^verbatim>\<open>Heartbeat\<close> starts.  \<^verbatim>\<open>log.Fatal\<close> ends the process.
\<close>

definition server_starts :: "int \<Rightarrow> string \<Rightarrow> ((demo_value, Args) server \<times> string, rpc_world) action" where
  "server_starts now lis w =
     (case startServer lis of
        None \<Rightarrow> (Panics ''exit status 1'', w)
      | Some (server, addr) \<Rightarrow>
          and_then (Heartbeat (\<lambda>_. True) (post_to_registry now) regAddr addr 0 w) (\<lambda>_ w'. (Returns (server, addr), w')))"

text \<open>
  The part of \<^verbatim>\<open>main\<close> before the clients: the registry, then the servers in the order in which their
  heartbeats arrive, each with the time and the address where it listens.
\<close>

primrec servers_start :: "(int \<times> string) list \<Rightarrow> (((demo_value, Args) server \<times> string) list, rpc_world) action" where
  "servers_start [] w = (Returns [], w)"
| "servers_start (x # xs) w =
     and_then (server_starts (fst x) (snd x) w) (\<lambda>srv w1.
       and_then (servers_start xs w1) (\<lambda>srvs w2. (Returns (srv # srvs), w2)))"

definition main_start :: "(int \<times> string) list \<Rightarrow> (((demo_value, Args) server \<times> string) list, rpc_world) action" where
  "main_start starts w = and_then (startRegistry w) (\<lambda>_ w1. servers_start starts w1)"

definition rpc_world_before :: rpc_world where
  "rpc_world_before = (Map.empty, DefualtGeeRegister)"

section \<open>The registry after the start\<close>

definition started :: "(int \<times> string) list \<Rightarrow> reg_event list" where
  "started starts = rev (map (\<lambda>(t, lis). Heartbeat_at t (''tcp@'' @ lis)) starts)"

lemma server_starts_result:
  assumes "mux defaultPath = Some Registry_handler"
  shows "\<exists>server. server_starts t lis (mux, registry_after defaultTimeout h) =
    (Returns (server, ''tcp@'' @ lis), (mux, registry_after defaultTimeout (Heartbeat_at t (''tcp@'' @ lis) # h)))"
proof -
  obtain server where "startServer lis = Some (server, ''tcp@'' @ lis)" using startServer_methods by blast
  with assms show ?thesis
    by (simp add: server_starts_def Heartbeat_def sendHeartbeat_def post_to_registry_def Let_def)
qed

lemma servers_start_result:
  assumes "mux defaultPath = Some Registry_handler"
  shows "\<exists>srvs. servers_start starts (mux, registry_after defaultTimeout h) =
    (Returns srvs, (mux, registry_after defaultTimeout (started starts @ h))) \<and> map snd srvs = map (\<lambda>(t, lis). ''tcp@'' @ lis) starts"
proof (induction starts arbitrary: h)
  case (Cons x xs)
  obtain server where "server_starts (fst x) (snd x) (mux, registry_after defaultTimeout h) =
    (Returns (server, ''tcp@'' @ snd x), (mux, registry_after defaultTimeout (Heartbeat_at (fst x) (''tcp@'' @ snd x) # h)))"
    using server_starts_result [of mux, OF assms] by blast
  with Cons [of "Heartbeat_at (fst x) (''tcp@'' @ snd x) # h"] show ?case
    by (auto simp: started_def case_prod_unfold)
qed (simp add: started_def)

lemma main_start_result:
  "\<exists>srvs. main_start starts rpc_world_before =
    (Returns srvs, ([defaultPath \<mapsto> Registry_handler], registry_after defaultTimeout (started starts))) \<and>
    map snd srvs = map (\<lambda>(t, lis). ''tcp@'' @ lis) starts"
proof -
  have "startRegistry rpc_world_before = (Returns (), ([defaultPath \<mapsto> Registry_handler], registry_after defaultTimeout []))"
    by (simp add: startRegistry_def rpc_world_before_def registry_default_HandleHTTP_def registry_HandleHTTP_def
        http_Handle_def DefualtGeeRegister_def)
  with servers_start_result [of "[defaultPath \<mapsto> Registry_handler]" starts "[]"] show ?thesis
    by (simp add: main_start_def)
qed

lemma last_heartbeat_exists: "Heartbeat_at t a \<in> set h \<Longrightarrow> a \<noteq> [] \<Longrightarrow> \<exists>t'. last_heartbeat h a = Some t'"
  by (induction h a rule: last_heartbeat.induct) auto

lemma all_alive:
  assumes "in_time now (started starts)" and "\<forall>(t, lis) \<in> set starts. now < t + defaultTimeout"
  shows "fst (aliveServers now (registry_after defaultTimeout (started starts))) =
    sorted_list_of_set ((\<lambda>(t, lis). ''tcp@'' @ lis) ` set starts)"
proof -
  let ?h = "started starts" and ?as = "fst (aliveServers now (registry_after defaultTimeout (started starts)))"
  note spec = alive_servers_spec [OF reg_inv_after [OF assms(1)], of defaultTimeout]
  have "a \<in> set ?as \<longleftrightarrow> a \<in> (\<lambda>(t, lis). ''tcp@'' @ lis) ` set starts" for a
  proof
    assume "a \<in> set ?as"
    with spec obtain t where "last_heartbeat ?h a = Some t" by blast
    from last_heartbeat_in [OF this] show "a \<in> (\<lambda>(t, lis). ''tcp@'' @ lis) ` set starts"
      by (auto simp: started_def)
  next
    assume "a \<in> (\<lambda>(t, lis). ''tcp@'' @ lis) ` set starts"
    then obtain t lis where x: "(t, lis) \<in> set starts" "a = ''tcp@'' @ lis" by auto
    then have "Heartbeat_at t a \<in> set ?h" "a \<noteq> []" by (force simp: started_def)+
    from last_heartbeat_exists [OF this] obtain t' where t': "last_heartbeat ?h a = Some t'" by blast
    with last_heartbeat_in [OF t'] assms(2) have "now < t' + defaultTimeout" by (auto simp: started_def)
    with spec t' show "a \<in> set ?as" by (auto simp: alive_since_def)
  qed
  then have "set ?as = (\<lambda>(t, lis). ''tcp@'' @ lis) ` set starts" by blast
  with spec show ?thesis by (metis sorted_list_of_set.idem_if_sorted_distinct)
qed

section \<open>Properties\<close>



text \<open>
  Calls in the network of the program: one that gives a reply is an answered call on a connection to a
  server of the program, in the system of client and server, whatever else is called there.
\<close>

definition demo_network :: "string \<Rightarrow> Args \<Rightarrow> ('c \<Rightarrow> (error + int64, 'w) action) \<Rightarrow> bool" where
  "demo_network serviceMethod args call \<longleftrightarrow>
     (\<forall>c w r w'. call c w = (Returns (Inr r), w') \<longrightarrow>
        (\<exists>lis server addr jobs s k. startServer lis = Some (server, addr) \<and> sys_reachable (demo_system server jobs) s \<and>
           cl_registered (sy_client s) < 2 ^ 64 \<and> jobs k = (serviceMethod, args) \<and>
           cl_phase (sy_client s) k = Returned None \<and> call_Reply (cl_calls (sy_client s) k) = Some (VReply r)))"

text \<open>
  The clients: \<^verbatim>\<open>call\<close> and \<^verbatim>\<open>broadcast\<close> make a client over a new discovery, and each goroutine of \<^verbatim>\<open>call\<close>
  calls once through it.  The methods of the client are those of \<open>RpcCluster\<close>, at the time \<open>now\<close>.
\<close>

definition demo_client :: "nat \<Rightarrow> ('c, 'o option, GeeRegistryDiscovery) XClient" where
  "demo_client rnd = NewXClient (NewGeeRegistryDiscovery rnd regAddr 0) RandomSelect None"

definition call_goroutine ::
  "(string \<Rightarrow> Args \<Rightarrow> ('c, 'o option, int64, 'w) call_setup) \<Rightarrow> int \<Rightarrow> nat \<Rightarrow> nat \<Rightarrow> (string, ('c, 'o option, 'w) call_state) action" where
  "call_goroutine u now rnd i =
     foo (\<lambda>serviceMethod args. call_at (u serviceMethod args) now rnd) (\<lambda>serviceMethod args s. (Returns (None, None), s))
       ''call'' ''Foo.Sum'' (job i)"

text \<open>A goroutine of \<^verbatim>\<open>call\<close> logs an error or the right sum, over whatever server its call was sent.\<close>

lemma demo_network_sum:
  assumes "demo_network ''Foo.Sum'' args call" and "call c w = (Returns (Inr r), w')"
  shows "r = Num1 args + Num2 args"
proof -
  from assms obtain lis server addr jobs sy k where call: "startServer lis = Some (server, addr)"
    "sys_reachable (demo_system server jobs) sy" "cl_registered (sy_client sy) < 2 ^ 64"
    "cl_phase (sy_client sy) k = Returned None" "jobs k = (''Foo.Sum'', args)"
    "call_Reply (cl_calls (sy_client sy) k) = Some (VReply r)"
    unfolding demo_network_def by blast
  from demo_sum_answer [OF call(1-5)] call(6) show ?thesis by simp
qed

lemma call_goroutine_logs:
  assumes "demo_network ''Foo.Sum'' (job i) (cs_Call (u ''Foo.Sum'' (job i)))"
    and "call_goroutine u now rnd i (xc, (reg, w)) = (Returns logged, s')"
  shows "(\<exists>err. logged = ''call Foo.Sum error: '' @ err) \<or>
    logged = foo_line ''call'' ''Foo.Sum'' (job i) (Inr (Num1 (job i) + Num2 (job i)))"
proof -
  let ?u = "u ''Foo.Sum'' (job i)"
  from assms(2) obtain res s1 where call: "call_at ?u now rnd (xc, (reg, w)) = (Returns res, s1)"
    and logged: "logged = foo_line ''call'' ''Foo.Sum'' (job i) res"
    by (auto simp: call_goroutine_def foo_def)
  show ?thesis
  proof (cases res)
    case (Inl err)
    with logged show ?thesis by (simp add: foo_line_def)
  next
    case (Inr r)
    obtain xc1 reg1 w1 where s1: "s1 = (xc1, (reg1, w1))" by (cases s1) auto
    have "call_at ?u now rnd (xc, (reg, w)) = (Returns (Inr r), (xc1, (reg1, w1)))" using call s1 Inr by simp
    then have "xc_Call (world_ops (cs_net ?u)) (grd_Get (\<lambda>url. on_registry (registry_transport now url)) now rnd)
        (\<lambda>c. on_net (cs_Call ?u c)) (xc, (reg, w)) = (Returns (Inr r), (xc1, (reg1, w1)))"
      by (simp only: call_at_def)
    then have "\<exists>c v. on_net (cs_Call ?u c) v = (Returns (Inr r), (reg1, w1))" by (rule xc_Call_answered)
    then obtain c reg2 w2 where "on_net (cs_Call ?u c) (reg2, w2) = (Returns (Inr r), (reg1, w1))" by auto
    then have "cs_Call ?u c w2 = (Returns (Inr r), w1)" by (auto simp: on_net_def split: prod.splits)
    from demo_network_sum [OF assms(1), OF this] logged Inr show ?thesis by simp
  qed
qed



end
