(* ===== verification/Store_Interface.thy ===== *)
theory Store_Interface
  imports Prelude
begin

text \<open>
  The contract between a bounded key-value store and its client.  The provider may drop
  entries at any time (eviction), so the contract promises no more than this: a lookup
  never changes what is stored, an insertion may only lose entries or store the new one,
  and both keep the store's invariant.  What a client may conclude is proved once inside
  the locale: whatever is read back under a key is the value of the last insertion under
  that key.
\<close>

datatype 'v store_op = OpGet string | OpAdd string 'v

fun last_added :: "'v store_op list \<Rightarrow> string \<Rightarrow> 'v option" where
  "last_added [] k = None"
| "last_added (OpGet k' # ops) k = last_added ops k"
| "last_added (OpAdd k' v # ops) k =
     (case last_added ops k of
        Some v' \<Rightarrow> Some v'
      | None \<Rightarrow> (if k' = k then Some v else None))"

locale bounded_store =
  fixes inv :: "'c \<Rightarrow> bool"
    and contents :: "'c \<Rightarrow> string \<Rightarrow> 'v option"
    and get :: "string \<Rightarrow> 'c \<Rightarrow> 'v option \<times> 'c"
    and add :: "string \<Rightarrow> 'v \<Rightarrow> 'c \<Rightarrow> 'c option"
  assumes get_result: "inv c \<Longrightarrow> fst (get k c) = contents c k"
    and get_contents: "inv c \<Longrightarrow> contents (snd (get k c)) = contents c"
    and get_inv: "inv c \<Longrightarrow> inv (snd (get k c))"
    and add_contents: "inv c \<Longrightarrow> add k v c = Some c' \<Longrightarrow> contents c' k' = Some v' \<Longrightarrow>
      (if k' = k then v' = v else contents c k' = Some v')"
    and add_inv: "inv c \<Longrightarrow> add k v c = Some c' \<Longrightarrow> inv c'"
begin

fun run :: "'v store_op list \<Rightarrow> 'c \<Rightarrow> 'c option" where
  "run [] c = Some c"
| "run (OpGet k # ops) c = run ops (snd (get k c))"
| "run (OpAdd k v # ops) c = (case add k v c of None \<Rightarrow> None | Some c' \<Rightarrow> run ops c')"

lemma run_inv: "inv c \<Longrightarrow> run ops c = Some c' \<Longrightarrow> inv c'"
  by (induction ops c rule: run.induct) (auto intro: get_inv add_inv split: option.splits)

lemma run_contents:
  "inv c \<Longrightarrow> run ops c = Some c' \<Longrightarrow> contents c' k = Some v \<Longrightarrow>
   last_added ops k = Some v \<or> (last_added ops k = None \<and> contents c k = Some v)"
proof (induction ops c rule: run.induct)
  case (2 k' ops c)
  then show ?case by (auto simp: get_inv get_contents)
next
  case (3 k' v' ops c)
  then obtain c1 where c1: "add k' v' c = Some c1" and run: "run ops c1 = Some c'"
    by (auto split: option.splits)
  from "3.IH" [OF c1 add_inv [OF \<open>inv c\<close> c1] run \<open>contents c' k = Some v\<close>]
  show ?case
    using add_contents [OF \<open>inv c\<close> c1, of k v] by (auto split: if_splits)
qed simp

text \<open>What is read back from a store that started out empty is the last value added.\<close>

lemma get_after_run:
  assumes "inv c" and "contents c = Map.empty" and "run ops c = Some c'"
    and "fst (get k c') = Some v"
  shows "last_added ops k = Some v"
  using assms run_contents [OF assms(1,3), of k v] get_result [OF run_inv [OF assms(1,3)], of k]
  by auto

text \<open>A predicate that holds of every stored pair keeps holding when only such pairs are added.\<close>

lemma add_all:
  assumes "inv c" and "add k v c = Some c'" and "P k v"
    and "\<And>k' v'. contents c k' = Some v' \<Longrightarrow> P k' v'"
    and "contents c' k' = Some v'"
  shows "P k' v'"
  using add_contents [OF assms(1,2,5)] assms(3,4) by (auto split: if_splits)

end

end
