(* ===== verification/Lru.thy ===== *)
theory Lru
  imports Store_Interface
begin

text \<open>
  Package \<^verbatim>\<open>geecache/lru\<close> (\<^verbatim>\<open>lru.go\<close>).  The cache keeps a doubly linked list of elements and
  a map from keys to the same elements, so the two share memory: elements are addresses here,
  \<open>elems\<close> is the memory that holds the entry an element points to, \<open>dl\<close> is the list of
  addresses from front to back and \<open>cache_map\<close> maps a key to an address.  The method \<^verbatim>\<open>Len\<close> of the
  interface \<^verbatim>\<open>Value\<close> is the parameter \<open>vlen\<close>.  The eviction callback is client code: a
  function on the client's own state \<open>'w\<close>, which the operations thread.
\<close>

section \<open>State\<close>

type_synonym element = nat

record 'v entry =
  entry_key :: string
  entry_val :: 'v

record ('v, 'w) Cache =
  maxBytes :: int64
  nBytes :: int64
  dl :: "element list"
  cache_map :: "string \<Rightarrow> element option"
  OnEvicted :: "(string \<Rightarrow> 'v \<Rightarrow> 'w \<Rightarrow> 'w) option"
  elems :: "element \<Rightarrow> 'v entry"
  next_elem :: element

section \<open>Operations\<close>

definition lru_New :: "int64 \<Rightarrow> (string \<Rightarrow> 'v \<Rightarrow> 'w \<Rightarrow> 'w) option \<Rightarrow> ('v, 'w) Cache" where
  "lru_New limit onEvicted =
     \<lparr>maxBytes = limit, nBytes = 0, dl = [], cache_map = Map.empty, OnEvicted = onEvicted,
      elems = (\<lambda>_. \<lparr>entry_key = [], entry_val = undefined\<rparr>), next_elem = 0\<rparr>"

definition lru_Len :: "('v, 'w) Cache \<Rightarrow> nat" where
  "lru_Len c = length (dl c)"

text \<open>The operations of \<^verbatim>\<open>container/list\<close> that the cache uses, on lists of addresses.\<close>

definition MoveToFront :: "element \<Rightarrow> element list \<Rightarrow> element list" where
  "MoveToFront e xs = (if e \<in> set xs then e # remove1 e xs else xs)"

definition list_Back :: "element list \<Rightarrow> element option" where
  "list_Back xs = (if xs = [] then None else Some (last xs))"

definition lru_Get :: "string \<Rightarrow> ('v, 'w) Cache \<Rightarrow> 'v option \<times> ('v, 'w) Cache" where
  "lru_Get k c =
     (case cache_map c k of
        Some ele \<Rightarrow> (Some (entry_val (elems c ele)), c\<lparr>dl := MoveToFront ele (dl c)\<rparr>)
      | None \<Rightarrow> (None, c))"

definition entry_bytes :: "('v \<Rightarrow> int64) \<Rightarrow> 'v entry \<Rightarrow> int64" where
  "entry_bytes vlen kv = of_nat (length (entry_key kv)) + vlen (entry_val kv)"

definition lru_RemoveOldest ::
  "('v \<Rightarrow> int64) \<Rightarrow> ('v, 'w) Cache \<Rightarrow> 'w \<Rightarrow> ('v, 'w) Cache \<times> 'w" where
  "lru_RemoveOldest vlen c w =
     (case list_Back (dl c) of
        None \<Rightarrow> (c, w)
      | Some ele \<Rightarrow>
          (let kv = elems c ele;
               c' = c\<lparr>dl := remove1 ele (dl c), cache_map := (cache_map c)(entry_key kv := None),
                      nBytes := nBytes c - entry_bytes vlen kv\<rparr>
           in (c', case OnEvicted c of None \<Rightarrow> w | Some f \<Rightarrow> f (entry_key kv) (entry_val kv) w)))"

definition over_budget :: "('v, 'w) Cache \<Rightarrow> bool" where
  "over_budget c \<longleftrightarrow> maxBytes c \<noteq> 0 \<and> maxBytes c <s nBytes c"

text \<open>The eviction loop of \<^verbatim>\<open>Add\<close>; \<^term>\<open>None\<close> is a loop that never ends.\<close>

partial_function (option) evict_loop ::
  "('v \<Rightarrow> int64) \<Rightarrow> ('v, 'w) Cache \<Rightarrow> 'w \<Rightarrow> (('v, 'w) Cache \<times> 'w) option" where
  "evict_loop vlen c w =
     (if over_budget c
      then evict_loop vlen (fst (lru_RemoveOldest vlen c w)) (snd (lru_RemoveOldest vlen c w))
      else Some (c, w))"

definition lru_insert ::
  "('v \<Rightarrow> int64) \<Rightarrow> string \<Rightarrow> 'v \<Rightarrow> ('v, 'w) Cache \<Rightarrow> ('v, 'w) Cache" where
  "lru_insert vlen k v c =
     (case cache_map c k of
        Some ele \<Rightarrow>
          (let kv = elems c ele
           in c\<lparr>dl := MoveToFront ele (dl c), nBytes := nBytes c + (vlen v - vlen (entry_val kv)),
                elems := (elems c)(ele := kv\<lparr>entry_val := v\<rparr>)\<rparr>)
      | None \<Rightarrow>
          (let ele = next_elem c
           in c\<lparr>dl := ele # dl c, cache_map := (cache_map c)(k \<mapsto> ele),
                nBytes := nBytes c + (of_nat (length k) + vlen v),
                elems := (elems c)(ele := \<lparr>entry_key = k, entry_val = v\<rparr>), next_elem := ele + 1\<rparr>))"

definition lru_Add ::
  "('v \<Rightarrow> int64) \<Rightarrow> string \<Rightarrow> 'v \<Rightarrow> ('v, 'w) Cache \<Rightarrow> 'w \<Rightarrow> (('v, 'w) Cache \<times> 'w) option" where
  "lru_Add vlen k v c w = evict_loop vlen (lru_insert vlen k v c) w"

section \<open>Invariant\<close>

text \<open>
  The list has no duplicate, every address in it is allocated, the map sends a key to the one
  listed element with that key, and \<open>nBytes\<close> is the total size of the listed entries (an
  equation between 64-bit words, so it holds whatever the sizes are).
\<close>

definition lru_inv :: "('v \<Rightarrow> int64) \<Rightarrow> ('v, 'w) Cache \<Rightarrow> bool" where
  "lru_inv vlen c \<longleftrightarrow>
     distinct (dl c) \<and> (\<forall>e \<in> set (dl c). e < next_elem c) \<and>
     (\<forall>k e. cache_map c k = Some e \<longleftrightarrow> e \<in> set (dl c) \<and> entry_key (elems c e) = k) \<and>
     nBytes c = (\<Sum>e\<leftarrow>dl c. entry_bytes vlen (elems c e))"

lemma lru_invD:
  assumes "lru_inv vlen c"
  shows "distinct (dl c)" and "e \<in> set (dl c) \<Longrightarrow> e < next_elem c"
    and "cache_map c k = Some e \<longleftrightarrow> e \<in> set (dl c) \<and> entry_key (elems c e) = k"
    and "nBytes c = (\<Sum>e\<leftarrow>dl c. entry_bytes vlen (elems c e))"
  using assms by (auto simp: lru_inv_def)

lemma hit_listed:
  assumes "lru_inv vlen c" and "cache_map c k = Some e"
  shows "e \<in> set (dl c)" and "entry_key (elems c e) = k"
  using assms by (auto simp: lru_inv_def)

lemma miss_not_listed:
  "lru_inv vlen c \<Longrightarrow> cache_map c k = None \<Longrightarrow> e \<in> set (dl c) \<Longrightarrow> entry_key (elems c e) \<noteq> k"
  using lru_invD(3) [of vlen c k e] by auto

lemma lru_inv_New [simp]: "lru_inv vlen (lru_New limit f)"
  by (simp add: lru_inv_def lru_New_def)

lemma set_MoveToFront [simp]: "distinct xs \<Longrightarrow> set (MoveToFront e xs) = set xs"
  by (auto simp: MoveToFront_def)

lemma distinct_MoveToFront [simp]: "distinct xs \<Longrightarrow> distinct (MoveToFront e xs)"
  by (simp add: MoveToFront_def)

lemma sum_MoveToFront [simp]:
  fixes f :: "element \<Rightarrow> 'a :: comm_monoid_add"
  shows "(\<Sum>x\<leftarrow>MoveToFront e xs. f x) = (\<Sum>x\<leftarrow>xs. f x)"
  by (auto simp: MoveToFront_def sum_list_map_remove1)

lemma lru_inv_Get: "lru_inv vlen c \<Longrightarrow> lru_inv vlen (snd (lru_Get k c))"
  by (auto simp: lru_Get_def lru_inv_def split: option.split)

lemma keys_inj:
  assumes "lru_inv vlen c"
  shows "inj_on (\<lambda>e. entry_key (elems c e)) (set (dl c))"
proof (rule inj_onI)
  fix x y assume "x \<in> set (dl c)" "y \<in> set (dl c)" "entry_key (elems c x) = entry_key (elems c y)"
  then have "cache_map c (entry_key (elems c x)) = Some x" "cache_map c (entry_key (elems c x)) = Some y"
    using lru_invD(3) [OF assms] by auto
  then show "x = y" by simp
qed

lemma sum_fun_upd:
  fixes f :: "element \<Rightarrow> 'a :: ab_group_add"
  assumes "distinct xs" and "e \<in> set xs" and "\<And>x. x \<in> set xs \<Longrightarrow> x \<noteq> e \<Longrightarrow> g x = f x"
  shows "(\<Sum>x\<leftarrow>xs. g x) = (\<Sum>x\<leftarrow>xs. f x) + (g e - f e)"
proof -
  have "(\<Sum>x\<leftarrow>remove1 e xs. g x) = (\<Sum>x\<leftarrow>remove1 e xs. f x)"
    using assms by (auto intro!: arg_cong [where f = sum_list])
  then show ?thesis
    using assms(2) by (simp add: sum_list_map_remove1 [of e xs f] sum_list_map_remove1 [of e xs g])
qed

lemma lru_insert_hit:
  "cache_map c k = Some e \<Longrightarrow> lru_insert vlen k v c =
     c\<lparr>dl := MoveToFront e (dl c), nBytes := nBytes c + (vlen v - vlen (entry_val (elems c e))),
       elems := (elems c)(e := (elems c e)\<lparr>entry_val := v\<rparr>)\<rparr>"
  by (simp add: lru_insert_def Let_def)

lemma lru_insert_miss:
  "cache_map c k = None \<Longrightarrow> lru_insert vlen k v c =
     c\<lparr>dl := next_elem c # dl c, cache_map := (cache_map c)(k \<mapsto> next_elem c),
       nBytes := nBytes c + (of_nat (length k) + vlen v),
       elems := (elems c)(next_elem c := \<lparr>entry_key = k, entry_val = v\<rparr>), next_elem := next_elem c + 1\<rparr>"
  by (simp add: lru_insert_def Let_def)

lemma lru_inv_insert:
  assumes inv: "lru_inv vlen c"
  shows "lru_inv vlen (lru_insert vlen k v c)"
proof (cases "cache_map c k")
  case None
  note miss_not_listed [OF inv None]
  moreover have "next_elem c \<notin> set (dl c)" using lru_invD(2) [OF inv] by blast
  moreover from this have "(\<Sum>e\<leftarrow>dl c. entry_bytes vlen (((elems c)(next_elem c := x)) e)) =
      (\<Sum>e\<leftarrow>dl c. entry_bytes vlen (elems c e))" for x
    by (intro arg_cong [where f = sum_list] map_cong) auto
  ultimately show ?thesis
    using inv unfolding lru_insert_miss [OF None]
    by (auto simp: lru_inv_def entry_bytes_def less_SucI)
next
  case (Some e)
  note e = hit_listed [OF inv Some]
  have "(\<Sum>x\<leftarrow>dl c. entry_bytes vlen (((elems c)(e := (elems c e)\<lparr>entry_val := v\<rparr>)) x)) =
      nBytes c + (vlen v - vlen (entry_val (elems c e)))"
    using sum_fun_upd [OF lru_invD(1) [OF inv] e(1),
        of "\<lambda>x. entry_bytes vlen (((elems c)(e := (elems c e)\<lparr>entry_val := v\<rparr>)) x)"
           "\<lambda>x. entry_bytes vlen (elems c x)"] lru_invD(4) [OF inv]
    by (simp add: entry_bytes_def)
  then show ?thesis
    using inv e(1) unfolding lru_insert_hit [OF Some] by (auto simp: lru_inv_def)
qed

lemma RemoveOldest_Nil: "dl c = [] \<Longrightarrow> lru_RemoveOldest vlen c w = (c, w)"
  by (simp add: lru_RemoveOldest_def list_Back_def)

lemma RemoveOldest_dl:
  "distinct (dl c) \<Longrightarrow> dl (fst (lru_RemoveOldest vlen c w)) = butlast (dl c)"
  by (auto simp: lru_RemoveOldest_def list_Back_def Let_def remove1_last)

lemma RemoveOldest_frame [simp]:
  "maxBytes (fst (lru_RemoveOldest vlen c w)) = maxBytes c"
  "OnEvicted (fst (lru_RemoveOldest vlen c w)) = OnEvicted c"
  "elems (fst (lru_RemoveOldest vlen c w)) = elems c"
  "next_elem (fst (lru_RemoveOldest vlen c w)) = next_elem c"
  by (auto simp: lru_RemoveOldest_def Let_def split: option.split)

lemma lru_inv_RemoveOldest:
  assumes inv: "lru_inv vlen c"
  shows "lru_inv vlen (fst (lru_RemoveOldest vlen c w))"
proof (cases "dl c = []")
  case False
  define e where "e = last (dl c)"
  have e: "e \<in> set (dl c)" and d: "distinct (dl c)"
    using False lru_invD(1) [OF inv] by (simp_all add: e_def)
  have sum: "nBytes c - entry_bytes vlen (elems c e) =
      (\<Sum>x\<leftarrow>remove1 e (dl c). entry_bytes vlen (elems c x))"
    using sum_list_map_remove1 [OF e, of "\<lambda>x. entry_bytes vlen (elems c x)"] lru_invD(4) [OF inv]
    by simp
  have "\<And>x. x \<in> set (dl c) \<Longrightarrow> entry_key (elems c x) = entry_key (elems c e) \<Longrightarrow> x = e"
    using keys_inj [OF inv] e by (auto dest: inj_onD)
  with inv e sum d show ?thesis
    by (auto simp: lru_inv_def lru_RemoveOldest_def list_Back_def Let_def False simp flip: e_def)
qed (simp add: RemoveOldest_Nil inv)

section \<open>Specification: an association list in order of use\<close>

text \<open>
  What the package promises is said on association lists, the most recently used pair first:
  a lookup moves its pair to the front, an insertion puts a new pair in front and removes the
  old one, and eviction cuts pairs off the end until the rest fits.
\<close>

definition lru_abs :: "('v, 'w) Cache \<Rightarrow> (string \<times> 'v) list" where
  "lru_abs c = map (\<lambda>e. (entry_key (elems c e), entry_val (elems c e))) (dl c)"

lemma lru_New_sel [simp]:
  "lru_abs (lru_New limit f) = []" "maxBytes (lru_New limit f) = limit"
  "OnEvicted (lru_New limit f) = f" "nBytes (lru_New limit f) = 0" "dl (lru_New limit f) = []"
  by (simp_all add: lru_abs_def lru_New_def)

definition pair_bytes :: "('v \<Rightarrow> int64) \<Rightarrow> string \<times> 'v \<Rightarrow> int64" where
  "pair_bytes vlen p = of_nat (length (fst p)) + vlen (snd p)"

definition spec_touch :: "string \<Rightarrow> (string \<times> 'v) list \<Rightarrow> (string \<times> 'v) list" where
  "spec_touch k xs =
     (case map_of xs k of None \<Rightarrow> xs | Some v \<Rightarrow> (k, v) # filter (\<lambda>p. fst p \<noteq> k) xs)"

definition spec_put :: "string \<Rightarrow> 'v \<Rightarrow> (string \<times> 'v) list \<Rightarrow> (string \<times> 'v) list" where
  "spec_put k v xs = (k, v) # filter (\<lambda>p. fst p \<noteq> k) xs"

function spec_evict ::
  "('v \<Rightarrow> int64) \<Rightarrow> int64 \<Rightarrow> (string \<times> 'v) list \<Rightarrow> (string \<times> 'v) list" where
  "spec_evict vlen limit xs =
     (if xs \<noteq> [] \<and> limit \<noteq> 0 \<and> limit <s (\<Sum>p\<leftarrow>xs. pair_bytes vlen p)
      then spec_evict vlen limit (butlast xs) else xs)"
  by pat_completeness auto
termination
  by (relation "measure (\<lambda>(vlen, limit, xs). length xs)") auto

declare spec_evict.simps [simp del]

lemma spec_evict_fits:
  "xs = [] \<or> limit = 0 \<or> \<not> limit <s (\<Sum>p\<leftarrow>xs. pair_bytes vlen p) \<Longrightarrow> spec_evict vlen limit xs = xs"
  by (subst spec_evict.simps) auto

lemma spec_evict_step:
  "xs \<noteq> [] \<Longrightarrow> limit \<noteq> 0 \<Longrightarrow> limit <s (\<Sum>p\<leftarrow>xs. pair_bytes vlen p) \<Longrightarrow>
   spec_evict vlen limit xs = spec_evict vlen limit (butlast xs)"
  by (subst spec_evict.simps) auto

lemma spec_evict_prefix: "\<exists>ys. xs = spec_evict vlen limit xs @ ys"
proof (induction vlen limit xs rule: spec_evict.induct)
  case (1 vlen limit xs)
  show ?case
  proof (cases "xs \<noteq> [] \<and> limit \<noteq> 0 \<and> limit <s (\<Sum>p\<leftarrow>xs. pair_bytes vlen p)")
    case True
    with "1" obtain ys where "butlast xs = spec_evict vlen limit (butlast xs) @ ys" by blast
    then have "xs = spec_evict vlen limit (butlast xs) @ (ys @ [last xs])"
      using True by (metis append_assoc append_butlast_last_id)
    with True show ?thesis by (auto simp: spec_evict_step)
  next
    case False
    then show ?thesis by (auto simp: spec_evict_fits)
  qed
qed

definition notify :: "(string \<Rightarrow> 'v \<Rightarrow> 'w \<Rightarrow> 'w) option \<Rightarrow> (string \<times> 'v) list \<Rightarrow> 'w \<Rightarrow> 'w" where
  "notify f kvs w = (case f of None \<Rightarrow> w | Some g \<Rightarrow> fold (\<lambda>(k, v). g k v) kvs w)"

section \<open>The operations refine the specification\<close>

lemma map_of_abs:
  assumes inv: "lru_inv vlen c"
  shows "map_of (lru_abs c) k = map_option (\<lambda>e. entry_val (elems c e)) (cache_map c k)"
proof (cases "cache_map c k")
  case None
  then have "k \<notin> (\<lambda>e. entry_key (elems c e)) ` set (dl c)"
    using miss_not_listed [OF inv] by auto
  with None show ?thesis by (simp add: lru_abs_def map_of_eq_None_iff image_image)
next
  case (Some e)
  note e = hit_listed [OF inv Some]
  have "distinct (map fst (lru_abs c))"
    using lru_invD(1) [OF inv] keys_inj [OF inv] by (simp add: lru_abs_def distinct_map comp_def)
  then have "map_of (lru_abs c) k = Some (entry_val (elems c e))"
    by (rule map_of_is_SomeI) (use e in \<open>auto simp: lru_abs_def\<close>)
  with Some show ?thesis by simp
qed

lemma distinct_abs: "lru_inv vlen c \<Longrightarrow> distinct (map fst (lru_abs c))"
  by (simp add: lru_abs_def distinct_map comp_def lru_invD(1) keys_inj)

lemma filter_abs:
  assumes inv: "lru_inv vlen c" and e: "cache_map c k = Some e"
  shows "filter (\<lambda>p. fst p \<noteq> k) (lru_abs c) =
    map (\<lambda>e. (entry_key (elems c e), entry_val (elems c e))) (remove1 e (dl c))"
proof -
  have "\<And>x. x \<in> set (dl c) \<Longrightarrow> entry_key (elems c x) = k \<longleftrightarrow> x = e"
    using keys_inj [OF inv] e lru_invD(3) [OF inv] by (auto dest: inj_onD)
  then have "filter (\<lambda>x. entry_key (elems c x) \<noteq> k) (dl c) = filter (\<lambda>x. x \<noteq> e) (dl c)"
    by (auto intro: filter_cong)
  then show ?thesis
    using lru_invD(1) [OF inv]
    by (simp add: lru_abs_def filter_map comp_def distinct_remove1_removeAll removeAll_filter_not_eq
        eq_commute)
qed

lemma abs_Get:
  assumes inv: "lru_inv vlen c"
  shows "fst (lru_Get k c) = map_of (lru_abs c) k"
    and "lru_abs (snd (lru_Get k c)) = spec_touch k (lru_abs c)"
proof -
  show "fst (lru_Get k c) = map_of (lru_abs c) k"
    by (simp add: map_of_abs [OF inv] lru_Get_def split: option.split)
  show "lru_abs (snd (lru_Get k c)) = spec_touch k (lru_abs c)"
  proof (cases "cache_map c k")
    case None
    with map_of_abs [OF inv, of k] show ?thesis by (simp add: lru_Get_def spec_touch_def)
  next
    case (Some e)
    then have "e \<in> set (dl c)" "entry_key (elems c e) = k" using lru_invD(3) [OF inv] by auto
    with map_of_abs [OF inv, of k] Some filter_abs [OF inv Some] show ?thesis
      by (simp add: lru_Get_def spec_touch_def MoveToFront_def lru_abs_def)
  qed
qed

lemma abs_insert:
  assumes inv: "lru_inv vlen c"
  shows "lru_abs (lru_insert vlen k v c) = spec_put k v (lru_abs c)"
proof (cases "cache_map c k")
  case None
  note k = miss_not_listed [OF inv None]
  have "next_elem c \<notin> set (dl c)" using lru_invD(2) [OF inv] by blast
  then show ?thesis unfolding lru_insert_miss [OF None]
    using k by (auto simp: lru_abs_def spec_put_def filter_id_conv)
next
  case (Some e)
  note e = hit_listed [OF inv Some]
  have "e \<notin> set (remove1 e (dl c))" using lru_invD(1) [OF inv] by simp
  then have "map (\<lambda>x. (entry_key (((elems c)(e := y)) x), entry_val (((elems c)(e := y)) x))) (remove1 e (dl c)) =
      map (\<lambda>x. (entry_key (elems c x), entry_val (elems c x))) (remove1 e (dl c))" for y
    by (intro map_cong) auto
  with e show ?thesis unfolding lru_insert_hit [OF Some] spec_put_def filter_abs [OF inv Some]
    by (simp add: lru_abs_def MoveToFront_def)
qed

subsection \<open>Eviction\<close>

lemma nBytes_abs: "lru_inv vlen c \<Longrightarrow> nBytes c = (\<Sum>p\<leftarrow>lru_abs c. pair_bytes vlen p)"
  by (simp add: lru_invD(4) lru_abs_def comp_def pair_bytes_def entry_bytes_def)

lemma abs_RemoveOldest:
  assumes inv: "lru_inv vlen c" and ne: "dl c \<noteq> []"
  shows "lru_abs (fst (lru_RemoveOldest vlen c w)) = butlast (lru_abs c)"
    and "snd (lru_RemoveOldest vlen c w) = notify (OnEvicted c) [last (lru_abs c)] w"
proof -
  show "lru_abs (fst (lru_RemoveOldest vlen c w)) = butlast (lru_abs c)"
    by (simp add: lru_abs_def RemoveOldest_dl [OF lru_invD(1) [OF inv]] map_butlast)
  show "snd (lru_RemoveOldest vlen c w) = notify (OnEvicted c) [last (lru_abs c)] w"
    using ne by (simp add: lru_abs_def last_map notify_def lru_RemoveOldest_def list_Back_def
        Let_def split: option.split)
qed

lemma not_over_budget_empty:
  "lru_inv vlen c \<Longrightarrow> 0 \<le>s maxBytes c \<Longrightarrow> dl c = [] \<Longrightarrow> \<not> over_budget c"
  using lru_invD(4) [of vlen c]
  by (simp add: over_budget_def word_sle_eq word_sless_alt)

lemma notify_append: "notify f (xs @ ys) w = notify f ys (notify f xs w)"
  by (simp add: notify_def split: option.split)

definition evicted :: "(string \<times> 'v) list \<Rightarrow> (string \<times> 'v) list \<Rightarrow> (string \<times> 'v) list" where
  "evicted xs ys = rev (drop (length ys) xs)"

lemma evicted_step:
  assumes "xs \<noteq> []" and "butlast xs = ys @ zs"
  shows "evicted xs ys = last xs # evicted (butlast xs) ys"
proof -
  have "xs = ys @ zs @ [last xs]" using assms by (metis append_assoc append_butlast_last_id)
  then have "drop (length ys) xs = zs @ [last xs]" by (metis append_eq_conv_conj)
  then show ?thesis using assms(2) by (simp add: evicted_def)
qed

text \<open>
  With a bound that is not negative the loop ends: an empty list is never over the budget.
  What is left is the specification's prefix, and the callback has seen exactly the pairs
  cut off, the oldest first.
\<close>

lemma evict_loop_refines:
  assumes "lru_inv vlen c" and "0 \<le>s maxBytes c"
  shows "\<exists>c'. evict_loop vlen c w =
      Some (c', notify (OnEvicted c) (evicted (lru_abs c) (lru_abs c')) w) \<and>
    lru_inv vlen c' \<and> lru_abs c' = spec_evict vlen (maxBytes c) (lru_abs c) \<and>
    maxBytes c' = maxBytes c \<and> OnEvicted c' = OnEvicted c \<and> \<not> over_budget c'"
  using assms
proof (induction "length (dl c)" arbitrary: c w)
  case 0
  then have "\<not> over_budget c" using not_over_budget_empty by auto
  with "0.prems" show ?case
    by (subst evict_loop.simps) (auto simp: evicted_def notify_def spec_evict_fits over_budget_def
        nBytes_abs split: option.split)
next
  case (Suc n)
  note inv = \<open>lru_inv vlen c\<close>
  show ?case
  proof (cases "over_budget c")
    case False
    with Suc.prems show ?thesis
      by (subst evict_loop.simps) (auto simp: evicted_def notify_def spec_evict_fits over_budget_def
          nBytes_abs split: option.split)
  next
    case True
    define r where "r = lru_RemoveOldest vlen c w"
    have ne: "dl c \<noteq> []" using Suc.hyps(2) by auto
    have "n = length (dl (fst r))"
      using Suc.hyps(2) by (simp add: r_def RemoveOldest_dl lru_invD(1) [OF inv])
    from Suc.hyps(1) [OF this, of "snd r"] obtain c' where
      run: "evict_loop vlen (fst r) (snd r) =
        Some (c', notify (OnEvicted c) (evicted (lru_abs (fst r)) (lru_abs c')) (snd r))" and
      c': "lru_inv vlen c'" "lru_abs c' = spec_evict vlen (maxBytes c) (lru_abs (fst r))"
        "maxBytes c' = maxBytes c" "OnEvicted c' = OnEvicted c" "\<not> over_budget c'"
      using lru_inv_RemoveOldest [OF inv] Suc.prems(2) by (auto simp: r_def)
    have abs: "lru_abs (fst r) = butlast (lru_abs c)" "lru_abs c \<noteq> []"
      using abs_RemoveOldest [OF inv ne] ne by (simp_all add: r_def) (simp add: lru_abs_def)
    have spec: "spec_evict vlen (maxBytes c) (lru_abs c) = lru_abs c'"
      using True abs c'(2) by (simp add: spec_evict_step over_budget_def nBytes_abs [OF inv])
    obtain zs where "butlast (lru_abs c) = lru_abs c' @ zs"
      using spec_evict_prefix [of "lru_abs (fst r)" vlen "maxBytes c"] c'(2) abs by auto
    then have "notify (OnEvicted c) (evicted (lru_abs (fst r)) (lru_abs c')) (snd r) =
        notify (OnEvicted c) (evicted (lru_abs c) (lru_abs c')) w"
      using abs abs_RemoveOldest(2) [OF inv ne, of w]
      by (simp add: evicted_step r_def flip: notify_append)
    with run c' spec True show ?thesis
      by (subst evict_loop.simps) (simp flip: r_def)
  qed
qed

lemma evict_loop_prefix:
  "evict_loop vlen c w = Some r \<Longrightarrow> lru_inv vlen c \<Longrightarrow>
   lru_inv vlen (fst r) \<and> (\<exists>ys. lru_abs c = lru_abs (fst r) @ ys) \<and>
   maxBytes (fst r) = maxBytes c \<and> OnEvicted (fst r) = OnEvicted c"
proof (rule evict_loop.raw_induct [where P = "\<lambda>vlen c w r. lru_inv vlen c \<longrightarrow>
    lru_inv vlen (fst r) \<and> (\<exists>ys. lru_abs c = lru_abs (fst r) @ ys) \<and>
    maxBytes (fst r) = maxBytes c \<and> OnEvicted (fst r) = OnEvicted c", rule_format])
  fix f and vlen :: "'a \<Rightarrow> int64" and c :: "('a, 'b) Cache" and w r
  assume IH: "\<And>vlen (c :: ('a, 'b) Cache) w r. f vlen c w = Some r \<Longrightarrow> lru_inv vlen c \<Longrightarrow>
      lru_inv vlen (fst r) \<and> (\<exists>ys. lru_abs c = lru_abs (fst r) @ ys) \<and>
      maxBytes (fst r) = maxBytes c \<and> OnEvicted (fst r) = OnEvicted c"
    and eq: "(if over_budget c
      then f vlen (fst (lru_RemoveOldest vlen c w)) (snd (lru_RemoveOldest vlen c w))
      else Some (c, w)) = Some r"
    and inv: "lru_inv vlen c"
  show "lru_inv vlen (fst r) \<and> (\<exists>ys. lru_abs c = lru_abs (fst r) @ ys) \<and>
      maxBytes (fst r) = maxBytes c \<and> OnEvicted (fst r) = OnEvicted c"
  proof (cases "over_budget c")
    case True
    then have "f vlen (fst (lru_RemoveOldest vlen c w)) (snd (lru_RemoveOldest vlen c w)) = Some r"
      using eq by simp
    from IH [OF this lru_inv_RemoveOldest [OF inv]] obtain ys where
      ys: "lru_abs (fst (lru_RemoveOldest vlen c w)) = lru_abs (fst r) @ ys" and
      r: "lru_inv vlen (fst r)" "maxBytes (fst r) = maxBytes c" "OnEvicted (fst r) = OnEvicted c"
      by auto
    have "\<exists>zs. lru_abs c = lru_abs (fst (lru_RemoveOldest vlen c w)) @ zs"
    proof (cases "dl c = []")
      case False
      then show ?thesis
        using abs_RemoveOldest(1) [OF inv False, of w]
        by (metis append_butlast_last_id list.map_disc_iff lru_abs_def)
    qed (simp add: RemoveOldest_Nil)
    with ys r show ?thesis by auto
  qed (use eq inv in auto)
qed

lemma evict_loop_stuck: "evict_loop vlen c w = Some r \<Longrightarrow> \<not> (dl c = [] \<and> over_budget c)"
  by (rule evict_loop.raw_induct [where P = "\<lambda>vlen c w r. \<not> (dl c = [] \<and> over_budget c)"])
    (auto simp: RemoveOldest_Nil split: if_splits)

lemma insert_frame [simp]:
  "maxBytes (lru_insert vlen k v c) = maxBytes c" "OnEvicted (lru_insert vlen k v c) = OnEvicted c"
  by (auto simp: lru_insert_def Let_def split: option.split)

lemma Get_frame [simp]:
  "maxBytes (snd (lru_Get k c)) = maxBytes c" "OnEvicted (snd (lru_Get k c)) = OnEvicted c"
  "nBytes (snd (lru_Get k c)) = nBytes c"
  by (auto simp: lru_Get_def split: option.split)

section \<open>The package as a bounded store\<close>

definition lru_contents :: "('v, 'w) Cache \<Rightarrow> string \<Rightarrow> 'v option" where
  "lru_contents c = map_of (lru_abs c)"

lemma map_of_prefix: "map_of xs k = Some v \<Longrightarrow> map_of (xs @ ys) k = Some v"
  by (simp add: map_add_Some_iff)

lemma map_of_spec_put: "map_of (spec_put k v xs) = (map_of xs)(k \<mapsto> v)"
proof -
  have "map_of (filter (\<lambda>p. fst p \<noteq> k) xs) k' = (if k' = k then None else map_of xs k')" for k'
    by (induction xs) auto
  then show ?thesis by (auto simp: spec_put_def fun_eq_iff)
qed

lemma map_of_spec_touch: "map_of (spec_touch k xs) = map_of xs"
  using map_of_spec_put [of k _ xs]
  by (auto simp: spec_touch_def fun_eq_iff spec_put_def split: option.split)

interpretation lru: bounded_store
  "\<lambda>s. lru_inv vlen (fst s)" "\<lambda>s. lru_contents (fst s)"
  "\<lambda>k s. (fst (lru_Get k (fst s)), (snd (lru_Get k (fst s)), snd s))"
  "\<lambda>k v s. lru_Add vlen k v (fst s) (snd s)"
  for vlen :: "'v \<Rightarrow> int64"
proof
  fix s s' :: "('v, 'w) Cache \<times> 'w" and k k' v v'
  assume inv: "lru_inv vlen (fst s)"
  show "fst (fst (lru_Get k (fst s)), (snd (lru_Get k (fst s)), snd s)) = lru_contents (fst s) k"
    by (simp add: abs_Get [OF inv] lru_contents_def)
  show "lru_contents (fst (snd (fst (lru_Get k (fst s)), (snd (lru_Get k (fst s)), snd s)))) =
      lru_contents (fst s)"
    by (simp add: abs_Get [OF inv] lru_contents_def map_of_spec_touch)
  show "lru_inv vlen (fst (snd (fst (lru_Get k (fst s)), (snd (lru_Get k (fst s)), snd s))))"
    by (simp add: lru_inv_Get inv)
  assume add: "lru_Add vlen k v (fst s) (snd s) = Some s'"
  then have res: "lru_inv vlen (fst s')" "\<exists>ys. spec_put k v (lru_abs (fst s)) = lru_abs (fst s') @ ys"
    using evict_loop_prefix lru_inv_insert [OF inv]
    unfolding lru_Add_def by (fastforce simp: abs_insert [OF inv, symmetric])+
  show "lru_inv vlen (fst s')" by (fact res)
  assume "lru_contents (fst s') k' = Some v'"
  then have "((map_of (lru_abs (fst s)))(k \<mapsto> v)) k' = Some v'"
    using res(2) map_of_prefix unfolding lru_contents_def map_of_spec_put [symmetric] by metis
  then show "if k' = k then v' = v else lru_contents (fst s) k' = Some v'"
    by (simp add: lru_contents_def split: if_splits)
qed

section \<open>Properties\<close>

text \<open>A client's sequence of calls; \<^term>\<open>None\<close> when a call does not return.\<close>

fun lru_run :: "('v \<Rightarrow> int64) \<Rightarrow> 'v store_op list \<Rightarrow> ('v, 'w) Cache \<Rightarrow> 'w \<Rightarrow> (('v, 'w) Cache \<times> 'w) option"
where
  "lru_run vlen [] c w = Some (c, w)"
| "lru_run vlen (OpGet k # ops) c w = lru_run vlen ops (snd (lru_Get k c)) w"
| "lru_run vlen (OpAdd k v # ops) c w =
     (case lru_Add vlen k v c w of None \<Rightarrow> None | Some (c', w') \<Rightarrow> lru_run vlen ops c' w')"

lemma lru_run_store: "lru_run vlen ops c w = lru.run vlen ops (c, w)"
  by (induction vlen ops c w rule: lru_run.induct) (auto split: option.splits)

lemma lru_Add_total:
  assumes "lru_inv vlen c" and "0 \<le>s maxBytes c"
  shows "\<exists>c'. lru_Add vlen k v c w =
      Some (c', notify (OnEvicted c) (evicted (spec_put k v (lru_abs c)) (lru_abs c')) w) \<and>
    lru_inv vlen c' \<and> lru_abs c' = spec_evict vlen (maxBytes c) (spec_put k v (lru_abs c)) \<and>
    maxBytes c' = maxBytes c \<and> OnEvicted c' = OnEvicted c \<and> \<not> over_budget c'"
  using evict_loop_refines [OF lru_inv_insert [OF assms(1)], of k v w] assms(2)
  by (simp add: lru_Add_def abs_insert [OF assms(1)])

lemma over_budget_Get [simp]: "over_budget (snd (lru_Get k c)) = over_budget c"
  by (simp add: over_budget_def)

lemma lru_run_total:
  assumes "lru_inv vlen c" and "0 \<le>s maxBytes c" and "\<not> over_budget c"
  shows "\<exists>c' w'. lru_run vlen ops c w = Some (c', w') \<and> lru_inv vlen c' \<and>
    maxBytes c' = maxBytes c \<and> \<not> over_budget c'"
  using assms
proof (induction vlen ops c w rule: lru_run.induct)
  case (2 vlen k ops c w)
  then show ?case by (simp add: lru_inv_Get)
next
  case (3 vlen k v ops c w)
  obtain c' w' where c': "lru_Add vlen k v c w = Some (c', w')" "lru_inv vlen c'"
      "maxBytes c' = maxBytes c" "\<not> over_budget c'"
    using lru_Add_total [OF "3.prems"(1,2), of k v w] by blast
  with "3.IH" [of "(c', w')" c' w'] "3.prems" show ?case by simp
qed simp

text \<open>
  C1: \<^verbatim>\<open>Add\<close> on a well-formed cache whose bound is not negative always returns; the stored
  pairs are then, most recent first, the new pair followed by the old ones (without the old
  value of the key) cut off at the end as far as the bound requires, and the callback has been
  run on exactly the pairs cut off, from the least recently used one on.
\<close>

theorem lru_Add_refines:
  assumes "lru_inv vlen c" and "0 \<le>s maxBytes c"
  shows "\<exists>c'. lru_Add vlen k v c w =
      Some (c', notify (OnEvicted c) (evicted (spec_put k v (lru_abs c)) (lru_abs c')) w) \<and>
    lru_abs c' = spec_evict vlen (maxBytes c) (spec_put k v (lru_abs c)) \<and> lru_inv vlen c'"
  using lru_Add_total [OF assms] by blast

theorem lru_Add_refines_witness:
  "\<exists>c'. lru_Add (\<lambda>v. of_nat (length v)) ''k'' ''vvvv'' (lru_New 3 (Some (\<lambda>k v w. k # w))) [] =
      Some (c', [''k'']) \<and> lru_abs c' = []"
proof -
  let ?l = "(\<lambda>v. of_nat (length v)) :: string \<Rightarrow> int64"
  let ?c = "lru_New 3 (Some (\<lambda>k v w. k # w)) :: (string, string list) Cache"
  have "lru_inv ?l ?c" and "0 \<le>s maxBytes ?c" by (simp_all add: word_sle_eq)
  from lru_Add_refines [OF this, of "''k''" "''vvvv''" "[]"] show ?thesis
    by (auto simp: spec_put_def spec_evict.simps pair_bytes_def evicted_def notify_def
        word_sless_alt)
qed

text \<open>
  \<^verbatim>\<open>Get\<close> returns the stored value of the key and moves the pair to the front; a miss
  changes nothing.  No pair is added, lost or changed.
\<close>

theorem lru_Get_refines:
  assumes "lru_inv vlen c"
  shows "fst (lru_Get k c) = map_of (lru_abs c) k \<and>
    lru_abs (snd (lru_Get k c)) = spec_touch k (lru_abs c) \<and> lru_inv vlen (snd (lru_Get k c))"
  using abs_Get [OF assms] lru_inv_Get [OF assms] by auto

theorem lru_Get_refines_witness:
  "fst (lru_Get ''a'' (lru_insert (\<lambda>v. 1) ''b'' (2::nat)
     (lru_insert (\<lambda>v. 1) ''a'' 1 (lru_New 9 None :: (nat, unit) Cache)))) = Some 1 \<and>
   lru_abs (snd (lru_Get ''a'' (lru_insert (\<lambda>v. 1) ''b'' (2::nat)
     (lru_insert (\<lambda>v. 1) ''a'' 1 (lru_New 9 None :: (nat, unit) Cache))))) =
     [(''a'', 1), (''b'', 2)]"
proof -
  let ?l = "(\<lambda>v. 1) :: nat \<Rightarrow> int64"
  let ?c = "lru_insert ?l ''b'' (2::nat) (lru_insert ?l ''a'' 1 (lru_New 9 None)) :: (nat, unit) Cache"
  have "lru_inv ?l ?c" by (simp add: lru_inv_insert)
  moreover have "lru_abs ?c = [(''b'', 2), (''a'', 1)]"
    by (simp add: abs_insert lru_inv_insert spec_put_def)
  ultimately show ?thesis
    using lru_Get_refines [of ?l ?c "''a''"]
    by (simp add: spec_touch_def)
qed

text \<open>
  C10: whatever calls a client makes on a new cache with a bound that is not negative, every
  call returns, and afterwards the byte count is the total size of the stored pairs and does
  not exceed the bound (0 means no bound).
\<close>

theorem lru_history_within_bound:
  assumes "0 \<le>s limit"
  shows "\<exists>c w'. lru_run vlen ops (lru_New limit f) w = Some (c, w') \<and>
    nBytes c = (\<Sum>p\<leftarrow>lru_abs c. pair_bytes vlen p) \<and> (limit = 0 \<or> nBytes c \<le>s limit) \<and>
    distinct (map fst (lru_abs c))"
proof -
  have "\<not> over_budget (lru_New limit f :: ('a, 'b) Cache)" "maxBytes (lru_New limit f :: ('a, 'b) Cache) = limit"
    using assms by (auto simp: over_budget_def word_sle_eq word_sless_alt)
  with lru_run_total [of vlen "lru_New limit f" ops w] assms
  obtain c w' where "lru_run vlen ops (lru_New limit f) w = Some (c, w')" "lru_inv vlen c"
      "maxBytes c = limit" "\<not> over_budget c"
    by auto
  then show ?thesis
    by (auto simp: nBytes_abs distinct_abs over_budget_def word_sle_eq word_sless_alt)
qed

theorem lru_history_within_bound_witness:
  "\<exists>c w'. lru_run (\<lambda>v. of_nat (length v)) [OpAdd ''key1'' ''value1'', OpAdd ''key2'' ''value2'',
      OpAdd ''k3'' ''v3''] (lru_New 20 None) () = Some (c, w') \<and> nBytes c \<le>s 20"
  using lru_history_within_bound [of 20 "\<lambda>v. of_nat (length v)" "[OpAdd ''key1'' ''value1'',
      OpAdd ''key2'' ''value2'', OpAdd ''k3'' ''v3'']" None "()"]
  by (auto simp: word_sle_eq)

text \<open>
  A value read from a cache that started out empty is the value of the last \<^verbatim>\<open>Add\<close> under
  that key: eviction may lose a pair but never brings an older value back.
\<close>

theorem lru_read_last_write:
  assumes "lru_run vlen ops (lru_New limit f) w = Some (c, w')" and "fst (lru_Get k c) = Some v"
  shows "last_added ops k = Some v"
  using lru.get_after_run [of vlen "(lru_New limit f, w)" ops "(c, w')" k v] assms
  by (simp add: lru_run_store lru_contents_def fun_eq_iff)

theorem lru_read_last_write_witness:
  "\<exists>c w. lru_run (\<lambda>v. 1) [OpAdd ''a'' (1::nat), OpAdd ''a'' 2] (lru_New 0 None) () = Some (c, w) \<and>
     fst (lru_Get ''a'' c) = Some 2 \<and>
     last_added [OpAdd ''a'' (1::nat), OpAdd ''a'' 2] ''a'' = fst (lru_Get ''a'' c)"
proof -
  let ?l = "(\<lambda>v. 1) :: nat \<Rightarrow> int64"
  let ?s = "lru_New 0 None :: (nat, unit) Cache"
  have run: "\<exists>c w. lru_run ?l [OpAdd ''a'' 1, OpAdd ''a'' 2] ?s () = Some (c, w) \<and>
      fst (lru_Get ''a'' c) = Some 2"
    by (simp add: lru_Add_def evict_loop.simps over_budget_def lru_insert_def lru_New_def Let_def
        lru_Get_def)
  then show ?thesis using lru_read_last_write [of ?l _ 0 None "()"] by metis
qed

lemma spec_evict_keeps_head:
  assumes "limit = 0 \<or> \<not> limit <s pair_bytes vlen p"
  shows "\<exists>ys. spec_evict vlen limit (p # xs) = p # ys"
proof (induction xs rule: rev_induct)
  case Nil
  with assms show ?case by (simp add: spec_evict_fits)
next
  case (snoc x xs)
  then show ?case
    using spec_evict_step [of "p # xs @ [x]" limit vlen] spec_evict_fits [of "p # xs @ [x]" limit vlen]
    by (cases "limit = 0 \<or> \<not> limit <s (\<Sum>p\<leftarrow>p # xs @ [x]. pair_bytes vlen p)")
      (auto simp: butlast_append)
qed

text \<open>
  The pair just added is evicted only when it does not fit by itself, so a \<^verbatim>\<open>Get\<close> that
  follows an \<^verbatim>\<open>Add\<close> of a fitting pair returns the value added.
\<close>

theorem lru_Get_after_Add:
  assumes "lru_inv vlen c" and "0 \<le>s maxBytes c"
    and "maxBytes c = 0 \<or> \<not> maxBytes c <s pair_bytes vlen (k, v)"
  shows "\<exists>c' w'. lru_Add vlen k v c w = Some (c', w') \<and> fst (lru_Get k c') = Some v"
proof -
  obtain c' w' where add: "lru_Add vlen k v c w = Some (c', w')" and inv: "lru_inv vlen c'"
      and abs: "lru_abs c' = spec_evict vlen (maxBytes c) (spec_put k v (lru_abs c))"
    using lru_Add_total [OF assms(1,2), of k v w] by blast
  obtain ys where "lru_abs c' = (k, v) # ys"
    using abs spec_evict_keeps_head [OF assms(3)] by (auto simp: spec_put_def)
  with add abs_Get(1) [OF inv, of k] show ?thesis by simp
qed

theorem lru_Get_after_Add_witness:
  "\<exists>c' w'. lru_Add (\<lambda>v. of_nat (length v)) ''k'' ''v'' (lru_New 2 None) () = Some (c', w') \<and>
     fst (lru_Get ''k'' c') = Some ''v''"
  by (rule lru_Get_after_Add) (simp_all add: word_sle_eq pair_bytes_def word_sless_alt)

text \<open>
  With a negative bound the first \<^verbatim>\<open>Add\<close> to a new cache never returns: once the list is
  empty \<^verbatim>\<open>RemoveOldest\<close> does nothing, and the loop condition stays true.
\<close>

theorem lru_Add_negative_limit_diverges:
  assumes "limit <s 0" and "0 \<le>s pair_bytes vlen (k, v)"
  shows "lru_Add vlen k v (lru_New limit f) w = None"
proof -
  let ?c = "lru_insert vlen k v (lru_New limit f)"
  let ?r = "lru_RemoveOldest vlen ?c w"
  have inv: "lru_inv vlen ?c" "lru_inv vlen (fst ?r)"
    by (simp_all add: lru_inv_insert lru_inv_RemoveOldest)
  have abs: "lru_abs ?c = [(k, v)]" by (simp add: abs_insert spec_put_def)
  then have ne: "dl ?c \<noteq> []" by (auto simp: lru_abs_def)
  have "lru_abs (fst ?r) = []" using abs_RemoveOldest(1) [OF inv(1) ne, of w] abs by simp
  then have "dl (fst ?r) = []" "nBytes (fst ?r) = 0"
    using nBytes_abs [OF inv(2)] by (auto simp: lru_abs_def)
  moreover from this have "over_budget (fst ?r)" and over: "over_budget ?c"
    using assms nBytes_abs [OF inv(1)] abs
    by (auto simp: over_budget_def word_sle_eq word_sless_alt)
  ultimately have "evict_loop vlen (fst ?r) (snd ?r) = None"
    using evict_loop_stuck by (metis not_Some_eq)
  with over show ?thesis by (subst lru_Add_def, subst evict_loop.simps) simp
qed

theorem lru_Add_negative_limit_diverges_witness:
  "lru_Add (\<lambda>v. 1) ''k'' (0 :: nat) (lru_New (- 1) None) () = None"
  by (rule lru_Add_negative_limit_diverges) (simp_all add: word_sless_alt word_sle_eq pair_bytes_def)

end
