(* ===== verification/Singleflight.thy ===== *)
theory Singleflight
  imports Prelude
begin

text \<open>
  Package \<^verbatim>\<open>geecache/singleflight\<close> (\<^verbatim>\<open>singleflight.go\<close>) as a transition system: any number of
  goroutines (numbered threads) call \<^verbatim>\<open>Do\<close> on one group.  The sections of the code that hold
  the mutex \<^verbatim>\<open>mu\<close> contain no blocking operation, so each is one step; the user function, the
  wait and the release of the waiters are steps of their own, interleaved in any order.  A call
  object has an address; \<open>call_wg\<close> is the counter of its wait group and \<open>call_res\<close> its pair
  \<^verbatim>\<open>(val, err)\<close>, absent until the function has returned.
\<close>

section \<open>State and steps\<close>

type_synonym thread = nat
type_synonym call_id = nat

record 'r call =
  call_wg :: nat
  call_res :: "'r option"

datatype 'r pc =
    Idle
  | Enter string
  | Waiting string call_id
  | Leading string call_id
  | Executed string call_id
  | Notified string call_id
  | Panicked string call_id
  | Returned string "'r option"

text \<open>
  \<open>trace\<close> is a ghost: the executions of user functions that have returned, each with its key,
  its call object and its result.
\<close>

record 'r flight =
  sf_map :: "string \<Rightarrow> call_id option"
  calls :: "call_id \<Rightarrow> 'r call"
  next_call :: call_id
  pc_of :: "thread \<Rightarrow> 'r pc"
  trace :: "(string \<times> call_id \<times> 'r) list"

definition sf_init :: "'r flight" where
  "sf_init = \<lparr>sf_map = Map.empty, calls = (\<lambda>_. \<lparr>call_wg = 0, call_res = None\<rparr>), next_call = 0,
     pc_of = (\<lambda>_. Idle), trace = []\<rparr>"

abbreviation set_pc :: "thread \<Rightarrow> 'r pc \<Rightarrow> 'r flight \<Rightarrow> 'r flight" where
  "set_pc t p s \<equiv> s\<lparr>pc_of := (pc_of s)(t := p)\<rparr>"

text \<open>Lines 16 to 23: the key has a call, so the thread will wait for it.\<close>

definition do_join :: "thread \<Rightarrow> string \<Rightarrow> call_id \<Rightarrow> 'r flight \<Rightarrow> 'r flight" where
  "do_join t k c s = set_pc t (Waiting k c) s"

text \<open>Lines 30 to 33: the key has no call; a new one with a wait count of 1 is registered.\<close>

definition do_lead :: "thread \<Rightarrow> string \<Rightarrow> 'r flight \<Rightarrow> 'r flight" where
  "do_lead t k s =
     (let c = next_call s
      in set_pc t (Leading k c)
           (s\<lparr>calls := (calls s)(c := \<lparr>call_wg = 1, call_res = None\<rparr>), sf_map := (sf_map s)(k \<mapsto> c),
              next_call := c + 1\<rparr>))"

text \<open>Line 36: the user function returns \<open>r\<close>.\<close>

definition do_exec :: "thread \<Rightarrow> string \<Rightarrow> call_id \<Rightarrow> 'r \<Rightarrow> 'r flight \<Rightarrow> 'r flight" where
  "do_exec t k c r s =
     set_pc t (Executed k c)
       (s\<lparr>calls := (calls s)(c := (calls s c)\<lparr>call_res := Some r\<rparr>), trace := (k, c, r) # trace s\<rparr>)"

text \<open>Line 37: \<^verbatim>\<open>wg.Done()\<close>.\<close>

definition do_done :: "thread \<Rightarrow> string \<Rightarrow> call_id \<Rightarrow> 'r flight \<Rightarrow> 'r flight" where
  "do_done t k c s =
     set_pc t (Notified k c) (s\<lparr>calls := (calls s)(c := (calls s c)\<lparr>call_wg := call_wg (calls s c) - 1\<rparr>)\<rparr>)"

text \<open>Lines 40 to 44: the key is deleted from the map and the result is returned.\<close>

definition do_finish :: "thread \<Rightarrow> string \<Rightarrow> call_id \<Rightarrow> 'r flight \<Rightarrow> 'r flight" where
  "do_finish t k c s = set_pc t (Returned k (call_res (calls s c))) (s\<lparr>sf_map := (sf_map s)(k := None)\<rparr>)"

text \<open>Lines 25 to 27: the wait is over when the counter is 0.\<close>

definition do_wake :: "thread \<Rightarrow> string \<Rightarrow> call_id \<Rightarrow> 'r flight \<Rightarrow> 'r flight" where
  "do_wake t k c s = set_pc t (Returned k (call_res (calls s c))) s"

text \<open>
  A step of one thread.  If the user function panics, none of the lines after 36 runs: the
  code has no \<^verbatim>\<open>defer\<close>.
\<close>

inductive sf_step :: "'r flight \<Rightarrow> 'r flight \<Rightarrow> bool" where
  call: "pc_of s t = Idle \<or> (\<exists>k' v. pc_of s t = Returned k' v) \<Longrightarrow> sf_step s (set_pc t (Enter k) s)"
| join: "pc_of s t = Enter k \<Longrightarrow> sf_map s k = Some c \<Longrightarrow> sf_step s (do_join t k c s)"
| lead: "pc_of s t = Enter k \<Longrightarrow> sf_map s k = None \<Longrightarrow> sf_step s (do_lead t k s)"
| exec: "pc_of s t = Leading k c \<Longrightarrow> sf_step s (do_exec t k c r s)"
| panic: "pc_of s t = Leading k c \<Longrightarrow> sf_step s (set_pc t (Panicked k c) s)"
| notify: "pc_of s t = Executed k c \<Longrightarrow> sf_step s (do_done t k c s)"
| finish: "pc_of s t = Notified k c \<Longrightarrow> sf_step s (do_finish t k c s)"
| wake: "pc_of s t = Waiting k c \<Longrightarrow> call_wg (calls s c) = 0 \<Longrightarrow> sf_step s (do_wake t k c s)"

inductive sf_steps :: "'r flight \<Rightarrow> 'r flight \<Rightarrow> bool" where
  refl: "sf_steps s s"
| step: "sf_steps s t \<Longrightarrow> sf_step t u \<Longrightarrow> sf_steps s u"

abbreviation sf_reachable :: "'r flight \<Rightarrow> bool" where
  "sf_reachable s \<equiv> sf_steps sf_init s"

lemmas do_defs = do_join_def do_lead_def do_exec_def do_done_def do_finish_def do_wake_def Let_def

section \<open>Invariant\<close>

text \<open>
  \<open>owner p k c\<close>: a thread at \<open>p\<close> has registered the call \<open>c\<close> for the key \<open>k\<close> and has not
  deleted it yet.
\<close>

fun owner :: "'r pc \<Rightarrow> string \<Rightarrow> call_id \<Rightarrow> bool" where
  "owner (Leading k' c') k c \<longleftrightarrow> k' = k \<and> c' = c"
| "owner (Executed k' c') k c \<longleftrightarrow> k' = k \<and> c' = c"
| "owner (Notified k' c') k c \<longleftrightarrow> k' = k \<and> c' = c"
| "owner (Panicked k' c') k c \<longleftrightarrow> k' = k \<and> c' = c"
| "owner _ k c \<longleftrightarrow> False"

text \<open>What the program counter of a thread says about the call it works on.\<close>

fun pc_ok :: "'r flight \<Rightarrow> 'r pc \<Rightarrow> bool" where
  "pc_ok s (Leading k c) \<longleftrightarrow> call_wg (calls s c) = 1 \<and> (\<forall>k' r. (k', c, r) \<notin> set (trace s))"
| "pc_ok s (Panicked k c) \<longleftrightarrow> call_wg (calls s c) = 1"
| "pc_ok s (Executed k c) \<longleftrightarrow> call_wg (calls s c) = 1 \<and> (\<exists>r. (k, c, r) \<in> set (trace s))"
| "pc_ok s (Notified k c) \<longleftrightarrow> call_wg (calls s c) = 0 \<and> (\<exists>r. (k, c, r) \<in> set (trace s))"
| "pc_ok s (Waiting k c) \<longleftrightarrow> c < next_call s \<and>
     (sf_map s k = Some c \<or> call_wg (calls s c) = 0 \<and> (\<exists>r. (k, c, r) \<in> set (trace s)))"
| "pc_ok s (Returned k v) \<longleftrightarrow> (\<exists>c r. v = Some r \<and> (k, c, r) \<in> set (trace s))"
| "pc_ok s _ \<longleftrightarrow> True"

definition sf_inv :: "'r flight \<Rightarrow> bool" where
  "sf_inv s \<longleftrightarrow>
     (\<forall>k c. sf_map s k = Some c \<longrightarrow> c < next_call s \<and> (\<exists>t. owner (pc_of s t) k c)) \<and>
     (\<forall>t k c. owner (pc_of s t) k c \<longrightarrow> sf_map s k = Some c) \<and>
     (\<forall>t t' k c k'. owner (pc_of s t) k c \<longrightarrow> owner (pc_of s t') k' c \<longrightarrow> t = t') \<and>
     (\<forall>t. pc_ok s (pc_of s t)) \<and>
     (\<forall>k c r. (k, c, r) \<in> set (trace s) \<longrightarrow> c < next_call s \<and> call_res (calls s c) = Some r) \<and>
     distinct (map (\<lambda>(k, c, r). c) (trace s))"

lemma sf_inv_init: "sf_inv sf_init"
  by (simp add: sf_inv_def sf_init_def)

lemma sf_invI:
  assumes "\<And>k c. sf_map s k = Some c \<Longrightarrow> c < next_call s \<and> (\<exists>t. owner (pc_of s t) k c)"
    and "\<And>t k c. owner (pc_of s t) k c \<Longrightarrow> sf_map s k = Some c"
    and "\<And>t t' k c k'. owner (pc_of s t) k c \<Longrightarrow> owner (pc_of s t') k' c \<Longrightarrow> t = t'"
    and "\<And>t. pc_ok s (pc_of s t)"
    and "\<And>k c r. (k, c, r) \<in> set (trace s) \<Longrightarrow> c < next_call s \<and> call_res (calls s c) = Some r"
    and "distinct (map (\<lambda>(k, c, r). c) (trace s))"
  shows "sf_inv s"
  using assms unfolding sf_inv_def by blast

lemma sf_invD:
  assumes "sf_inv s"
  shows "sf_map s k = Some c \<Longrightarrow> c < next_call s" and "sf_map s k = Some c \<Longrightarrow> \<exists>t. owner (pc_of s t) k c"
    and "owner (pc_of s t) k c \<Longrightarrow> sf_map s k = Some c"
    and "owner (pc_of s t) k c \<Longrightarrow> owner (pc_of s t') k' c \<Longrightarrow> t = t'"
    and "pc_ok s (pc_of s t)"
    and "(k, c, r) \<in> set (trace s) \<Longrightarrow> c < next_call s"
    and "(k, c, r) \<in> set (trace s) \<Longrightarrow> call_res (calls s c) = Some r"
    and "distinct (map (\<lambda>(k, c, r). c) (trace s))"
  using assms unfolding sf_inv_def by blast+

lemma pc_ok_other:
  assumes "pc_ok s p"
    and "\<And>k c. owner p k c \<Longrightarrow> calls s' c = calls s c \<and>
      (\<forall>k' r. (k', c, r) \<in> set (trace s') \<longleftrightarrow> (k', c, r) \<in> set (trace s))"
    and "\<And>x. x \<in> set (trace s) \<Longrightarrow> x \<in> set (trace s')"
    and "next_call s \<le> next_call s'"
    and "\<And>k c. p = Waiting k c \<Longrightarrow>
      sf_map s' k = Some c \<or> call_wg (calls s' c) = 0 \<and> (\<exists>r. (k, c, r) \<in> set (trace s'))"
  shows "pc_ok s' p"
  using assms by (cases p) (auto, blast+)

lemma pc_ok_set_pc [simp]: "pc_ok (set_pc t p s) q = pc_ok s q"
  by (cases q) auto

lemma inv_set_pc:
  assumes inv: "sf_inv s" and own: "owner p = owner (pc_of s t)" and ok: "pc_ok s p"
  shows "sf_inv (set_pc t p s)"
proof -
  have "owner (pc_of (set_pc t p s) x) = owner (pc_of s x)" for x using own by simp
  then show ?thesis
    using inv ok unfolding sf_inv_def by (simp add: all_conj_distrib)
qed

lemma pc_cases_owner: "owner (pc_of s t) k c \<Longrightarrow> pc_of s t \<noteq> Idle \<and> pc_of s t \<noteq> Enter k' \<and>
   pc_of s t \<noteq> Waiting k' c' \<and> pc_of s t \<noteq> Returned k' v"
  by (cases "pc_of s t") auto

lemma inv_call:
  assumes "sf_inv s" and "pc_of s t = Idle \<or> (\<exists>k' v. pc_of s t = Returned k' v)"
  shows "sf_inv (set_pc t (Enter k) s)"
  using assms by (intro inv_set_pc) (auto simp: fun_eq_iff)

lemma inv_join:
  assumes inv: "sf_inv s" and "pc_of s t = Enter k" and "sf_map s k = Some c"
  shows "sf_inv (do_join t k c s)"
  unfolding do_join_def using assms sf_invD(1) [OF inv] by (intro inv_set_pc) (auto simp: fun_eq_iff)

lemma inv_panic:
  assumes inv: "sf_inv s" and "pc_of s t = Leading k c"
  shows "sf_inv (set_pc t (Panicked k c) s)"
  using assms sf_invD(5) [OF inv, of t] by (intro inv_set_pc) (auto simp: fun_eq_iff)

text \<open>A waiter that finds the counter at 0 reads the result of a logged execution of its key.\<close>

lemma waiting_done:
  assumes inv: "sf_inv s" and p: "pc_of s t = Waiting k c" and wg: "call_wg (calls s c) = 0"
  shows "\<exists>r. (k, c, r) \<in> set (trace s) \<and> call_res (calls s c) = Some r"
proof -
  have "\<exists>r. (k, c, r) \<in> set (trace s)"
  proof (cases "sf_map s k = Some c")
    case True
    then obtain t' where o: "owner (pc_of s t') k c" using sf_invD(2) [OF inv] by blast
    with sf_invD(5) [OF inv, of t'] wg show ?thesis by (cases "pc_of s t'") auto
  qed (use sf_invD(5) [OF inv, of t] p in auto)
  then show ?thesis using sf_invD(7) [OF inv] by blast
qed

lemma inv_wake:
  assumes inv: "sf_inv s" and "pc_of s t = Waiting k c" and "call_wg (calls s c) = 0"
  shows "sf_inv (do_wake t k c s)"
  unfolding do_wake_def using waiting_done [OF assms] assms
  by (intro inv_set_pc) (auto simp: fun_eq_iff)

lemma inv_lead:
  assumes inv: "sf_inv s" and p: "pc_of s t = Enter k" and k: "sf_map s k = None"
  shows "sf_inv (do_lead t k s)"
proof (rule sf_invI)
  let ?s = "do_lead t k s"
  note own = sf_invD(3) [OF inv]
  have fresh: "\<And>x k' c. owner (pc_of s x) k' c \<Longrightarrow> c < next_call s"
    using own sf_invD(1) [OF inv] by blast
  have nt: "\<And>k c. \<not> owner (pc_of s t) k c" using p by simp
  show "c < next_call ?s \<and> (\<exists>x. owner (pc_of ?s x) k' c)" if "sf_map ?s k' = Some c" for k' c
  proof (cases "k' = k")
    case True
    with that show ?thesis by (auto simp: do_defs)
  next
    case False
    with that have "sf_map s k' = Some c" by (simp add: do_defs)
    from sf_invD(1,2) [OF inv this] obtain x where "owner (pc_of s x) k' c" "c < next_call s" by blast
    moreover from this have "x \<noteq> t" using nt by blast
    ultimately show ?thesis by (auto simp: do_defs)
  qed
  show "sf_map ?s k' = Some c" if "owner (pc_of ?s x) k' c" for x k' c
    using that own k by (cases "x = t") (force simp: do_defs)+
  show "x = x'" if "owner (pc_of ?s x) k' c" "owner (pc_of ?s x') k'' c" for x x' k' c k''
    using that fresh sf_invD(4) [OF inv] by (auto simp: do_defs split: if_splits)
  show "pc_ok ?s (pc_of ?s x)" for x
  proof (cases "x = t")
    case True
    then show ?thesis using sf_invD(6) [OF inv] by (fastforce simp: do_defs)
  next
    case False
    have "pc_ok ?s (pc_of s x)"
    proof (rule pc_ok_other [OF sf_invD(5) [OF inv, of x]])
      fix k' c assume "pc_of s x = Waiting k' c"
      with sf_invD(5) [OF inv, of x] k
      show "sf_map ?s k' = Some c \<or> call_wg (calls ?s c) = 0 \<and> (\<exists>r. (k', c, r) \<in> set (trace ?s))"
        by (auto simp: do_defs)
    qed (use fresh in \<open>auto simp: do_defs\<close>)
    with False show ?thesis by (simp add: do_defs)
  qed
  show "c < next_call ?s \<and> call_res (calls ?s c) = Some r" if "(k', c, r) \<in> set (trace ?s)" for k' c r
    using that sf_invD(6,7) [OF inv] by (fastforce simp: do_defs)
  show "distinct (map (\<lambda>(k, c, r). c) (trace ?s))" using sf_invD(8) [OF inv] by (simp add: do_defs)
qed

lemma owner_fun: "owner p k c \<Longrightarrow> owner p k' c' \<Longrightarrow> k = k' \<and> c = c'"
  by (cases p) auto

lemma owner_other:
  assumes inv: "sf_inv s" and "owner (pc_of s t) k c" and "owner (pc_of s x) k' c'" and "x \<noteq> t"
  shows "k' \<noteq> k" and "c' \<noteq> c"
  using assms sf_invD(3,4) [OF inv] by (metis option.inject)+

lemma inv_exec:
  assumes inv: "sf_inv s" and p: "pc_of s t = Leading k c"
  shows "sf_inv (do_exec t k c r s)"
proof (rule sf_invI)
  let ?s = "do_exec t k c r s"
  have o: "owner (pc_of s t) k c" using p by simp
  have same: "owner (pc_of ?s x) = owner (pc_of s x)" for x using p by (auto simp: do_defs fun_eq_iff)
  have new: "\<And>k' r'. (k', c, r') \<notin> set (trace s)" using sf_invD(5) [OF inv, of t] p by simp
  show "c' < next_call ?s \<and> (\<exists>x. owner (pc_of ?s x) k' c')" if "sf_map ?s k' = Some c'" for k' c'
    unfolding same using that sf_invD(1,2) [OF inv] by (simp add: do_defs)
  show "sf_map ?s k' = Some c'" if "owner (pc_of ?s x) k' c'" for x k' c'
    using that sf_invD(3) [OF inv] unfolding same by (simp add: do_defs)
  show "x = x'" if "owner (pc_of ?s x) k' c'" "owner (pc_of ?s x') k'' c'" for x x' k' c' k''
    using that sf_invD(4) [OF inv] unfolding same by blast
  show "pc_ok ?s (pc_of ?s x)" for x
  proof (cases "x = t")
    case True
    then show ?thesis using sf_invD(5) [OF inv, of t] p by (auto simp: do_defs)
  next
    case False
    have "pc_ok ?s (pc_of s x)"
    proof (rule pc_ok_other [OF sf_invD(5) [OF inv, of x]])
      fix k' c' assume "owner (pc_of s x) k' c'"
      from owner_other(2) [OF inv o this False]
      show "calls ?s c' = calls s c' \<and> (\<forall>k' r'. (k', c', r') \<in> set (trace ?s) \<longleftrightarrow> (k', c', r') \<in> set (trace s))"
        by (auto simp: do_defs)
    next
      fix k' c' assume "pc_of s x = Waiting k' c'"
      with sf_invD(5) [OF inv, of x]
      show "sf_map ?s k' = Some c' \<or> call_wg (calls ?s c') = 0 \<and> (\<exists>r. (k', c', r) \<in> set (trace ?s))"
        by (auto simp: do_defs)
    qed (auto simp: do_defs)
    with False show ?thesis by (simp add: do_defs)
  qed
  show "c' < next_call ?s \<and> call_res (calls ?s c') = Some r'" if "(k', c', r') \<in> set (trace ?s)" for k' c' r'
    using that new sf_invD(6,7) [OF inv] sf_invD(1) [OF inv sf_invD(3) [OF inv o]]
    by (auto simp: do_defs)
  show "distinct (map (\<lambda>(k, c, r). c) (trace ?s))"
    using sf_invD(8) [OF inv] new by (auto simp: do_defs)
qed

lemma inv_notify:
  assumes inv: "sf_inv s" and p: "pc_of s t = Executed k c"
  shows "sf_inv (do_done t k c s)"
proof (rule sf_invI)
  let ?s = "do_done t k c s"
  have o: "owner (pc_of s t) k c" using p by simp
  have same: "owner (pc_of ?s x) = owner (pc_of s x)" for x using p by (auto simp: do_defs fun_eq_iff)
  show "c' < next_call ?s \<and> (\<exists>x. owner (pc_of ?s x) k' c')" if "sf_map ?s k' = Some c'" for k' c'
    unfolding same using that sf_invD(1,2) [OF inv] by (simp add: do_defs)
  show "sf_map ?s k' = Some c'" if "owner (pc_of ?s x) k' c'" for x k' c'
    using that sf_invD(3) [OF inv] unfolding same by (simp add: do_defs)
  show "x = x'" if "owner (pc_of ?s x) k' c'" "owner (pc_of ?s x') k'' c'" for x x' k' c' k''
    using that sf_invD(4) [OF inv] unfolding same by blast
  show "pc_ok ?s (pc_of ?s x)" for x
  proof (cases "x = t")
    case True
    then show ?thesis using sf_invD(5) [OF inv, of t] p by (auto simp: do_defs)
  next
    case False
    have "pc_ok ?s (pc_of s x)"
    proof (rule pc_ok_other [OF sf_invD(5) [OF inv, of x]])
      fix k' c' assume "owner (pc_of s x) k' c'"
      from owner_other(2) [OF inv o this False]
      show "calls ?s c' = calls s c' \<and> (\<forall>k' r'. (k', c', r') \<in> set (trace ?s) \<longleftrightarrow> (k', c', r') \<in> set (trace s))"
        by (auto simp: do_defs)
    next
      fix k' c' assume "pc_of s x = Waiting k' c'"
      with sf_invD(5) [OF inv, of x]
      show "sf_map ?s k' = Some c' \<or> call_wg (calls ?s c') = 0 \<and> (\<exists>r. (k', c', r) \<in> set (trace ?s))"
        by (auto simp: do_defs)
    qed (auto simp: do_defs)
    with False show ?thesis by (simp add: do_defs)
  qed
  show "c' < next_call ?s \<and> call_res (calls ?s c') = Some r'" if "(k', c', r') \<in> set (trace ?s)" for k' c' r'
    using that sf_invD(6,7) [OF inv] by (auto simp: do_defs)
  show "distinct (map (\<lambda>(k, c, r). c) (trace ?s))"
    using sf_invD(8) [OF inv] by (simp add: do_defs)
qed

lemma inv_finish:
  assumes inv: "sf_inv s" and p: "pc_of s t = Notified k c"
  shows "sf_inv (do_finish t k c s)"
proof (rule sf_invI)
  let ?s = "do_finish t k c s"
  have o: "owner (pc_of s t) k c" using p by simp
  have others: "owner (pc_of ?s x) k' c' \<longleftrightarrow> x \<noteq> t \<and> owner (pc_of s x) k' c'" for x k' c'
    by (simp add: do_defs)
  obtain r where r: "(k, c, r) \<in> set (trace s)" "call_wg (calls s c) = 0"
    using sf_invD(5) [OF inv, of t] p by auto
  show "c' < next_call ?s \<and> (\<exists>x. owner (pc_of ?s x) k' c')" if "sf_map ?s k' = Some c'" for k' c'
  proof -
    have k': "k' \<noteq> k" "sf_map s k' = Some c'" using that by (auto simp: do_defs split: if_splits)
    then obtain x where "owner (pc_of s x) k' c'" using sf_invD(2) [OF inv] by blast
    moreover from this o k'(1) have "x \<noteq> t" by (metis owner_fun)
    ultimately show ?thesis
      unfolding others using sf_invD(1) [OF inv k'(2)] by (auto simp: do_defs)
  qed
  show "sf_map ?s k' = Some c'" if "owner (pc_of ?s x) k' c'" for x k' c'
    using that owner_other(1) [OF inv o, of x k' c'] sf_invD(3) [OF inv, of x k' c']
    unfolding others by (simp add: do_defs)
  show "x = x'" if "owner (pc_of ?s x) k' c'" "owner (pc_of ?s x') k'' c'" for x x' k' c' k''
    using that sf_invD(4) [OF inv] unfolding others by blast
  show "pc_ok ?s (pc_of ?s x)" for x
  proof (cases "x = t")
    case True
    then show ?thesis using r(1) sf_invD(7) [OF inv r(1)] by (auto simp: do_defs)
  next
    case False
    have "pc_ok ?s (pc_of s x)"
    proof (rule pc_ok_other [OF sf_invD(5) [OF inv, of x]])
      fix k' c' assume "pc_of s x = Waiting k' c'"
      with sf_invD(5) [OF inv, of x] r sf_invD(3) [OF inv o]
      show "sf_map ?s k' = Some c' \<or> call_wg (calls ?s c') = 0 \<and> (\<exists>r. (k', c', r) \<in> set (trace ?s))"
        by (auto simp: do_defs)
    qed (auto simp: do_defs)
    with False show ?thesis by (simp add: do_defs)
  qed
  show "c' < next_call ?s \<and> call_res (calls ?s c') = Some r'" if "(k', c', r') \<in> set (trace ?s)" for k' c' r'
    using that sf_invD(6,7) [OF inv] by (auto simp: do_defs)
  show "distinct (map (\<lambda>(k, c, r). c) (trace ?s))"
    using sf_invD(8) [OF inv] by (simp add: do_defs)
qed

lemma sf_step_inv: "sf_step s s' \<Longrightarrow> sf_inv s \<Longrightarrow> sf_inv s'"
  by (induction rule: sf_step.induct)
    (blast intro: inv_call inv_join inv_lead inv_exec inv_panic inv_notify inv_finish inv_wake)+

lemma sf_steps_inv: "sf_steps s s' \<Longrightarrow> sf_inv s \<Longrightarrow> sf_inv s'"
  by (induction rule: sf_steps.induct) (auto intro: sf_step_inv)

lemma reachable_inv: "sf_reachable s \<Longrightarrow> sf_inv s"
  using sf_steps_inv sf_inv_init by blast

section \<open>Properties\<close>

text \<open>
  At most one goroutine at a time runs the user function of a key: two goroutines between
  the registration of a call for the same key and its deletion are the same goroutine.
\<close>

theorem sf_single_execution:
  assumes "sf_reachable s" and "owner (pc_of s t) k c" and "owner (pc_of s t') k c'"
  shows "t = t' \<and> c = c'"
proof -
  have inv: "sf_inv s" by (rule reachable_inv [OF assms(1)])
  from sf_invD(3) [OF inv assms(2)] sf_invD(3) [OF inv assms(3)] have "c = c'" by simp
  with sf_invD(4) [OF inv assms(2), of t' k] assms(3) show ?thesis by simp
qed

lemma reachable_step: "sf_reachable s \<Longrightarrow> sf_step s s' \<Longrightarrow> sf_reachable s'"
  by (rule sf_steps.step)

lemma example_leading: "sf_reachable (do_lead 0 k (set_pc 0 (Enter k) sf_init))"
  by (rule reachable_step [OF reachable_step [OF sf_steps.refl sf_step.call] sf_step.lead])
    (simp_all add: sf_init_def)

theorem sf_single_execution_witness:
  "\<exists>s :: nat flight. sf_reachable s \<and> owner (pc_of s 0) ''k'' 0 \<and> (\<forall>t. owner (pc_of s t) ''k'' 0 \<longrightarrow> t = 0)"
proof -
  let ?s = "do_lead 0 ''k'' (set_pc 0 (Enter ''k'') sf_init) :: nat flight"
  have own: "owner (pc_of ?s 0) ''k'' 0" by (simp add: do_lead_def sf_init_def Let_def)
  have "\<And>t. owner (pc_of ?s t) ''k'' 0 \<Longrightarrow> t = 0"
    using sf_single_execution [OF example_leading own] by metis
  with own example_leading [of "''k''"] show ?thesis by blast
qed

text \<open>
  C13: every \<^verbatim>\<open>Do\<close> that returns has returned the result of a real execution of the user
  function for its own key, and every call object was executed at most once; so the goroutines
  that waited for a call all return the result of its one execution.
\<close>

theorem sf_result_shared:
  assumes "sf_reachable s" and "pc_of s t = Returned k v"
  shows "\<exists>c r. v = Some r \<and> (k, c, r) \<in> set (trace s) \<and>
    (\<forall>k' r'. (k', c, r') \<in> set (trace s) \<longrightarrow> r' = r) \<and> distinct (map (\<lambda>(k, c, r). c) (trace s))"
proof -
  have inv: "sf_inv s" by (rule reachable_inv [OF assms(1)])
  from sf_invD(5) [OF inv, of t] assms(2) obtain c r where
    r: "v = Some r" "(k, c, r) \<in> set (trace s)" by auto
  have "r' = r" if "(k', c, r') \<in> set (trace s)" for k' r'
    using sf_invD(7) [OF inv that] sf_invD(7) [OF inv r(2)] by simp
  with r sf_invD(8) [OF inv] show ?thesis by blast
qed

text \<open>A run of two goroutines: the second one joins the call of the first one.\<close>

definition example_shared :: "nat flight" where
  "example_shared =
     do_wake 1 ''k'' 0 (do_done 0 ''k'' 0 (do_exec 0 ''k'' 0 7 (do_join 1 ''k'' 0
       (set_pc 1 (Enter ''k'') (do_lead 0 ''k'' (set_pc 0 (Enter ''k'') sf_init))))))"

lemma example_shared_reachable: "sf_reachable example_shared"
  unfolding example_shared_def
  by (rule reachable_step [OF reachable_step [OF reachable_step [OF reachable_step
        [OF reachable_step [OF example_leading sf_step.call] sf_step.join] sf_step.exec]
        sf_step.notify] sf_step.wake])
    (simp_all add: do_defs sf_init_def)

theorem sf_result_shared_witness:
  "pc_of example_shared 1 = Returned ''k'' (Some 7) \<and>
   (\<exists>c. (''k'', c, 7) \<in> set (trace example_shared))"
proof -
  have p: "pc_of example_shared 1 = Returned ''k'' (Some 7)"
    by (simp add: example_shared_def do_defs sf_init_def)
  with sf_result_shared [OF example_shared_reachable p] show ?thesis by auto
qed

lemma wake_now:
  assumes "sf_inv s" and "pc_of s t = Waiting k c" and "call_wg (calls s c) = 0"
  shows "\<exists>s' r. sf_steps s s' \<and> pc_of s' t = Returned k (Some r)"
proof -
  obtain r where "call_res (calls s c) = Some r" using waiting_done [OF assms] by blast
  then have "pc_of (do_wake t k c s) t = Returned k (Some r)" by (simp add: do_wake_def)
  moreover have "sf_steps s (do_wake t k c s)"
    by (rule sf_steps.step [OF sf_steps.refl]) (rule sf_step.wake [OF assms(2,3)])
  ultimately show ?thesis by blast
qed

lemma steps_trans: "sf_steps s t \<Longrightarrow> sf_steps t u \<Longrightarrow> sf_steps s u"
  by (rotate_tac, induction rule: sf_steps.induct) (auto intro: sf_steps.step)

lemma step_then:
  "sf_step s s1 \<Longrightarrow> \<exists>s' r. sf_steps s1 s' \<and> P s' r \<Longrightarrow> \<exists>s' r. sf_steps s s' \<and> P s' r"
  by (meson sf_steps.refl sf_steps.step steps_trans)

lemma drive_executed:
  assumes inv: "sf_inv s" and w: "pc_of s t = Waiting k c" and o: "pc_of s t' = Executed k c"
  shows "\<exists>s' r. sf_steps s s' \<and> pc_of s' t = Returned k (Some r)"
proof (rule step_then [OF sf_step.notify [OF o]])
  have "sf_inv (do_done t' k c s)" by (rule inv_notify [OF inv o])
  moreover have "pc_of (do_done t' k c s) t = Waiting k c" using w o by (auto simp: do_defs)
  moreover have "call_wg (calls (do_done t' k c s) c) = 0"
    using sf_invD(5) [OF inv, of t'] o by (simp add: do_defs)
  ultimately show "\<exists>s' r. sf_steps (do_done t' k c s) s' \<and> pc_of s' t = Returned k (Some r)"
    by (rule wake_now)
qed

lemma waiter_can_return:
  assumes inv: "sf_inv s" and w: "pc_of s t = Waiting k c" and np: "\<And>t'. pc_of s t' \<noteq> Panicked k c"
  shows "\<exists>s' r. sf_steps s s' \<and> pc_of s' t = Returned k (Some r)"
proof (cases "call_wg (calls s c) = 0")
  case False
  then have "sf_map s k = Some c" using sf_invD(5) [OF inv, of t] w by auto
  then obtain t' where o: "owner (pc_of s t') k c" using sf_invD(2) [OF inv] by blast
  consider "pc_of s t' = Leading k c" | "pc_of s t' = Executed k c"
    using o np [of t'] False sf_invD(5) [OF inv, of t'] by (cases "pc_of s t'") auto
  then show ?thesis
  proof cases
    case 1
    have "pc_of (do_exec t' k c undefined s) t = Waiting k c" using w 1 by (auto simp: do_defs)
    then show ?thesis
      by (intro step_then [OF sf_step.exec [OF 1]] drive_executed [OF inv_exec [OF inv 1], where t' = t'])
        (simp_all add: do_defs)
  qed (rule drive_executed [OF inv w])
qed (rule wake_now [OF inv w])

text \<open>
  C29: a goroutine that waits for a call whose function has not panicked is never stuck: steps
  of the call's owner and of the goroutine itself lead to its return.
\<close>

theorem sf_waiter_can_return:
  assumes "sf_reachable s" and "pc_of s t = Waiting k c" and "\<And>t'. pc_of s t' \<noteq> Panicked k c"
  shows "\<exists>s' r. sf_steps s s' \<and> pc_of s' t = Returned k (Some r)"
  by (rule waiter_can_return [OF reachable_inv [OF assms(1)] assms(2,3)])

lemma example_waiting:
  "sf_reachable (do_join 1 k 0 (set_pc 1 (Enter k) (do_lead 0 k (set_pc 0 (Enter k) sf_init))))"
  by (rule reachable_step [OF reachable_step [OF example_leading sf_step.call] sf_step.join])
    (simp_all add: do_defs sf_init_def)

theorem sf_waiter_can_return_witness:
  "\<exists>s' r. sf_steps (do_join 1 ''k'' 0 (set_pc 1 (Enter ''k'') (do_lead 0 ''k''
     (set_pc 0 (Enter ''k'') sf_init)))) s' \<and> pc_of s' 1 = Returned ''k'' (Some (r :: nat))"
  by (rule sf_waiter_can_return [OF example_waiting]) (auto simp: do_defs sf_init_def)

definition blocked_key :: "string \<Rightarrow> call_id \<Rightarrow> thread \<Rightarrow> 'r flight \<Rightarrow> bool" where
  "blocked_key k c t s \<longleftrightarrow> sf_inv s \<and> pc_of s t = Panicked k c"

lemma blocked_step:
  assumes "sf_step s s'" and b: "blocked_key k c t s"
  shows "blocked_key k c t s' \<and>
    (pc_of s x = Enter k \<or> pc_of s x = Waiting k c \<longrightarrow> pc_of s' x = Enter k \<or> pc_of s' x = Waiting k c)"
proof -
  have inv: "sf_inv s" and p: "pc_of s t = Panicked k c" using b by (auto simp: blocked_key_def)
  have m: "sf_map s k = Some c" using sf_invD(3) [OF inv, of t] p by simp
  have wg: "call_wg (calls s c) = 1" using sf_invD(5) [OF inv, of t] p by simp
  from assms(1) have "pc_of s' t = Panicked k c \<and>
    (pc_of s x = Enter k \<or> pc_of s x = Waiting k c \<longrightarrow> pc_of s' x = Enter k \<or> pc_of s' x = Waiting k c)"
    by (cases rule: sf_step.cases) (use p m wg in \<open>auto simp: do_defs\<close>)
  with sf_step_inv [OF assms(1) inv] show ?thesis by (simp add: blocked_key_def)
qed

lemma blocked_steps:
  "sf_steps s s' \<Longrightarrow> blocked_key k c t s \<Longrightarrow> blocked_key k c t s' \<and>
    (pc_of s x = Enter k \<or> pc_of s x = Waiting k c \<longrightarrow> pc_of s' x = Enter k \<or> pc_of s' x = Waiting k c)"
  by (induction rule: sf_steps.induct) (blast dest: blocked_step)+

text \<open>
  C36: if the user function of a key panics, the key is blocked for good: its call stays in the
  map with a count of 1, and a goroutine that waits for it, or that calls \<^verbatim>\<open>Do\<close> with this key
  later, never returns.
\<close>

theorem sf_panic_blocks_key:
  assumes "sf_reachable s" and "pc_of s t = Panicked k c" and "sf_steps s s'"
  shows "sf_map s' k = Some c \<and> call_wg (calls s' c) = 1 \<and>
    (\<forall>x. pc_of s x = Enter k \<or> pc_of s x = Waiting k c \<longrightarrow> pc_of s' x = Enter k \<or> pc_of s' x = Waiting k c)"
proof -
  have b: "blocked_key k c t s" using assms(2) reachable_inv [OF assms(1)] by (simp add: blocked_key_def)
  with blocked_steps [OF assms(3)] have b': "sf_inv s'" "pc_of s' t = Panicked k c"
    by (auto simp: blocked_key_def)
  from sf_invD(3) [OF b'(1), of t] sf_invD(5) [OF b'(1), of t] b'(2) blocked_steps [OF assms(3) b]
  show ?thesis by auto
qed

definition example_panic :: "nat flight" where
  "example_panic = set_pc 1 (Enter ''k'') (set_pc 0 (Panicked ''k'' 0)
     (do_lead 0 ''k'' (set_pc 0 (Enter ''k'') sf_init)))"

lemma example_panic_reachable: "sf_reachable example_panic"
  unfolding example_panic_def
  by (rule reachable_step [OF reachable_step [OF example_leading sf_step.panic] sf_step.call])
    (simp_all add: do_defs sf_init_def)

theorem sf_panic_blocks_key_witness:
  "sf_map (do_join 1 ''k'' 0 example_panic) ''k'' = Some 0 \<and>
   call_wg (calls (do_join 1 ''k'' 0 example_panic) 0) = 1"
proof -
  have p: "pc_of example_panic 0 = Panicked ''k'' 0" "pc_of example_panic 1 = Enter ''k''"
      "sf_map example_panic ''k'' = Some 0"
    by (simp_all add: example_panic_def do_defs sf_init_def)
  have "sf_steps example_panic (do_join 1 ''k'' 0 example_panic)"
    by (rule sf_steps.step [OF sf_steps.refl sf_step.join [OF p(2,3)]])
  from sf_panic_blocks_key [OF example_panic_reachable p(1) this] show ?thesis by simp
qed

section \<open>One caller\<close>

text \<open>
  \<^verbatim>\<open>Do\<close> as a function, for a caller that is not interleaved with others.  The group is part of a
  larger state \<open>'s\<close>, of which \<open>flights\<close> reads the set of keys in \<^verbatim>\<open>g.m\<close> and \<open>upd\<close> changes it;
  \<open>fn\<close> runs on that state.  A key that is in the map means waiting for another goroutine, and a
  panic of \<open>fn\<close> leaves the key in the map.  When \<open>fn\<close> returns, this is the sequence lead, exec,
  notify, finish of the transition system.
\<close>

definition sf_Do ::
  "('s \<Rightarrow> string set) \<Rightarrow> ((string set \<Rightarrow> string set) \<Rightarrow> 's \<Rightarrow> 's) \<Rightarrow> string \<Rightarrow> ('r, 's) action \<Rightarrow>
   ('r, 's) action"
where
  "sf_Do flights upd k fn s =
     (if k \<in> flights s then (Hangs, s)
      else and_then (fn (upd (insert k) s)) (\<lambda>r s'. (Returns r, upd (\<lambda>ks. ks - {k}) s')))"

lemma sf_Do_steps:
  fixes s :: "'r flight"
  assumes "pc_of s t = Enter k" and "sf_map s k = None"
  shows "sf_steps s (do_finish t k (next_call s) (do_done t k (next_call s)
      (do_exec t k (next_call s) r (do_lead t k s))))"
    and "sf_map (do_finish t k (next_call s) (do_done t k (next_call s)
      (do_exec t k (next_call s) r (do_lead t k s)))) = sf_map s"
    and "pc_of (do_finish t k (next_call s) (do_done t k (next_call s)
      (do_exec t k (next_call s) r (do_lead t k s)))) t = Returned k (Some r)"
  by (rule sf_steps.step [OF sf_steps.step [OF sf_steps.step [OF sf_steps.step [OF sf_steps.refl
        sf_step.lead] sf_step.exec] sf_step.notify] sf_step.finish])
    (use assms in \<open>auto simp: do_defs fun_eq_iff\<close>)

end
