(* ===== verification/GeeCache.thy ===== *)
theory GeeCache
  imports Lru Singleflight
begin

text \<open>
  Package \<^verbatim>\<open>geecache\<close>: the byte views (\<^verbatim>\<open>byteview.go\<close>), the locked cache (\<^verbatim>\<open>cache.go\<close>), the
  peer interfaces (\<^verbatim>\<open>peers.go\<close>) and the groups (\<^verbatim>\<open>geecache.go\<close>).  User code is a parameter:
  the getter of a group and its peers act on the outside world \<open>'w\<close> and may panic.
\<close>

section \<open>Byte views\<close>

text \<open>A byte slice is a value here; \<^verbatim>\<open>cloneBytes\<close> copies it.\<close>

record ByteView =
  bv_b :: bytes

definition bv_Len :: "ByteView \<Rightarrow> int64" where
  "bv_Len v = of_nat (length (bv_b v))"

definition cloneBytes :: "bytes \<Rightarrow> bytes" where
  "cloneBytes bs = fold (\<lambda>i c. c[i := bs ! i]) [0..<length bs] (replicate (length bs) (char_of (0::nat)))"

definition bv_ByteSlice :: "ByteView \<Rightarrow> bytes" where
  "bv_ByteSlice v = cloneBytes (bv_b v)"

definition bv_String :: "ByteView \<Rightarrow> string" where
  "bv_String v = bv_b v"

lemma fold_copy:
  "n \<le> length bs \<Longrightarrow> length c = length bs \<Longrightarrow>
   fold (\<lambda>i c. c[i := bs ! i]) [0..<n] c = take n bs @ drop n c"
proof (induction n)
  case (Suc n)
  then show ?case
    by (simp add: list_update_append take_Suc_conv_app_nth Cons_nth_drop_Suc [symmetric])
qed simp

lemma cloneBytes_id [simp]: "cloneBytes bs = bs"
  using fold_copy [of "length bs" bs "replicate (length bs) (char_of (0::nat))"]
  by (simp add: cloneBytes_def)

section \<open>The locked cache\<close>

text \<open>
  Every operation holds the mutex from beginning to end, so operations are atomic.  The LRU
  cache is created by the first \<^verbatim>\<open>add\<close>, with a nil callback.
\<close>

record cache_t =
  lru_of :: "(ByteView, unit) Cache option"
  cacheBytes :: int64

definition cache_add :: "string \<Rightarrow> ByteView \<Rightarrow> cache_t \<Rightarrow> cache_t option" where
  "cache_add k v c =
     (let l = (case lru_of c of None \<Rightarrow> lru_New (cacheBytes c) None | Some l \<Rightarrow> l)
      in (case lru_Add bv_Len k v l () of
            None \<Rightarrow> None
          | Some (l', _) \<Rightarrow> Some (c\<lparr>lru_of := Some l'\<rparr>)))"

definition cache_get :: "string \<Rightarrow> cache_t \<Rightarrow> ByteView option \<times> cache_t" where
  "cache_get k c =
     (case lru_of c of
        None \<Rightarrow> (None, c)
      | Some l \<Rightarrow> (fst (lru_Get k l), c\<lparr>lru_of := Some (snd (lru_Get k l))\<rparr>))"

section \<open>Groups\<close>

record Request =
  Group_name :: string
  Key :: string

record Response =
  Value :: bytes

text \<open>
  The interfaces \<^verbatim>\<open>PeerGetter\<close>, \<^verbatim>\<open>PeerPicker\<close> and \<^verbatim>\<open>Getter\<close>: a getter or a peer returns an
  error or its data, and a picker returns the peer of a key, if it is a remote one.
\<close>

type_synonym 'w PeerGetter = "Request \<Rightarrow> (error + Response, 'w) action"
type_synonym 'w PeerPicker = "string \<Rightarrow> 'w PeerGetter option outcome"
type_synonym 'w Getter = "string \<Rightarrow> (error + bytes, 'w) action"

record 'w Group =
  group_name :: string
  getter :: "'w Getter"
  mainCache :: cache_t
  peers :: "'w PeerPicker option"
  loader :: "string set"

type_synonym 'w gstate = "'w Group \<times> 'w"

abbreviation on_world :: "('a, 'w) action \<Rightarrow> ('a, 'w gstate) action" where
  "on_world f \<equiv> (\<lambda>(g, w). (fst (f w), (g, snd (f w))))"

definition populateCache :: "string \<Rightarrow> ByteView \<Rightarrow> (unit, 'w gstate) action" where
  "populateCache k v = (\<lambda>(g, w).
     case cache_add k v (mainCache g) of
       None \<Rightarrow> (Hangs, (g, w))
     | Some c \<Rightarrow> (Returns (), (g\<lparr>mainCache := c\<rparr>, w)))"

definition getLocally :: "string \<Rightarrow> (error + ByteView, 'w gstate) action" where
  "getLocally k s =
     and_then (on_world (getter (fst s) k) s) (\<lambda>r s1.
       case r of
         Inl err \<Rightarrow> (Returns (Inl err), s1)
       | Inr bs \<Rightarrow>
           (let val = \<lparr>bv_b = cloneBytes bs\<rparr>
            in and_then (populateCache k val s1) (\<lambda>_ s2. (Returns (Inr val), s2))))"

definition getFromPeer :: "'w PeerGetter \<Rightarrow> string \<Rightarrow> (error + ByteView, 'w gstate) action" where
  "getFromPeer peer k s =
     and_then (on_world (peer \<lparr>Group_name = group_name (fst s), Key = k\<rparr>) s) (\<lambda>r s1.
       case r of
         Inl err \<Rightarrow> (Returns (Inl err), s1)
       | Inr res \<Rightarrow> (Returns (Inr \<lparr>bv_b = Value res\<rparr>), s1))"

text \<open>The function that \<^verbatim>\<open>load\<close> passes to \<^verbatim>\<open>Do\<close>.\<close>

definition load_fn :: "string \<Rightarrow> (error + ByteView, 'w gstate) action" where
  "load_fn k s =
     (case peers (fst s) of
        None \<Rightarrow> getLocally k s
      | Some pick \<Rightarrow>
          and_then (pick k, s) (\<lambda>choice s1.
            case choice of
              None \<Rightarrow> getLocally k s1
            | Some peer \<Rightarrow>
                and_then (getFromPeer peer k s1) (\<lambda>r s2.
                  case r of
                    Inr val \<Rightarrow> (Returns (Inr val), s2)
                  | Inl err \<Rightarrow> getLocally k s2)))"

definition load :: "string \<Rightarrow> (error + ByteView, 'w gstate) action" where
  "load k = sf_Do (\<lambda>s. loader (fst s)) (\<lambda>f s. (loader_update f (fst s), snd s)) k (load_fn k)"

definition Group_Get :: "string \<Rightarrow> (error + ByteView, 'w gstate) action" where
  "Group_Get k = (\<lambda>(g, w).
     if k = [] then (Returns (Inl ''key is required''), (g, w))
     else
       (case cache_get k (mainCache g) of
          (Some v, c) \<Rightarrow> (Returns (Inr v), (g\<lparr>mainCache := c\<rparr>, w))
        | (None, c) \<Rightarrow> load k (g\<lparr>mainCache := c\<rparr>, w)))"

section \<open>The registry of groups\<close>

text \<open>
  Groups are shared by pointer: \<open>groups\<close> maps a name to an address, \<open>group_at\<close> is the memory.
  A second \<^verbatim>\<open>NewGroup\<close> with the same name rebinds the name; the old group lives on.
\<close>

type_synonym gref = nat

record 'w registry =
  groups :: "string \<Rightarrow> gref option"
  group_at :: "gref \<Rightarrow> 'w Group option"
  next_ref :: gref

definition new_group :: "string \<Rightarrow> int64 \<Rightarrow> 'w Getter \<Rightarrow> 'w Group" where
  "new_group nm bytes f =
     \<lparr>group_name = nm, getter = f, mainCache = \<lparr>lru_of = None, cacheBytes = bytes\<rparr>,
      peers = None, loader = {}\<rparr>"

definition NewGroup :: "string \<Rightarrow> int64 \<Rightarrow> 'w Getter option \<Rightarrow> (gref, 'w registry) action" where
  "NewGroup nm bytes gt r =
     (case gt of
        None \<Rightarrow> (Panics ''nil Getter'', r)
      | Some f \<Rightarrow>
          (let a = next_ref r
           in (Returns a, r\<lparr>group_at := (group_at r)(a \<mapsto> new_group nm bytes f),
                            groups := (groups r)(nm \<mapsto> a), next_ref := a + 1\<rparr>)))"

definition GetGroup :: "string \<Rightarrow> 'w registry \<Rightarrow> gref option" where
  "GetGroup nm r = groups r nm"

definition RegisterPeers :: "'w PeerPicker \<Rightarrow> (unit, 'w Group) action" where
  "RegisterPeers p g =
     (case peers g of
        Some _ \<Rightarrow> (Panics ''RegisterPeerPicker called more than once'', g)
      | None \<Rightarrow> (Returns (), g\<lparr>peers := Some p\<rparr>))"

section \<open>The locked cache is a bounded store\<close>

definition cache_inv :: "cache_t \<Rightarrow> bool" where
  "cache_inv c \<longleftrightarrow>
     (case lru_of c of None \<Rightarrow> True | Some l \<Rightarrow> lru_inv bv_Len l \<and> maxBytes l = cacheBytes c)"

definition cache_contents :: "cache_t \<Rightarrow> string \<Rightarrow> ByteView option" where
  "cache_contents c = (case lru_of c of None \<Rightarrow> Map.empty | Some l \<Rightarrow> lru_contents l)"

text \<open>The LRU cache that an operation works on, created if need be.\<close>

definition cache_lru :: "cache_t \<Rightarrow> (ByteView, unit) Cache" where
  "cache_lru c = (case lru_of c of None \<Rightarrow> lru_New (cacheBytes c) None | Some l \<Rightarrow> l)"

lemma cache_lru_inv: "cache_inv c \<Longrightarrow> lru_inv bv_Len (cache_lru c) \<and> maxBytes (cache_lru c) = cacheBytes c"
  by (auto simp: cache_inv_def cache_lru_def split: option.split_asm)

lemma cache_lru_upd [simp]: "cache_lru (c\<lparr>lru_of := Some l\<rparr>) = l"
  by (simp add: cache_lru_def)

lemma cache_contents_lru: "cache_contents c = lru_contents (cache_lru c)"
  by (auto simp: cache_contents_def cache_lru_def lru_contents_def split: option.split)

lemma cache_add_lru:
  "cache_add k v c = map_option (\<lambda>r. c\<lparr>lru_of := Some (fst r)\<rparr>) (lru_Add bv_Len k v (cache_lru c) ())"
  by (auto simp: cache_add_def cache_lru_def Let_def split: option.split)

lemma lru_Add_frame:
  "lru_Add vlen k v l w = Some r \<Longrightarrow> lru_inv vlen l \<Longrightarrow> maxBytes (fst r) = maxBytes l"
  unfolding lru_Add_def using evict_loop_prefix lru_inv_insert by fastforce

interpretation mc: bounded_store cache_inv cache_contents cache_get cache_add
proof
  fix c c' k k' v v'
  assume inv: "cache_inv c"
  note l = cache_lru_inv [OF inv]
  show "fst (cache_get k c) = cache_contents c k"
    using lru.get_result [of bv_Len "(cache_lru c, ())" k] l
    by (auto simp: cache_get_def cache_contents_lru cache_lru_def lru_contents_def split: option.split)
  show "cache_contents (snd (cache_get k c)) = cache_contents c"
    using lru.get_contents [of bv_Len "(cache_lru c, ())" k] l
    by (auto simp: cache_get_def cache_contents_def cache_lru_def split: option.split)
  show "cache_inv (snd (cache_get k c))"
    using inv by (auto simp: cache_get_def cache_inv_def lru_inv_Get split: option.split)
  assume add: "cache_add k v c = Some c'"
  then obtain r where r: "lru_Add bv_Len k v (cache_lru c) () = Some r" "c' = c\<lparr>lru_of := Some (fst r)\<rparr>"
    by (auto simp: cache_add_lru)
  show "cache_inv c'"
    using lru.add_inv [of bv_Len "(cache_lru c, ())" k v r] lru_Add_frame [OF r(1)] r l
    by (simp add: cache_inv_def)
  assume "cache_contents c' k' = Some v'"
  then show "if k' = k then v' = v else cache_contents c k' = Some v'"
    using lru.add_contents [of bv_Len "(cache_lru c, ())" k v r k' v'] r l
    by (auto simp: cache_contents_lru split: if_splits)
qed

lemma cache_add_fits:
  assumes "cache_inv c" and "0 \<le>s cacheBytes c"
    and "cacheBytes c = 0 \<or> \<not> cacheBytes c <s pair_bytes bv_Len (k, v)"
  shows "\<exists>c'. cache_add k v c = Some c' \<and> cache_contents c' k = Some v"
proof -
  note l = cache_lru_inv [OF assms(1)]
  obtain l' where l': "lru_Add bv_Len k v (cache_lru c) () = Some (l', ())" "lru_inv bv_Len l'"
      and abs: "lru_abs l' = spec_evict bv_Len (cacheBytes c) (spec_put k v (lru_abs (cache_lru c)))"
    using lru_Add_total [of bv_Len "cache_lru c" k v "()"] l assms(2) by auto
  obtain ys where "lru_abs l' = (k, v) # ys"
    using abs spec_evict_keeps_head [OF assms(3)] by (auto simp: spec_put_def)
  with l' show ?thesis by (simp add: cache_add_lru cache_contents_def lru_contents_def)
qed

section \<open>What a lookup does\<close>

lemma cache_get_frame [simp]: "cacheBytes (snd (cache_get k c)) = cacheBytes c"
  by (simp add: cache_get_def split: option.split)

text \<open>
  \<open>group_ok P g\<close>: the cache is well-formed and \<open>P\<close> holds of every pair in it.  Every part of a
  lookup keeps it, and changes nothing else of the group but the set of keys being loaded.
\<close>

definition group_ok :: "(string \<Rightarrow> bytes \<Rightarrow> bool) \<Rightarrow> 'w Group \<Rightarrow> bool" where
  "group_ok P g \<longleftrightarrow> cache_inv (mainCache g) \<and>
     (\<forall>k v. cache_contents (mainCache g) k = Some v \<longrightarrow> P k (bv_b v))"

definition same_group :: "'w Group \<Rightarrow> 'w Group \<Rightarrow> bool" where
  "same_group g g' \<longleftrightarrow> group_name g' = group_name g \<and> getter g' = getter g \<and> peers g' = peers g \<and>
     cacheBytes (mainCache g') = cacheBytes (mainCache g)"

lemma same_group_refl [simp]: "same_group g g"
  by (simp add: same_group_def)

lemma same_group_trans: "same_group g g' \<Longrightarrow> same_group g' g'' \<Longrightarrow> same_group g g''"
  by (simp add: same_group_def)

text \<open>The effect of one part of a lookup on the group and on its result.\<close>

definition keeps :: "(string \<Rightarrow> bytes \<Rightarrow> bool) \<Rightarrow> 'w Group \<Rightarrow> 'a outcome \<times> 'w gstate \<Rightarrow> bool" where
  "keeps P g r \<longleftrightarrow> group_ok P (fst (snd r)) \<and> same_group g (fst (snd r))"

definition yields :: "(bytes \<Rightarrow> bool) \<Rightarrow> (error + ByteView) outcome \<Rightarrow> bool" where
  "yields Q out \<longleftrightarrow> (\<forall>v. out = Returns (Inr v) \<longrightarrow> Q (bv_b v))"

definition honest :: "(string \<Rightarrow> bytes \<Rightarrow> bool) \<Rightarrow> 'w Getter \<Rightarrow> bool" where
  "honest P f \<longleftrightarrow> (\<forall>k w bs w'. f k w = (Returns (Inr bs), w') \<longrightarrow> P k bs)"

definition honest_peer :: "(string \<Rightarrow> bytes \<Rightarrow> bool) \<Rightarrow> 'w PeerGetter \<Rightarrow> bool" where
  "honest_peer P peer \<longleftrightarrow>
     (\<forall>rq w rs w'. peer rq w = (Returns (Inr rs), w') \<longrightarrow> P (Key rq) (Value rs))"

lemma cache_add_frame: "cache_add k v c = Some c' \<Longrightarrow> cacheBytes c' = cacheBytes c"
  by (auto simp: cache_add_def Let_def split: option.splits)

lemma populateCache_keeps:
  assumes "group_ok P g" and "P k (bv_b v)"
  shows "keeps P g (populateCache k v (g, w))"
proof (cases "cache_add k v (mainCache g)")
  case None
  with assms(1) show ?thesis by (simp add: populateCache_def keeps_def)
next
  case (Some c)
  have inv: "cache_inv (mainCache g)" using assms(1) by (simp add: group_ok_def)
  have "P k' (bv_b v')" if "cache_contents c k' = Some v'" for k' v'
    by (rule mc.add_all [OF inv Some _ _ that, where P = "\<lambda>k v. P k (bv_b v)"])
      (use assms in \<open>auto simp: group_ok_def\<close>)
  with Some show ?thesis
    using mc.add_inv [OF inv Some] cache_add_frame [OF Some]
    by (auto simp: populateCache_def keeps_def group_ok_def same_group_def)
qed

lemma populateCache_world [simp]: "snd (snd (populateCache k v (g, w))) = w"
  by (simp add: populateCache_def split: option.split)

lemma getLocally_keeps:
  assumes "group_ok P g" and "honest P (getter g)"
  shows "keeps P g (getLocally k (g, w)) \<and> yields (P k) (fst (getLocally k (g, w)))"
proof (cases "getter g k w")
  case (Pair out w')
  show ?thesis
  proof (cases out)
    case (Returns r)
    then show ?thesis
    proof (cases r)
      case (Inr bs)
      then have "P k bs" using assms(2) Pair Returns by (auto simp: honest_def)
      then have kp: "keeps P g (populateCache k \<lparr>bv_b = bs\<rparr> (g, w'))"
        using populateCache_keeps [OF assms(1), of k "\<lparr>bv_b = bs\<rparr>" w'] by simp
      obtain o2 s2 where o2: "populateCache k \<lparr>bv_b = bs\<rparr> (g, w') = (o2, s2)"
        by (cases "populateCache k \<lparr>bv_b = bs\<rparr> (g, w')") auto
      show ?thesis
        using kp \<open>P k bs\<close> o2 Pair Returns Inr
        by (cases o2) (simp_all add: getLocally_def Let_def keeps_def yields_def)
    qed (use assms Pair in \<open>simp add: getLocally_def keeps_def yields_def\<close>)
  qed (use assms Pair in \<open>simp_all add: getLocally_def keeps_def yields_def\<close>)
qed

text \<open>
  A peer's answer leaves the group alone: it is returned, and not cached.
\<close>

lemma getFromPeer_group: "fst (snd (getFromPeer peer k (g, w))) = g"
  by (cases "peer \<lparr>Group_name = group_name g, Key = k\<rparr> w"; cases "fst (peer \<lparr>Group_name = group_name g, Key = k\<rparr> w)")
    (auto simp: getFromPeer_def split: sum.split)

lemma honest_peerD:
  "honest_peer P peer \<Longrightarrow> peer \<lparr>Group_name = nm, Key = k\<rparr> w = (Returns (Inr rs), w') \<Longrightarrow> P k (Value rs)"
  unfolding honest_peer_def by (metis Request.select_convs(2))

lemma getFromPeer_yields:
  "honest_peer P peer \<Longrightarrow> yields (P k) (fst (getFromPeer peer k (g, w)))"
  by (cases "peer \<lparr>Group_name = group_name g, Key = k\<rparr> w"; cases "fst (peer \<lparr>Group_name = group_name g, Key = k\<rparr> w)")
    (auto simp: getFromPeer_def yields_def dest: honest_peerD split: sum.split)

text \<open>What the picker says about the peers, as far as answers are concerned.\<close>

definition honest_peers :: "(string \<Rightarrow> bytes \<Rightarrow> bool) \<Rightarrow> 'w Group \<Rightarrow> bool" where
  "honest_peers P g \<longleftrightarrow> (\<forall>pick k peer. peers g = Some pick \<longrightarrow> pick k = Returns (Some peer) \<longrightarrow>
     honest_peer P peer)"

lemma load_fn_keeps:
  assumes ok: "group_ok P g" and honest: "honest P (getter g)"
  shows "keeps P g (load_fn k (g, w)) \<and>
    (honest_peers P g \<longrightarrow> yields (P k) (fst (load_fn k (g, w))))"
proof (cases "\<exists>pick peer. peers g = Some pick \<and> pick k = Returns (Some peer)")
  case False
  then show ?thesis
    using getLocally_keeps [OF ok honest, of k w] ok
    by (auto simp: load_fn_def keeps_def yields_def split: option.split)
      (case_tac "x2 k"; auto split: option.splits)+
next
  case True
  then obtain pick peer where pp: "peers g = Some pick" "pick k = Returns (Some peer)" by blast
  obtain out w' where r: "getFromPeer peer k (g, w) = (out, (g, w'))"
    using getFromPeer_group [of peer k g w] by (metis prod.collapse)
  have y: "honest_peers P g \<Longrightarrow> yields (P k) out"
    using getFromPeer_yields [of P peer k g w] pp r by (simp add: honest_peers_def)
  show ?thesis
  proof (cases out)
    case (Returns a)
    then show ?thesis
      using getLocally_keeps [OF ok honest, of k w'] ok pp r y
      by (cases a) (simp_all add: load_fn_def keeps_def yields_def)
  qed (use ok pp r in \<open>simp_all add: load_fn_def keeps_def yields_def\<close>)
qed

lemma group_ok_loader [simp]: "group_ok P (loader_update f g) = group_ok P g"
  by (simp add: group_ok_def)

lemma same_group_loader [simp]: "same_group g (loader_update f g') = same_group g g'"
    "same_group (loader_update f g) g' = same_group g g'"
  by (simp_all add: same_group_def)

lemma honest_peers_same: "same_group g g' \<Longrightarrow> honest_peers P g' = honest_peers P g"
  by (simp add: same_group_def honest_peers_def)

lemma load_keeps:
  assumes ok: "group_ok P g" and honest: "honest P (getter g)"
  shows "keeps P g (load k (g, w)) \<and> (honest_peers P g \<longrightarrow> yields (P k) (fst (load k (g, w))))"
proof (cases "k \<in> loader g")
  case True
  with ok show ?thesis by (simp add: load_def sf_Do_def keeps_def yields_def)
next
  case False
  let ?g = "loader_update (insert k) g"
  obtain out s where r: "load_fn k (?g, w) = (out, s)" by (cases "load_fn k (?g, w)") auto
  have "keeps P ?g (out, s) \<and> (honest_peers P ?g \<longrightarrow> yields (P k) out)"
    using load_fn_keeps [of P ?g k w] ok honest r by simp
  with False r show ?thesis
    by (cases out) (simp_all add: load_def sf_Do_def keeps_def yields_def honest_peers_def)
qed

lemma Group_Get_keeps:
  assumes ok: "group_ok P g" and honest: "honest P (getter g)"
  shows "keeps P g (Group_Get k (g, w)) \<and>
    (honest_peers P g \<longrightarrow> yields (P k) (fst (Group_Get k (g, w))))"
proof (cases "k = []")
  case True
  with ok show ?thesis by (simp add: Group_Get_def keeps_def yields_def)
next
  case False
  have inv: "cache_inv (mainCache g)" using ok by (simp add: group_ok_def)
  define c where "c = snd (cache_get k (mainCache g))"
  have get: "cache_get k (mainCache g) = (cache_contents (mainCache g) k, c)"
    using mc.get_result [OF inv, of k] by (simp add: c_def prod_eq_iff)
  let ?g = "g\<lparr>mainCache := c\<rparr>"
  have ok': "group_ok P ?g" and same: "same_group g ?g"
    using ok mc.get_inv [OF inv] mc.get_contents [OF inv]
    by (auto simp: group_ok_def same_group_def c_def)
  show ?thesis
  proof (cases "cache_contents (mainCache g) k")
    case None
    have "honest P (getter ?g)" using honest by simp
    from load_keeps [OF ok' this, of k w] show ?thesis
      using None False get same honest_peers_same [OF same]
      by (auto simp: Group_Get_def keeps_def intro: same_group_trans)
  next
    case (Some v)
    then show ?thesis
      using False get same ok ok' by (auto simp: Group_Get_def keeps_def yields_def group_ok_def)
  qed
qed

section \<open>Properties\<close>

text \<open>A sequence of lookups on one group; a panicking or hanging one leaves its state behind.\<close>

definition Group_Gets :: "string list \<Rightarrow> 'w gstate \<Rightarrow> 'w gstate" where
  "Group_Gets ks s = fold (\<lambda>k s. snd (Group_Get k s)) ks s"

lemma Group_Gets_keeps:
  assumes "group_ok P g" and "honest P (getter g)"
  shows "group_ok P (fst (Group_Gets ks (g, w))) \<and> same_group g (fst (Group_Gets ks (g, w)))"
  using assms
proof (induction ks arbitrary: g w)
  case (Cons k ks)
  obtain g' w' where s: "snd (Group_Get k (g, w)) = (g', w')" by (cases "snd (Group_Get k (g, w))")
  then have "group_ok P g'" "same_group g g'"
    using Group_Get_keeps [OF Cons.prems, of k w] by (auto simp: keeps_def)
  moreover from this have "honest P (getter g')" using Cons.prems(2) by (simp add: same_group_def)
  ultimately show ?case
    using Cons.IH [of g' w'] s same_group_trans by (fastforce simp: Group_Gets_def)
qed (simp add: Group_Gets_def)

lemma group_ok_new: "group_ok P ((new_group nm bytes f)\<lparr>peers := p\<rparr>)"
  by (simp add: group_ok_def new_group_def cache_inv_def cache_contents_def)

text \<open>
  C14: after any lookups on a new group, with any peers and any sequence of errors and panics,
  every pair in its cache is one that its own getter returned for that key: an answer of a peer
  is never cached, and no value is ever stored under another key.
\<close>

theorem cache_holds_getter_data:
  assumes "cache_contents (mainCache (fst (Group_Gets ks ((new_group nm bytes f)\<lparr>peers := p\<rparr>, w)))) k = Some v"
  shows "\<exists>w1 w2. f k w1 = (Returns (Inr (bv_b v)), w2)"
proof -
  let ?P = "\<lambda>k bs. \<exists>w1 w2. f k w1 = (Returns (Inr bs), w2)"
  have "honest ?P (getter ((new_group nm bytes f)\<lparr>peers := p\<rparr>))"
    by (auto simp: honest_def new_group_def)
  from Group_Gets_keeps [OF group_ok_new [of ?P p nm bytes f] this, of ks w] assms
  show ?thesis by (simp add: group_ok_def)
qed

text \<open>What the first lookup of a key without peers does, when its getter returns data.\<close>

lemma load_locally:
  assumes "cache_inv (mainCache g)" and "0 \<le>s cacheBytes (mainCache g)" and "k \<noteq> []"
    and "cache_contents (mainCache g) k = None" and "k \<notin> loader g"
    and "peers g = None" and "getter g k w = (Returns (Inr bs), w')"
    and fits: "cacheBytes (mainCache g) = 0 \<or>
      \<not> cacheBytes (mainCache g) <s pair_bytes bv_Len (k, \<lparr>bv_b = bs\<rparr>)"
  shows "\<exists>c. Group_Get k (g, w) = (Returns (Inr \<lparr>bv_b = bs\<rparr>), (g\<lparr>mainCache := c\<rparr>, w')) \<and>
    cache_inv c \<and> cache_contents c k = Some \<lparr>bv_b = bs\<rparr>"
proof -
  define c where "c = snd (cache_get k (mainCache g))"
  have get: "cache_get k (mainCache g) = (None, c)"
    using mc.get_result [OF assms(1), of k] assms(4) by (simp add: c_def prod_eq_iff)
  have c: "cache_inv c" "cacheBytes c = cacheBytes (mainCache g)"
    using mc.get_inv [OF assms(1)] by (simp_all add: c_def)
  then obtain c' where c': "cache_add k \<lparr>bv_b = bs\<rparr> c = Some c'" "cache_contents c' k = Some \<lparr>bv_b = bs\<rparr>"
    using cache_add_fits [of c k "\<lparr>bv_b = bs\<rparr>"] assms(2) fits by auto
  have "Group_Get k (g, w) = (Returns (Inr \<lparr>bv_b = bs\<rparr>), (g\<lparr>mainCache := c'\<rparr>, w'))"
    using assms(3,5,6,7) get c'(1)
    by (simp add: Group_Get_def load_def sf_Do_def load_fn_def getLocally_def populateCache_def)
  with c' mc.add_inv [OF c(1) c'(1)] show ?thesis by blast
qed

text \<open>
  Without peers, a lookup whose getter returns data that fits into the cache returns that
  data, and the next lookup of the key is a hit: it returns the same data in any later state
  of the world and does not run the getter.
\<close>

theorem second_lookup_hits:
  assumes "group_ok P g" and "0 \<le>s cacheBytes (mainCache g)" and "k \<noteq> []"
    and "cache_contents (mainCache g) k = None" and "k \<notin> loader g"
    and "peers g = None" and "getter g k w = (Returns (Inr bs), w')"
    and "cacheBytes (mainCache g) = 0 \<or>
      \<not> cacheBytes (mainCache g) <s pair_bytes bv_Len (k, \<lparr>bv_b = bs\<rparr>)"
  shows "\<exists>g'. Group_Get k (g, w) = (Returns (Inr \<lparr>bv_b = bs\<rparr>), (g', w')) \<and>
    (\<forall>w2. \<exists>g''. Group_Get k (g', w2) = (Returns (Inr \<lparr>bv_b = bs\<rparr>), (g'', w2)))"
proof -
  have "cache_inv (mainCache g)" using assms(1) by (simp add: group_ok_def)
  from load_locally [OF this assms(2-8)] obtain c where
    first: "Group_Get k (g, w) = (Returns (Inr \<lparr>bv_b = bs\<rparr>), (g\<lparr>mainCache := c\<rparr>, w'))" and
    c: "cache_inv c" "cache_contents c k = Some \<lparr>bv_b = bs\<rparr>" by blast
  then have "cache_get k c = (Some \<lparr>bv_b = bs\<rparr>, snd (cache_get k c))"
    using mc.get_result [OF c(1), of k] by (simp add: prod_eq_iff)
  then have "\<exists>g''. Group_Get k (g\<lparr>mainCache := c\<rparr>, w2) = (Returns (Inr \<lparr>bv_b = bs\<rparr>), (g'', w2))" for w2
    using assms(3) by (cases "cache_get k c") (auto simp: Group_Get_def)
  with first show ?thesis by blast
qed

text \<open>The database of the tests and of \<^verbatim>\<open>main.go\<close>; the world counts the getter's runs.\<close>

definition slow_db :: "nat Getter" where
  "slow_db k n =
     (case map_of [(''Tom'', ''630''), (''Jack'', ''589''), (''Sam'', ''567'')] k of
        Some v \<Rightarrow> (Returns (Inr v), n + 1)
      | None \<Rightarrow> (Returns (Inl (k @ '' not exist'')), n + 1))"

theorem second_lookup_hits_witness:
  "\<exists>g'. Group_Get ''Tom'' (new_group ''scores'' 2048 slow_db, 0) =
     (Returns (Inr \<lparr>bv_b = ''630''\<rparr>), (g', 1)) \<and>
   (\<exists>g''. Group_Get ''Tom'' (g', 1) = (Returns (Inr \<lparr>bv_b = ''630''\<rparr>), (g'', 1)))"
proof -
  let ?g = "new_group ''scores'' 2048 slow_db"
  have "group_ok (\<lambda>_ _. True) ?g"
    by (simp add: group_ok_def new_group_def cache_inv_def cache_contents_def)
  from second_lookup_hits [OF this, of "''Tom''" 0 "''630''" 1]
  show ?thesis
    by (auto simp: new_group_def slow_db_def cache_contents_def pair_bytes_def bv_Len_def
        word_sle_eq word_sless_alt)
qed

theorem cache_holds_getter_data_witness:
  "cache_contents (mainCache (fst (Group_Gets [''Tom'']
      ((new_group ''scores'' 2048 slow_db)\<lparr>peers := None\<rparr>, 0)))) ''Tom'' = Some \<lparr>bv_b = ''630''\<rparr> \<and>
   (\<exists>w1 w2. slow_db ''Tom'' w1 = (Returns (Inr ''630''), w2))"
proof -
  let ?g = "(new_group ''scores'' 2048 slow_db)\<lparr>peers := None\<rparr>"
  have "\<exists>c. Group_Get ''Tom'' (?g, 0) = (Returns (Inr \<lparr>bv_b = ''630''\<rparr>), (?g\<lparr>mainCache := c\<rparr>, 1)) \<and>
      cache_inv c \<and> cache_contents c ''Tom'' = Some \<lparr>bv_b = ''630''\<rparr>"
    by (rule load_locally)
      (simp_all add: new_group_def cache_inv_def cache_contents_def slow_db_def pair_bytes_def
        bv_Len_def word_sle_eq word_sless_alt)
  then have "cache_contents (mainCache (fst (Group_Gets [''Tom''] (?g, 0)))) ''Tom'' =
      Some \<lparr>bv_b = ''630''\<rparr>"
    by (auto simp: Group_Gets_def)
  from this cache_holds_getter_data [OF this] show ?thesis by simp
qed

text \<open>A miss, up to the bookkeeping of the LRU list and of the keys being loaded.\<close>

definition miss :: "string \<Rightarrow> 'w Group \<Rightarrow> bool" where
  "miss k g \<longleftrightarrow> k \<noteq> [] \<and> cache_contents (mainCache g) k = None \<and> k \<notin> loader g"

lemma Group_Get_miss:
  assumes "cache_inv (mainCache g)" and "miss k g"
  shows "Group_Get k (g, w) = load k (g\<lparr>mainCache := snd (cache_get k (mainCache g))\<rparr>, w)"
  using assms mc.get_result [OF assms(1), of k]
  by (cases "cache_get k (mainCache g)") (auto simp: Group_Get_def miss_def)

lemma load_miss:
  "k \<notin> loader g \<Longrightarrow> load k (g, w) =
     and_then (load_fn k (loader_update (insert k) g, w))
       (\<lambda>r s. (Returns r, (loader_update (\<lambda>ks. ks - {k}) (fst s), snd s)))"
  by (simp add: load_def sf_Do_def)

definition with_peers :: "'w PeerPicker option \<Rightarrow> 'a outcome \<times> 'w gstate \<Rightarrow> 'a outcome \<times> 'w gstate" where
  "with_peers p r = (fst r, ((fst (snd r))\<lparr>peers := p\<rparr>, snd (snd r)))"

lemma getLocally_peers:
  "getLocally k (g\<lparr>peers := p\<rparr>, w) = with_peers p (getLocally k (g, w))"
proof (cases "getter g k w")
  case (Pair out w')
  show ?thesis
  proof (cases out)
    case (Returns r)
    with Pair show ?thesis
      by (cases r)
        (auto simp: getLocally_def with_peers_def populateCache_def Let_def split: option.split)
  qed (simp_all add: Pair getLocally_def with_peers_def)
qed

lemma loader_removed: "k \<notin> ks \<Longrightarrow> insert k ks - {k} = ks"
  by blast

text \<open>
  The choice between the peer and the local getter on a miss.  If the picker names a
  remote peer, its answer is returned and the cache holds what it held before; if the peer
  fails, the lookup goes on exactly as one without peers, from the state the peer left behind.
\<close>

theorem lookup_asks_peer_first:
  assumes "group_ok P g" and "miss k g" and "peers g = Some pick"
    and "pick k = Returns (Some peer)"
    and "peer \<lparr>Group_name = group_name g, Key = k\<rparr> w = (Returns r, w')"
  shows "case r of
      Inr rs \<Rightarrow> \<exists>c. Group_Get k (g, w) =
        (Returns (Inr \<lparr>bv_b = Value rs\<rparr>), (g\<lparr>mainCache := c\<rparr>, w')) \<and>
        cache_contents c = cache_contents (mainCache g)
    | Inl err \<Rightarrow> Group_Get k (g, w) = with_peers (peers g) (Group_Get k (g\<lparr>peers := None\<rparr>, w'))"
proof -
  have inv: "cache_inv (mainCache g)" using assms(1) by (simp add: group_ok_def)
  define c where "c = snd (cache_get k (mainCache g))"
  have cont: "cache_contents c = cache_contents (mainCache g)"
    using mc.get_contents [OF inv] by (simp add: c_def)
  have k: "k \<notin> loader g" and miss: "miss k (g\<lparr>peers := None\<rparr>)"
    using assms(2) by (simp_all add: miss_def)
  let ?g = "loader_update (insert k) (g\<lparr>mainCache := c\<rparr>)"
  have get: "Group_Get k (g, w) = and_then (load_fn k (?g, w))
      (\<lambda>r s. (Returns r, (loader_update (\<lambda>ks. ks - {k}) (fst s), snd s)))"
    using Group_Get_miss [OF inv assms(2)] k by (simp add: load_miss c_def)
  show ?thesis
  proof (cases r)
    case (Inr rs)
    have "load_fn k (?g, w) = (Returns (Inr \<lparr>bv_b = Value rs\<rparr>), (?g, w'))"
      using assms(3-5) Inr by (simp add: load_fn_def getFromPeer_def)
    then have "Group_Get k (g, w) = (Returns (Inr \<lparr>bv_b = Value rs\<rparr>), (g\<lparr>mainCache := c\<rparr>, w'))"
      using get k by (simp add: loader_removed)
    with cont Inr show ?thesis by auto
  next
    case (Inl err)
    have reorder: "loader_update (insert k) (g\<lparr>peers := None, mainCache := c\<rparr>) = ?g\<lparr>peers := None\<rparr>"
      by (cases g) simp
    have "load_fn k (?g, w) = getLocally k (?g, w')"
      using assms(3-5) Inl by (simp add: load_fn_def getFromPeer_def)
    moreover have "getLocally k (?g, w') = with_peers (peers g) (getLocally k (?g\<lparr>peers := None\<rparr>, w'))"
      using getLocally_peers [where g = "?g\<lparr>peers := None\<rparr>" and p = "peers g" and k = k and w = w'] by simp
    moreover have "Group_Get k (g\<lparr>peers := None\<rparr>, w') =
        and_then (getLocally k (?g\<lparr>peers := None\<rparr>, w'))
          (\<lambda>r s. (Returns r, (loader_update (\<lambda>ks. ks - {k}) (fst s), snd s)))"
      using Group_Get_miss [OF _ miss] inv k
      by (simp add: load_miss load_fn_def reorder flip: c_def)
    ultimately have "Group_Get k (g, w) = with_peers (peers g) (Group_Get k (g\<lparr>peers := None\<rparr>, w'))"
      unfolding get
      by (cases "getLocally k (?g\<lparr>peers := None\<rparr>, w')"; cases "fst (getLocally k (?g\<lparr>peers := None\<rparr>, w'))")
        (simp_all add: with_peers_def)
    with Inl show ?thesis by simp
  qed
qed

definition remote_peer :: "nat PeerGetter" where
  "remote_peer rq n = (Returns (if n = 0 then Inl ''refused'' else Inr \<lparr>Value = ''x''\<rparr>), n)"

theorem lookup_asks_peer_first_witness:
  "\<exists>c. Group_Get ''Tom'' ((new_group ''scores'' 2048 slow_db)\<lparr>peers := Some (\<lambda>_. Returns (Some remote_peer))\<rparr>, 1) =
     (Returns (Inr \<lparr>bv_b = ''x''\<rparr>), ((new_group ''scores'' 2048 slow_db)
        \<lparr>peers := Some (\<lambda>_. Returns (Some remote_peer)), mainCache := c\<rparr>, 1)) \<and>
     cache_contents c ''Tom'' = None"
proof -
  let ?g = "(new_group ''scores'' 2048 slow_db)\<lparr>peers := Some (\<lambda>_. Returns (Some remote_peer))\<rparr>"
  have "group_ok (\<lambda>_ _. True) ?g" by (rule group_ok_new)
  moreover have "miss ''Tom'' ?g" by (simp add: miss_def new_group_def cache_contents_def)
  ultimately show ?thesis
    using lookup_asks_peer_first [of "\<lambda>_ _. True" ?g "''Tom''" "\<lambda>_. Returns (Some remote_peer)"
        remote_peer 1 "Inr \<lparr>Value = ''x''\<rparr>" 1]
    by (auto simp: remote_peer_def new_group_def cache_contents_def)
qed

text \<open>
  When the getter of a key panics, the panic leaves the key in the single-flight map: every
  later lookup of that key, in whatever state of the world, waits for ever.
\<close>

theorem getter_panic_blocks_key:
  assumes "group_ok P g" and "miss k g" and "peers g = None" and "getter g k w = (Panics e, w')"
  shows "\<exists>g'. Group_Get k (g, w) = (Panics e, (g', w')) \<and>
    (\<forall>w2. fst (Group_Get k (g', w2)) = Hangs)"
proof -
  have inv: "cache_inv (mainCache g)" using assms(1) by (simp add: group_ok_def)
  define c where "c = snd (cache_get k (mainCache g))"
  let ?g = "loader_update (insert k) (g\<lparr>mainCache := c\<rparr>)"
  have c: "cache_inv c" "cache_contents c k = None" and ne: "k \<noteq> []"
    using mc.get_inv [OF inv] mc.get_contents [OF inv] assms(2) by (auto simp: c_def miss_def)
  have "Group_Get k (g, w) = (Panics e, (?g, w'))"
    using Group_Get_miss [OF inv assms(2)] assms(2-4)
    by (simp add: load_miss load_fn_def getLocally_def miss_def flip: c_def)
  moreover have "fst (Group_Get k (?g, w2)) = Hangs" for w2
    using mc.get_result [OF c(1), of k] c(2) ne
    by (cases "cache_get k c") (auto simp: Group_Get_def load_def sf_Do_def)
  ultimately show ?thesis by blast
qed

theorem getter_panic_blocks_key_witness:
  "\<exists>g'. Group_Get ''k'' (new_group ''g'' 0 (\<lambda>k w. (Panics ''boom'', w)), ()) = (Panics ''boom'', (g', ())) \<and>
     (\<forall>w2. fst (Group_Get ''k'' (g', w2)) = Hangs)"
  by (rule getter_panic_blocks_key [of "\<lambda>_ _. True"])
    (simp_all add: group_ok_def new_group_def cache_inv_def cache_contents_def miss_def)

end
