(* ===== verification/ConsistentHash.thy ===== *)
theory ConsistentHash
  imports Prelude
begin

text \<open>
  Package \<^verbatim>\<open>geecache/consistenthash\<close> (\<^verbatim>\<open>consistenthash.go\<close>): a ring of virtual nodes.  A hash
  is a 32-bit word; \<^verbatim>\<open>int(hash)\<close> is its unsigned value (an \<^verbatim>\<open>int\<close> has 64 bits, so no value
  wraps).  The slice \<^verbatim>\<open>keys\<close> is a sorted list and \<^verbatim>\<open>hashMap\<close> a map from a point of the ring to
  the name of its node.
\<close>

unbundle bit_operations_syntax

type_synonym hash = "bytes \<Rightarrow> uint32"

record Map =
  hash_fn :: hash
  replicas :: int
  keys :: "int list"
  hashMap :: "int \<Rightarrow> string option"

section \<open>The default hash: CRC-32 (IEEE)\<close>

text \<open>
  \<^verbatim>\<open>crc32.ChecksumIEEE\<close> of the standard library, bit by bit: the reversed polynomial
  \<open>0xEDB88320\<close>, an initial value and a final complement of all ones.
\<close>

definition crc32_bit :: "uint32 \<Rightarrow> uint32" where
  "crc32_bit c = (if bit c 0 then drop_bit 1 c XOR 0xEDB88320 else drop_bit 1 c)"

definition crc32_byte :: "char \<Rightarrow> uint32 \<Rightarrow> uint32" where
  "crc32_byte b c = (crc32_bit ^^ 8) (c XOR of_char b)"

definition crc32_ChecksumIEEE :: hash where
  "crc32_ChecksumIEEE data = NOT (fold crc32_byte data (NOT 0))"

section \<open>Operations\<close>

definition ch_New :: "int \<Rightarrow> hash option \<Rightarrow> Map" where
  "ch_New reps fn =
     \<lparr>hash_fn = (case fn of None \<Rightarrow> crc32_ChecksumIEEE | Some h \<Rightarrow> h), replicas = reps,
      keys = [], hashMap = Map.empty\<rparr>"

text \<open>One round of the inner loop of \<^verbatim>\<open>Add\<close>: the point of replica \<open>i\<close> of a key.\<close>

definition ring_point :: "Map \<Rightarrow> string \<Rightarrow> int \<Rightarrow> int" where
  "ring_point m key i = uint (hash_fn m (strconv_Itoa i @ key))"

definition add_point :: "string \<Rightarrow> int \<Rightarrow> Map \<Rightarrow> Map" where
  "add_point key i m =
     (let hash = ring_point m key i
      in m\<lparr>keys := keys m @ [hash], hashMap := (hashMap m)(hash \<mapsto> key)\<rparr>)"

definition add_key :: "string \<Rightarrow> Map \<Rightarrow> Map" where
  "add_key key m = fold (add_point key) [0..replicas m - 1] m"

definition ch_Add :: "string list \<Rightarrow> Map \<Rightarrow> Map" where
  "ch_Add ks m = (let m' = fold add_key ks m in m'\<lparr>keys := sort (keys m')\<rparr>)"

text \<open>
  The lookup \<^verbatim>\<open>hashMap[...]\<close> of an absent point is the zero value, the empty string.
\<close>

definition ch_Get :: "string \<Rightarrow> Map \<Rightarrow> string" where
  "ch_Get key m =
     (if length (keys m) = 0 then []
      else
        (let hash = uint (hash_fn m key);
             idx = sort_Search (length (keys m)) (\<lambda>i. keys m ! i \<ge> hash)
         in (case hashMap m (keys m ! (idx mod length (keys m))) of
               None \<Rightarrow> [] | Some node \<Rightarrow> node)))"

section \<open>The ring after \<open>Add\<close>\<close>

text \<open>\<open>owns m k q\<close>: some replica of key \<open>k\<close> lies on the point \<open>q\<close> of the ring.\<close>

definition owns :: "Map \<Rightarrow> string \<Rightarrow> int \<Rightarrow> bool" where
  "owns m k q \<longleftrightarrow> (\<exists>i \<in> set [0..replicas m - 1]. ring_point m k i = q)"

lemma add_point_frame [simp]:
  "hash_fn (add_point k i m) = hash_fn m" "replicas (add_point k i m) = replicas m"
  by (simp_all add: add_point_def Let_def)

lemma ring_point_cong:
  "hash_fn m = hash_fn m' \<Longrightarrow> ring_point m k i = ring_point m' k i"
  by (simp add: ring_point_def)

lemma fold_add_point:
  "hash_fn (fold (add_point k) is m) = hash_fn m \<and> replicas (fold (add_point k) is m) = replicas m \<and>
   keys (fold (add_point k) is m) = keys m @ map (ring_point m k) is \<and>
   hashMap (fold (add_point k) is m) q =
     (if q \<in> ring_point m k ` set is then Some k else hashMap m q)"
proof (induction "is" arbitrary: m)
  case (Cons i "is")
  have "ring_point (add_point k i m) k = ring_point m k"
    by (rule ext) (simp add: ring_point_def)
  with Cons [of "add_point k i m"] show ?case
    by (auto simp: add_point_def Let_def)
qed simp

lemma add_key_frame [simp]:
  "hash_fn (add_key k m) = hash_fn m" "replicas (add_key k m) = replicas m"
  using fold_add_point by (auto simp: add_key_def)

lemma keys_add_key: "keys (add_key k m) = keys m @ map (ring_point m k) [0..replicas m - 1]"
  using fold_add_point by (auto simp: add_key_def)

lemma hashMap_add_key: "hashMap (add_key k m) q = (if owns m k q then Some k else hashMap m q)"
  using fold_add_point [of k "[0..replicas m - 1]" m q] by (auto simp: add_key_def owns_def)

lemma owns_cong:
  "hash_fn m = hash_fn m' \<Longrightarrow> replicas m = replicas m' \<Longrightarrow> owns m k q = owns m' k q"
  by (simp add: owns_def ring_point_def)

text \<open>Where several keys share a point, the one added last owns it.\<close>

lemma fold_add_key:
  "hash_fn (fold add_key ks m) = hash_fn m \<and> replicas (fold add_key ks m) = replicas m \<and>
   keys (fold add_key ks m) =
     keys m @ concat (map (\<lambda>k. map (ring_point m k) [0..replicas m - 1]) ks) \<and>
   hashMap (fold add_key ks m) q =
     (case find (\<lambda>k. owns m k q) (rev ks) of Some k \<Rightarrow> Some k | None \<Rightarrow> hashMap m q)"
proof (induction ks arbitrary: m)
  case (Cons k ks)
  have "ring_point (add_key k m) = ring_point m" "owns (add_key k m) = owns m"
    by (auto simp: fun_eq_iff ring_point_def owns_def)
  with Cons [of "add_key k m"] show ?case
    by (auto simp: keys_add_key hashMap_add_key find_append split: option.split)
qed simp

lemma ch_Add_frame [simp]:
  "hash_fn (ch_Add ks m) = hash_fn m" "replicas (ch_Add ks m) = replicas m"
  using fold_add_key by (auto simp: ch_Add_def Let_def)

lemma set_keys_Add: "set (keys (ch_Add ks m)) = set (keys m) \<union> {q. \<exists>k \<in> set ks. owns m k q}"
  using fold_add_key [of ks m] by (auto simp: ch_Add_def Let_def owns_def)

lemma length_keys_Add:
  "length (keys (ch_Add ks m)) = length (keys m) + length ks * nat (replicas m)"
proof -
  have "length (concat (map (\<lambda>k. map (ring_point m k) [0..replicas m - 1]) ks)) =
      length ks * nat (replicas m)"
    by (induction ks) auto
  then show ?thesis using fold_add_key [of ks m] by (simp add: ch_Add_def Let_def)
qed

lemma hashMap_Add:
  "hashMap (ch_Add ks m) q =
     (case find (\<lambda>k. owns m k q) (rev ks) of Some k \<Rightarrow> Some k | None \<Rightarrow> hashMap m q)"
  using fold_add_key [of ks m q] by (simp add: ch_Add_def Let_def)

section \<open>Invariant\<close>

definition ch_inv :: "Map \<Rightarrow> bool" where
  "ch_inv m \<longleftrightarrow> sorted (keys m) \<and> set (keys m) = dom (hashMap m)"

lemma ch_inv_New [simp]: "ch_inv (ch_New r fn)"
  by (simp add: ch_inv_def ch_New_def)

lemma ch_inv_Add: "ch_inv m \<Longrightarrow> ch_inv (ch_Add ks m)"
proof -
  assume inv: "ch_inv m"
  have "set (keys (ch_Add ks m)) = dom (hashMap (ch_Add ks m))"
    using inv by (auto simp: set_keys_Add hashMap_Add ch_inv_def dom_def find_None_iff find_Some_iff
        split: option.splits)
  moreover have "sorted (keys (ch_Add ks m))" by (simp add: ch_Add_def Let_def)
  ultimately show ?thesis by (simp add: ch_inv_def)
qed

section \<open>Specification: the next point clockwise\<close>

definition ring_succ :: "int \<Rightarrow> int set \<Rightarrow> int" where
  "ring_succ h S = (if \<exists>p \<in> S. h \<le> p then Min {p \<in> S. h \<le> p} else Min S)"

lemma ring_succ_in: "finite S \<Longrightarrow> S \<noteq> {} \<Longrightarrow> ring_succ h S \<in> S"
proof (cases "\<exists>p \<in> S. h \<le> p")
  case True
  moreover assume "finite S"
  ultimately have "Min {p \<in> S. h \<le> p} \<in> {p \<in> S. h \<le> p}" by (intro Min_in) auto
  with True show ?thesis by (simp add: ring_succ_def)
qed (simp add: ring_succ_def)

lemma ring_succ_subset:
  assumes "finite T" and "S \<subseteq> T" and "ring_succ h T \<in> S"
  shows "ring_succ h T = ring_succ h S"
proof (cases "\<exists>p \<in> T. h \<le> p")
  case True
  let ?T = "{p \<in> T. h \<le> p}" and ?S = "{p \<in> S. h \<le> p}"
  have T: "ring_succ h T = Min ?T" using True by (simp add: ring_succ_def)
  have "Min ?T \<in> ?T" using True assms(1) by (intro Min_in) auto
  then have "Min ?T \<in> ?S" using assms(3) T by simp
  moreover have "Min ?T \<le> y" if "y \<in> ?S" for y using that assms(1,2) by (intro Min_le) auto
  moreover have "finite ?S" using assms(1,2) by (auto intro: finite_subset)
  ultimately have "Min ?S = Min ?T" by (intro Min_eqI) auto
  moreover have "ring_succ h S = Min ?S" using \<open>Min ?T \<in> ?S\<close> by (auto simp: ring_succ_def)
  ultimately show ?thesis by (simp add: T)
next
  case False
  then have "Min S = Min T"
    using assms by (intro Min_eqI) (auto simp: ring_succ_def intro: finite_subset)
  with False assms(2) show ?thesis by (auto simp: ring_succ_def)
qed

lemma sorted_search_succ:
  assumes s: "sorted ks" and ne: "ks \<noteq> []"
  shows "ks ! (sort_Search (length ks) (\<lambda>i. ks ! i \<ge> h) mod length ks) = ring_succ h (set ks)"
proof -
  define j where "j = sort_Search (length ks) (\<lambda>i. ks ! i \<ge> h)"
  have mono: "\<And>a b. a \<le> b \<Longrightarrow> b < length ks \<Longrightarrow> h \<le> ks ! a \<Longrightarrow> h \<le> ks ! b"
    using s by (meson order_trans sorted_nth_mono)
  note search = sort_Search_correct [of "length ks" "\<lambda>i. ks ! i \<ge> h", OF mono, folded j_def]
  have j: "j \<le> length ks" "\<And>a. a < j \<Longrightarrow> ks ! a < h" "j < length ks \<Longrightarrow> h \<le> ks ! j"
    using search(1) search(3) by (simp_all add: search(2) flip: not_le)
  show ?thesis unfolding j_def [symmetric]
  proof (cases "j < length ks")
    case True
    have "ks ! j \<le> p" if p: "p \<in> set ks" and hp: "h \<le> p" for p
    proof -
      obtain b where b: "b < length ks" "p = ks ! b" using p by (auto simp: in_set_conv_nth)
      with j(2) hp have "j \<le> b" by (meson not_le)
      with b s show ?thesis by (simp add: sorted_nth_mono)
    qed
    then have "Min {p \<in> set ks. h \<le> p} = ks ! j" using True j(3) by (intro Min_eqI) auto
    moreover have "\<exists>p \<in> set ks. h \<le> p" using True j(3) nth_mem by blast
    ultimately show "ks ! (j mod length ks) = ring_succ h (set ks)"
      using True by (simp add: ring_succ_def)
  next
    case False
    with j have "j = length ks" and none: "\<not> (\<exists>p \<in> set ks. h \<le> p)"
      by (auto simp: in_set_conv_nth not_le)
    moreover have "Min (set ks) = ks ! 0"
      using s ne by (intro Min_eqI) (auto simp: in_set_conv_nth sorted_nth_mono)
    ultimately show "ks ! (j mod length ks) = ring_succ h (set ks)" by (simp add: ring_succ_def)
  qed
qed

lemma ch_Get_succ:
  assumes "ch_inv m" and "keys m \<noteq> []"
  shows "hashMap m (ring_succ (uint (hash_fn m key)) (set (keys m))) = Some (ch_Get key m)"
proof -
  let ?p = "ring_succ (uint (hash_fn m key)) (set (keys m))"
  have "?p \<in> set (keys m)" using assms(2) by (intro ring_succ_in) auto
  then obtain node where "hashMap m ?p = Some node" using assms(1) by (auto simp: ch_inv_def)
  then show ?thesis
    using sorted_search_succ [of "keys m" "uint (hash_fn m key)"] assms
    by (simp add: ch_Get_def ch_inv_def)
qed

lemma ch_Get_empty: "keys m = [] \<Longrightarrow> ch_Get key m = []"
  by (simp add: ch_Get_def)

section \<open>Properties\<close>

text \<open>A ring as its owner builds it: \<^verbatim>\<open>New\<close>, then any calls of \<^verbatim>\<open>Add\<close>.\<close>

definition ch_build :: "int \<Rightarrow> hash option \<Rightarrow> string list list \<Rightarrow> Map" where
  "ch_build reps fn kss = fold ch_Add kss (ch_New reps fn)"

lemma ch_build_snoc: "ch_build reps fn (kss @ [ks]) = ch_Add ks (ch_build reps fn kss)"
  by (simp add: ch_build_def)

lemma ch_build_frame [simp]:
  "hash_fn (ch_build reps fn kss) = hash_fn (ch_New reps fn)"
  "replicas (ch_build reps fn kss) = reps"
  by (induction kss rule: rev_induct) (simp_all add: ch_build_snoc, simp_all add: ch_build_def ch_New_def)

lemma ch_inv_build [simp]: "ch_inv (ch_build reps fn kss)"
  by (induction kss rule: rev_induct) (simp_all add: ch_build_snoc ch_inv_Add, simp add: ch_build_def)

lemma length_keys_build:
  "length (keys (ch_build reps fn kss)) = length (concat kss) * nat reps"
  by (induction kss rule: rev_induct)
    (simp_all add: ch_build_snoc length_keys_Add algebra_simps, simp add: ch_build_def ch_New_def)

lemma find_rev_SomeD: "find P (rev ks) = Some k \<Longrightarrow> k \<in> set ks \<and> P k"
  by (metis find_Some_iff nth_mem set_rev)

lemma ran_build: "hashMap (ch_build reps fn kss) q = Some k \<Longrightarrow> k \<in> set (concat kss)"
  by (induction kss rule: rev_induct)
    (auto simp: ch_build_snoc hashMap_Add dest: find_rev_SomeD split: option.splits,
     simp add: ch_build_def ch_New_def)

text \<open>
  C15: on any ring, \<^verbatim>\<open>Get\<close> returns the node that owns the first virtual node clockwise from the
  key's hash (wrapping round to the smallest one), and this is one of the nodes that were
  added; a ring without points yields the empty string.  The ring has one point for each
  replica of each added node, in increasing order.
\<close>

theorem ch_Get_successor:
  "let ring = ch_build reps fn kss in
    (concat kss = [] \<or> reps \<le> 0 \<longrightarrow> ch_Get key ring = []) \<and>
    (concat kss \<noteq> [] \<and> 0 < reps \<longrightarrow>
      hashMap ring (ring_succ (uint (hash_fn ring key)) (set (keys ring))) = Some (ch_Get key ring) \<and>
      ch_Get key ring \<in> set (concat kss)) \<and>
    sorted (keys ring) \<and> length (keys ring) = length (concat kss) * nat reps"
proof -
  define ring where "ring = ch_build reps fn kss"
  have len: "length (keys ring) = length (concat kss) * nat reps"
    by (simp add: ring_def length_keys_build)
  have "hashMap ring (ring_succ (uint (hash_fn ring key)) (set (keys ring))) = Some (ch_Get key ring) \<and>
      ch_Get key ring \<in> set (concat kss)" if "concat kss \<noteq> []" "0 < reps"
  proof -
    have "keys ring \<noteq> []" using len that by (metis length_0_conv mult_is_0 nat_0_iff not_le)
    from ch_Get_succ [OF _ this] have
      *: "hashMap ring (ring_succ (uint (hash_fn ring key)) (set (keys ring))) = Some (ch_Get key ring)"
      by (simp add: ring_def)
    then show ?thesis using ran_build unfolding ring_def by blast
  qed
  moreover have "ch_Get key ring = []" if "concat kss = [] \<or> reps \<le> 0"
  proof -
    have "length (keys ring) = 0" unfolding len using that by (auto simp del: length_concat)
    then show ?thesis by (simp add: ch_Get_empty)
  qed
  moreover have "sorted (keys ring)" using ch_inv_build by (simp add: ch_inv_def ring_def)
  ultimately show ?thesis unfolding ring_def [symmetric] Let_def using len by blast
qed

text \<open>The example of \<^verbatim>\<open>TestHash\<close>: the hash of a decimal string is its value.\<close>

definition test_hash :: hash where
  "test_hash = (\<lambda>s. of_nat (fold (\<lambda>c n. 10 * n + (of_char c - 48)) s 0))"

theorem ch_Get_successor_witness:
  "ch_Get ''11'' (ch_build 3 (Some test_hash) [[''6'', ''4'', ''2'']]) = ''2'' \<and>
   ch_Get ''11'' (ch_build 3 (Some test_hash) [[''6'', ''4'', ''2'']]) \<in> {''6'', ''4'', ''2''}"
proof
  show "ch_Get ''11'' (ch_build 3 (Some test_hash) [[''6'', ''4'', ''2'']]) = ''2''"
    by (simp add: ch_build_def ch_New_def ch_Add_def add_key_def add_point_def Let_def
        ring_point_def strconv_Itoa_def digits_rev.simps test_hash_def upto.simps)
      (simp add: ch_Get_def Let_def sort_Search_def search_loop.simps)
  show "ch_Get ''11'' (ch_build 3 (Some test_hash) [[''6'', ''4'', ''2'']]) \<in> {''6'', ''4'', ''2''}"
    using ch_Get_successor [of 3 "Some test_hash" "[[''6'', ''4'', ''2'']]" "''11''"]
    by (auto simp: Let_def)
qed

lemma ch_Get_Add_stable:
  assumes "ch_inv m" and "keys m \<noteq> []"
  shows "ch_Get key (ch_Add ks m) = ch_Get key m \<or> ch_Get key (ch_Add ks m) \<in> set ks"
proof -
  define m' where "m' = ch_Add ks m"
  define p where "p = ring_succ (uint (hash_fn m key)) (set (keys m'))"
  have sub: "set (keys m) \<subseteq> set (keys m')" by (auto simp: m'_def set_keys_Add)
  then have "keys m' \<noteq> []" using assms(2) by auto
  with ch_Get_succ [of m' key] ch_inv_Add [OF assms(1), of ks]
  have get: "hashMap m' p = Some (ch_Get key m')" by (simp add: m'_def p_def)
  show ?thesis unfolding m'_def [symmetric]
  proof (cases "find (\<lambda>k. owns m k p) (rev ks)")
    case None
    then have "hashMap m p = Some (ch_Get key m')" using get by (simp add: m'_def hashMap_Add)
    moreover from this have "p \<in> set (keys m)" using assms(1) by (auto simp: ch_inv_def)
    then have "p = ring_succ (uint (hash_fn m key)) (set (keys m))"
      using ring_succ_subset [OF _ sub] by (simp add: p_def)
    ultimately show "ch_Get key m' = ch_Get key m \<or> ch_Get key m' \<in> set ks"
      using ch_Get_succ [OF assms, of key] by simp
  next
    case (Some k)
    then show "ch_Get key m' = ch_Get key m \<or> ch_Get key m' \<in> set ks"
      using get find_rev_SomeD by (fastforce simp: m'_def hashMap_Add)
  qed
qed

text \<open>
  C35: adding nodes to a ring that has points moves a key only to one of the new nodes; every
  other key keeps its owner.  This holds for every hash function, collisions included.
\<close>

theorem ch_Add_moves_only_to_new:
  assumes "concat kss \<noteq> []" and "0 < reps"
  shows "ch_Get key (ch_Add ks (ch_build reps fn kss)) = ch_Get key (ch_build reps fn kss) \<or>
    ch_Get key (ch_Add ks (ch_build reps fn kss)) \<in> set ks"
proof -
  have "length (keys (ch_build reps fn kss)) \<noteq> 0"
    unfolding length_keys_build using assms by (simp del: length_concat)
  then show ?thesis by (intro ch_Get_Add_stable) auto
qed

theorem ch_Add_moves_only_to_new_witness:
  "ch_Get ''27'' (ch_Add [''8''] (ch_build 3 (Some (\<lambda>s. of_nat (length s))) [[''6'', ''4'']])) =
     ch_Get ''27'' (ch_build 3 (Some (\<lambda>s. of_nat (length s))) [[''6'', ''4'']]) \<or>
   ch_Get ''27'' (ch_Add [''8''] (ch_build 3 (Some (\<lambda>s. of_nat (length s))) [[''6'', ''4'']])) \<in> {''8''}"
  using ch_Add_moves_only_to_new [of "[[''6'', ''4'']]" 3 "''27''" "[''8'']"] by auto

definition collision_free :: "Map \<Rightarrow> string list \<Rightarrow> bool" where
  "collision_free m ks \<longleftrightarrow>
     (\<forall>k \<in> set ks. \<forall>k' \<in> set ks. \<forall>i \<in> set [0..replicas m - 1]. \<forall>j \<in> set [0..replicas m - 1].
        ring_point m k i = ring_point m k' j \<longrightarrow> k = k')"

lemma collision_free_owns:
  "collision_free m ks \<Longrightarrow> k \<in> set ks \<Longrightarrow> k' \<in> set ks \<Longrightarrow> owns m k q \<Longrightarrow> owns m k' q \<Longrightarrow> k = k'"
  unfolding collision_free_def owns_def by blast

lemma find_owner:
  assumes "collision_free m ks" and "k \<in> set ks" and "owns m k q"
  shows "find (\<lambda>k. owns m k q) (rev ks) = Some k"
proof (cases "find (\<lambda>k. owns m k q) (rev ks)")
  case None
  with assms(2,3) show ?thesis by (auto simp: find_None_iff)
next
  case (Some k')
  with find_rev_SomeD [OF this] collision_free_owns [OF assms(1)] assms show ?thesis by blast
qed

lemma hashMap_Add_order:
  assumes "collision_free m ks" and "set ks = set ks'"
  shows "hashMap (ch_Add ks m) = hashMap (ch_Add ks' m)"
proof (rule ext)
  fix q
  have cf: "collision_free m ks'" using assms by (simp add: collision_free_def)
  show "hashMap (ch_Add ks m) q = hashMap (ch_Add ks' m) q"
  proof (cases "\<exists>k \<in> set ks. owns m k q")
    case True
    then obtain k where k: "k \<in> set ks" "owns m k q" by blast
    with find_owner [OF assms(1)] find_owner [OF cf] assms(2) show ?thesis
      by (simp add: hashMap_Add)
  next
    case False
    then have "find (\<lambda>k. owns m k q) (rev ks) = None" "find (\<lambda>k. owns m k q) (rev ks') = None"
      using assms(2) by (auto simp: find_None_iff)
    then show ?thesis by (simp add: hashMap_Add)
  qed
qed

lemma ring_order_independent:
  assumes "collision_free (ch_New reps fn) ks" and "set ks = set ks'"
  shows "ch_Get key (ch_Add ks (ch_New reps fn)) = ch_Get key (ch_Add ks' (ch_New reps fn))"
proof -
  let ?m = "ch_Add ks (ch_New reps fn)" and ?m' = "ch_Add ks' (ch_New reps fn)"
  have inv: "ch_inv ?m" "ch_inv ?m'" by (simp_all add: ch_inv_Add)
  have map: "hashMap ?m = hashMap ?m'" by (rule hashMap_Add_order [OF assms])
  then have set: "set (keys ?m) = set (keys ?m')" using inv by (simp add: ch_inv_def)
  show ?thesis
  proof (cases "keys ?m = []")
    case True
    with set show ?thesis by (simp add: ch_Get_empty)
  next
    case False
    then have "keys ?m' \<noteq> []" using set by auto
    with ch_Get_succ [OF inv(1) False, of key] ch_Get_succ [OF inv(2), of key] map set
    show ?thesis by simp
  qed
qed

text \<open>
  When no two nodes share a point, the owner of a key does not depend on the order in which
  the nodes were added: two servers that list the same peers in different orders agree.
\<close>

theorem ch_Get_order_independent:
  assumes "collision_free (ch_New reps fn) ks" and "set ks = set ks'"
  shows "ch_Get key (ch_build reps fn [ks]) = ch_Get key (ch_build reps fn [ks'])"
  using ring_order_independent [OF assms] by (simp add: ch_build_def)

theorem ch_Get_order_independent_witness:
  "ch_Get ''x'' (ch_build 1 (Some (\<lambda>s. of_nat (length s))) [[''a'', ''bb'']]) =
   ch_Get ''x'' (ch_build 1 (Some (\<lambda>s. of_nat (length s))) [[''bb'', ''a'']])"
  by (rule ch_Get_order_independent)
    (auto simp: collision_free_def ch_New_def ring_point_def strconv_Itoa_def digits_rev.simps)

end
