(* ===== verification/NetUrl.thy ===== *)
theory NetUrl
  imports Prelude
begin

text \<open>
  The part of the package \<^verbatim>\<open>net/url\<close> that the programs use: escaping and unescaping of paths and query
  values, and the values of a query.
\<close>

section \<open>Escaping\<close>

text \<open>\<^verbatim>\<open>url.QueryEscape\<close>: letters, digits and four marks stay, a space becomes a plus sign.\<close>

definition url_unreserved :: "char \<Rightarrow> bool" where
  "url_unreserved c \<longleftrightarrow>
     (let n = of_char c :: nat
      in (97 \<le> n \<and> n \<le> 122) \<or> (65 \<le> n \<and> n \<le> 90) \<or> (48 \<le> n \<and> n \<le> 57) \<or>
         c \<in> {CHR ''-'', CHR ''_'', CHR ''.'', CHR ''~''})"

definition upperhex :: "nat \<Rightarrow> char" where
  "upperhex n = ''0123456789ABCDEF'' ! n"

definition unhex :: "char \<Rightarrow> nat option" where
  "unhex c =
     (let n = of_char c :: nat
      in if 48 \<le> n \<and> n \<le> 57 then Some (n - 48)
         else if 97 \<le> n \<and> n \<le> 102 then Some (n - 97 + 10)
         else if 65 \<le> n \<and> n \<le> 70 then Some (n - 65 + 10) else None)"

definition escape_char :: "char \<Rightarrow> string" where
  "escape_char c =
     (if url_unreserved c then [c]
      else if c = CHR '' '' then [CHR ''+'']
      else [CHR ''%'', upperhex (of_char c div 16), upperhex (of_char c mod 16)])"

definition url_QueryEscape :: "string \<Rightarrow> string" where
  "url_QueryEscape s = concat (map escape_char s)"

text \<open>
  \<^verbatim>\<open>url.PathUnescape\<close>, which produces the field \<^verbatim>\<open>URL.Path\<close> of a request: in a path a plus sign
  stands for itself.
\<close>

fun url_PathUnescape :: "string \<Rightarrow> string option" where
  "url_PathUnescape [] = Some []"
| "url_PathUnescape (c # s) =
     (if c = CHR ''%'' then
        (case s of
           x # y # rest \<Rightarrow>
             (case (unhex x, unhex y) of
                (Some i, Some j) \<Rightarrow>
                  map_option (\<lambda>t. char_of (16 * i + j) # t) (url_PathUnescape rest)
              | _ \<Rightarrow> None)
         | _ \<Rightarrow> None)
      else map_option (\<lambda>t. c # t) (url_PathUnescape s))"

lemma unhex_upperhex: "n < 16 \<Longrightarrow> unhex (upperhex n) = Some n"
proof -
  have "\<forall>n \<in> set [0..<16]. unhex (upperhex n) = Some n" by code_simp
  then show "n < 16 \<Longrightarrow> unhex (upperhex n) = Some n" by simp
qed

text \<open>The two encodings do not match: a space sent comes back as a plus sign.\<close>

definition space_to_plus :: "char \<Rightarrow> char" where
  "space_to_plus c = (if c = CHR '' '' then CHR ''+'' else c)"

lemma unescape_escape_char:
  "url_PathUnescape (escape_char c @ s) = map_option (\<lambda>t. space_to_plus c # t) (url_PathUnescape s)"
proof -
  have "\<not> url_unreserved (CHR ''%'')" by (simp add: url_unreserved_def)
  moreover have "of_char c < (256::nat)" by (fact nat_of_char_less_256)
  then have "of_char c div 16 < (16::nat)" "of_char c mod 16 < (16::nat)"
    by (simp_all add: less_mult_imp_div_less)
  moreover have "16 * (of_char c div 16) + of_char c mod 16 = (of_char c :: nat)" by simp
  moreover have "\<not> url_unreserved (CHR '' '')" by (simp add: url_unreserved_def)
  ultimately show ?thesis
    by (auto simp: escape_char_def unhex_upperhex space_to_plus_def)
qed

lemma unescape_QueryEscape:
  "url_PathUnescape (url_QueryEscape s @ t) =
     map_option (\<lambda>u. map space_to_plus s @ u) (url_PathUnescape t)"
  by (induction s; cases "url_PathUnescape t")
    (auto simp: url_QueryEscape_def unescape_escape_char)

lemma unescape_plain:
  "CHR ''%'' \<notin> set p \<Longrightarrow> url_PathUnescape (p @ t) = map_option (\<lambda>u. p @ u) (url_PathUnescape t)"
  by (induction p; cases "url_PathUnescape t") auto

section \<open>Queries\<close>

text \<open>\<^verbatim>\<open>url.QueryUnescape\<close>: in a query a plus sign is a space.\<close>

definition plus_to_space :: "char \<Rightarrow> char" where
  "plus_to_space c = (if c = CHR ''+'' then CHR '' '' else c)"

definition url_QueryUnescape :: "string \<Rightarrow> string option" where
  "url_QueryUnescape s = url_PathUnescape (map plus_to_space s)"

text \<open>
  \<^verbatim>\<open>URL.Query\<close>: the pairs of a query, separated by ampersands; a pair with a semicolon or a broken
  escape is dropped, and a pair without an equals sign has the empty value.  \<^verbatim>\<open>Get\<close> gives the first
  value of a key.
\<close>

definition query_pair :: "string \<Rightarrow> (string \<times> string) option" where
  "query_pair s =
     (if s = [] \<or> CHR '';'' \<in> set s then None
      else
        (case (case strings_SplitN2 (CHR ''='') s of [k, v] \<Rightarrow> (k, v) | _ \<Rightarrow> (s, [])) of
           (k, v) \<Rightarrow>
             (case (url_QueryUnescape k, url_QueryUnescape v) of
                (Some k', Some v') \<Rightarrow> Some (k', v')
              | _ \<Rightarrow> None)))"

definition url_ParseQuery :: "string \<Rightarrow> (string \<times> string) list" where
  "url_ParseQuery q = List.map_filter query_pair (strings_Split (CHR ''&'') q)"

definition values_Get :: "string \<Rightarrow> (string \<times> string) list \<Rightarrow> string" where
  "values_Get k vs = (case map_of vs k of None \<Rightarrow> [] | Some v \<Rightarrow> v)"

text \<open>The raw query of a request URI: what follows the first question mark.\<close>

definition raw_query :: "string \<Rightarrow> string" where
  "raw_query uri = (case strings_SplitN2 (CHR ''?'') uri of [_, q] \<Rightarrow> q | _ \<Rightarrow> [])"

text \<open>The characters that separate the parts of a query do not occur in an escaped text.\<close>

definition separators :: "char list" where
  "separators = [CHR ''&'', CHR '';'', CHR ''='', CHR '' '', CHR ''?'']"

lemma separators_reserved:
  "y \<in> set separators \<Longrightarrow> \<not> url_unreserved y" "CHR ''+'' \<notin> set separators" "CHR ''%'' \<notin> set separators"
  "n < 16 \<Longrightarrow> upperhex n \<notin> set separators"
proof -
  have "\<forall>y \<in> set separators. \<not> url_unreserved y" "\<forall>n \<in> set [0..<16]. upperhex n \<notin> set separators" by code_simp+
  then show "y \<in> set separators \<Longrightarrow> \<not> url_unreserved y" "n < 16 \<Longrightarrow> upperhex n \<notin> set separators" by simp_all
qed (simp_all add: separators_def)

lemma hex_digits: "of_char c div 16 < (16::nat)" "of_char c mod 16 < (16::nat)"
  using nat_of_char_less_256 [of c] by (simp_all add: less_mult_imp_div_less)

lemma escape_char_safe: "x \<in> set (escape_char c) \<Longrightarrow> x \<notin> set separators"
  using separators_reserved hex_digits [of c] unfolding escape_char_def by (cases "url_unreserved c") (auto split: if_splits)

lemma QueryEscape_safe: "y \<in> set separators \<Longrightarrow> y \<notin> set (url_QueryEscape s)"
  using escape_char_safe by (auto simp: url_QueryEscape_def)

lemma unescape_query_char:
  "url_QueryUnescape (escape_char c @ s) = map_option (\<lambda>t. c # t) (url_QueryUnescape s)"
proof (cases "c = CHR '' ''")
  case True
  then show ?thesis by (simp add: url_QueryUnescape_def escape_char_def url_unreserved_def plus_to_space_def)
next
  case False
  have plus: "\<not> url_unreserved (CHR ''+'')" by (simp add: url_unreserved_def)
  have hex: "\<forall>n \<in> set [0..<16]. plus_to_space (upperhex n) = upperhex n" by code_simp
  have "map plus_to_space (escape_char c) = escape_char c"
    using False plus hex hex_digits [of c] by (auto simp: escape_char_def plus_to_space_def)
  then show ?thesis
    using unescape_escape_char [of c] False by (simp add: url_QueryUnescape_def space_to_plus_def)
qed

lemma QueryUnescape_Escape: "url_QueryUnescape (url_QueryEscape s) = Some s"
proof (induction s)
  case (Cons c s)
  then show ?case by (simp add: url_QueryEscape_def unescape_query_char)
qed (simp add: url_QueryEscape_def url_QueryUnescape_def)

lemma query_pair_escaped:
  assumes "k \<noteq> []"
  shows "query_pair (url_QueryEscape k @ ''='' @ url_QueryEscape v) = Some (k, v)"
proof -
  have "url_QueryEscape k \<noteq> []" using assms by (cases k) (auto simp: url_QueryEscape_def escape_char_def)
  moreover have "CHR ''='' \<notin> set (url_QueryEscape k)" "CHR '';'' \<notin> set (url_QueryEscape k)" "CHR '';'' \<notin> set (url_QueryEscape v)"
    by (rule QueryEscape_safe; simp add: separators_def)+
  moreover from this(1) have "strings_SplitN2 (CHR ''='') (url_QueryEscape k @ CHR ''='' # url_QueryEscape v) =
      [url_QueryEscape k, url_QueryEscape v]"
    using SplitN2_append_sep [of "CHR ''=''" "url_QueryEscape k" "url_QueryEscape v"] by simp
  ultimately show ?thesis by (simp add: query_pair_def QueryUnescape_Escape)
qed

end
