(* ===== verification/GeeHttp.thy ===== *)
theory GeeHttp
  imports GeeCache ConsistentHash NetUrl
begin

text \<open>
  Package \<^verbatim>\<open>geecache\<close>, \<^verbatim>\<open>http.go\<close>: the peers talk over HTTP.  \<^verbatim>\<open>HTTPPool\<close> is both the server
  side (\<^verbatim>\<open>ServeHTTP\<close>) and the choice of a peer (\<^verbatim>\<open>PickPeer\<close>); \<^verbatim>\<open>httpGetter\<close> is the client side.
  The encodings of \<open>NetUrl\<close> are modelled from the standard library; the transport \<^verbatim>\<open>http.Get\<close> and the third-party encoding of a response
  (\<^verbatim>\<open>proto.Marshal\<close> and \<^verbatim>\<open>proto.Unmarshal\<close>) are parameters.
\<close>

section \<open>The server side\<close>

record HTTPPool =
  self :: string
  basePath :: string
  pool_peers :: "Map option"
  httpGetters :: "string \<Rightarrow> string option"

definition defaultBasePath :: string where
  "defaultBasePath = ''/geecache/''"

definition defaultReplicas :: int where
  "defaultReplicas = 50"

definition NewHTTPPool :: "string \<Rightarrow> HTTPPool" where
  "NewHTTPPool addr =
     \<lparr>self = addr, basePath = defaultBasePath, pool_peers = None, httpGetters = Map.empty\<rparr>"

text \<open>
  What a handler has written: the status code, the content type and the body.  \<^verbatim>\<open>http.Error\<close>
  writes its message and a newline as plain text.
\<close>

record http_response =
  StatusCode :: int
  ContentType :: string
  Body :: bytes

definition http_Error :: "string \<Rightarrow> int \<Rightarrow> http_response" where
  "http_Error msg code =
     \<lparr>StatusCode = code, ContentType = ''text/plain; charset=utf-8'', Body = msg @ [CHR 0x0A]\<rparr>"

text \<open>The cut of a path, past the base path, into the names of a group and of a key.\<close>

definition path_names :: "string \<Rightarrow> string \<Rightarrow> string list" where
  "path_names base path = strings_SplitN2 (CHR ''/'') (drop (length base) path)"

text \<open>The lookup on a group that is reached through its address.\<close>

definition at_group :: "gref \<Rightarrow> ('a, 'w gstate) action \<Rightarrow> ('a, 'w registry \<times> 'w) action" where
  "at_group a f = (\<lambda>(r, w).
     case group_at r a of
       None \<Rightarrow> (Panics ''nil pointer dereference'', (r, w))
     | Some g \<Rightarrow>
         (let (out, (g', w')) = f (g, w)
          in (out, (r\<lparr>group_at := (group_at r)(a \<mapsto> g')\<rparr>, w'))))"

definition ServeHTTP ::
  "(Response \<Rightarrow> error + bytes) \<Rightarrow> HTTPPool \<Rightarrow> string \<Rightarrow> (http_response, 'w registry \<times> 'w) action"
where
  "ServeHTTP marshal p path s =
     (if \<not> strings_HasPrefix path (basePath p)
      then (Panics (''HTTPPool serving unexpected path: '' @ path), s)
      else
        (case path_names (basePath p) path of
           [groupName, k] \<Rightarrow>
             (case GetGroup groupName (fst s) of
                None \<Rightarrow> (Returns (http_Error (''no such group: '' @ groupName) 404), s)
              | Some a \<Rightarrow>
                  and_then (at_group a (Group_Get k) s) (\<lambda>r s1.
                    case r of
                      Inl err \<Rightarrow> (Returns (http_Error err 500), s1)
                    | Inr view \<Rightarrow>
                        (case marshal \<lparr>Value = bv_ByteSlice view\<rparr> of
                           Inl err \<Rightarrow> (Returns (http_Error err 500), s1)
                         | Inr body \<Rightarrow>
                             (Returns \<lparr>StatusCode = 200, ContentType = ''application/octet-stream'',
                                Body = body\<rparr>, s1))))
         | _ \<Rightarrow> (Returns (http_Error ''bad request'' 400), s)))"

section \<open>The choice of a peer\<close>

definition pool_Set :: "string list \<Rightarrow> HTTPPool \<Rightarrow> HTTPPool" where
  "pool_Set ps p =
     p\<lparr>pool_peers := Some (ch_Add ps (ch_New defaultReplicas None)),
       httpGetters := fold (\<lambda>peer m. m(peer \<mapsto> peer @ basePath p)) ps Map.empty\<rparr>"

text \<open>
  The result of \<^verbatim>\<open>PickPeer\<close>: the outer option is its second result, the inner one is the
  pointer in the map, \<^term>\<open>None\<close> when it is nil.  Before the first \<^verbatim>\<open>Set\<close> the ring is a nil
  pointer, and its method \<^verbatim>\<open>Get\<close> reads a field of it.
\<close>

definition PickPeer :: "HTTPPool \<Rightarrow> string \<Rightarrow> string option option outcome" where
  "PickPeer p k =
     (case pool_peers p of
        None \<Rightarrow> Panics ''nil pointer dereference''
      | Some m \<Rightarrow>
          (let peer = ch_Get k m
           in if peer \<noteq> [] \<and> peer \<noteq> self p then Returns (Some (httpGetters p peer))
              else Returns None))"

section \<open>The client side\<close>

text \<open>
  \<open>http_Get\<close> is the transport: it takes a URL and yields an error or a reply, which holds the
  status line, its code, and what \<^verbatim>\<open>io.ReadAll\<close> gives on the body.
\<close>

record http_reply =
  Status :: string
  reply_code :: int
  reply_body :: "error + bytes"

definition request_url :: "string \<Rightarrow> Request \<Rightarrow> string" where
  "request_url baseURL rq =
     baseURL @ url_QueryEscape (Group_name rq) @ ''/'' @ url_QueryEscape (Key rq)"

definition httpGetter_Get ::
  "(string \<Rightarrow> (error + http_reply, 'w) action) \<Rightarrow> (bytes \<Rightarrow> error + Response) \<Rightarrow> string option \<Rightarrow>
   'w PeerGetter"
where
  "httpGetter_Get http_Get unmarshal h rq w =
     (case h of
        None \<Rightarrow> (Panics ''nil pointer dereference'', w)
      | Some baseURL \<Rightarrow>
          (let u = request_url baseURL rq
           in and_then (http_Get u w) (\<lambda>r w1.
                case r of
                  Inl err \<Rightarrow> (Returns (Inl err), w1)
                | Inr res \<Rightarrow>
                    if reply_code res \<noteq> 200
                    then (Returns (Inl (''server returned: '' @ Status res)), w1)
                    else
                      (case reply_body res of
                         Inl err \<Rightarrow> (Returns (Inl (''reading response body: '' @ err)), w1)
                       | Inr body \<Rightarrow>
                           (case unmarshal body of
                              Inl err \<Rightarrow> (Returns (Inl (''decoding respose body: '' @ err)), w1)
                            | Inr out \<Rightarrow> (Returns (Inr out), w1))))))"

text \<open>The pool as the peer picker of a group.\<close>

definition pool_picker ::
  "(string \<Rightarrow> (error + http_reply, 'w) action) \<Rightarrow> (bytes \<Rightarrow> error + Response) \<Rightarrow> HTTPPool \<Rightarrow>
   'w PeerPicker"
where
  "pool_picker http_Get unmarshal p k =
     (case PickPeer p k of
        Returns choice \<Rightarrow> Returns (map_option (httpGetter_Get http_Get unmarshal) choice)
      | Panics e \<Rightarrow> Panics e
      | Hangs \<Rightarrow> Hangs)"

section \<open>Properties\<close>

lemma httpGetters_fold:
  "fold (\<lambda>peer m. m(peer \<mapsto> peer @ bp)) ps m0 x =
     (if x \<in> set ps then Some (x @ bp) else m0 x)"
  by (induction ps arbitrary: m0) auto

text \<open>The ring of a pool, which has points as soon as there is a peer.\<close>

lemma pool_owner:
  assumes "ps \<noteq> []"
  shows "ch_Get k (ch_Add ps (ch_New defaultReplicas None)) \<in> set ps"
proof -
  let ?m = "ch_build defaultReplicas None [ps]"
  have "length (keys ?m) \<noteq> 0"
    unfolding length_keys_build using assms by (simp add: defaultReplicas_def)
  then have "hashMap ?m (ring_succ (uint (hash_fn ?m k)) (set (keys ?m))) = Some (ch_Get k ?m)"
    by (intro ch_Get_succ) auto
  from ran_build [OF this] show ?thesis by (simp add: ch_build_def)
qed

lemma pool_owner_empty: "ch_Get k (ch_Add [] (ch_New defaultReplicas None)) = []"
  by (simp add: ch_Get_def ch_Add_def ch_New_def)

text \<open>
  After \<^verbatim>\<open>Set\<close>, the choice of a peer never panics; a remote peer is chosen exactly when the
  ring's owner of the key is named and is not the server itself, and then it is one of the
  peers given, with its own non-nil HTTP client.  Before \<^verbatim>\<open>Set\<close> the choice panics.
\<close>

theorem PickPeer_after_Set:
  "(let owner = ch_Get k (ch_Add ps (ch_New defaultReplicas None)) in
     PickPeer (pool_Set ps p) k =
       Returns (if owner \<noteq> [] \<and> owner \<noteq> self p then Some (Some (owner @ basePath p)) else None) \<and>
     (owner \<noteq> [] \<longrightarrow> owner \<in> set ps)) \<and>
   PickPeer (NewHTTPPool addr) k = Panics ''nil pointer dereference''"
proof -
  define owner where "owner = ch_Get k (ch_Add ps (ch_New defaultReplicas None))"
  have "owner \<noteq> [] \<Longrightarrow> owner \<in> set ps"
    using pool_owner [of ps k] pool_owner_empty [of k] by (cases "ps = []") (auto simp: owner_def)
  then show ?thesis
    by (auto simp: PickPeer_def pool_Set_def Let_def httpGetters_fold NewHTTPPool_def
        simp flip: owner_def)
qed

theorem PickPeer_after_Set_witness:
  "PickPeer (pool_Set [''B''] (NewHTTPPool ''A'')) ''Tom'' = Returns (Some (Some ''B/geecache/''))"
  using PickPeer_after_Set [of "''Tom''" "[''B'']" "NewHTTPPool ''A''"] pool_owner [of "[''B'']" "''Tom''"]
  by (simp add: Let_def NewHTTPPool_def defaultBasePath_def)

lemma request_path:
  assumes "CHR ''%'' \<notin> set bp"
  shows "url_PathUnescape (bp @ url_QueryEscape g @ ''/'' @ url_QueryEscape k) =
    Some (bp @ map space_to_plus g @ ''/'' @ map space_to_plus k)"
  using unescape_QueryEscape [of k "[]"] by (simp add: unescape_plain [OF assms] unescape_QueryEscape)

lemma space_to_plus_slash: "CHR ''/'' \<notin> set g \<Longrightarrow> CHR ''/'' \<notin> set (map space_to_plus g)"
  by (auto simp: space_to_plus_def)

lemma map_space_to_plus_id: "map space_to_plus s = s \<longleftrightarrow> CHR '' '' \<notin> set s"
  by (induction s) (auto simp: space_to_plus_def)

text \<open>
  What the server reads from the URL that a client builds for a group and a key.  The path
  decodes; for a group name without a slash it is cut into exactly two names, and these are
  the names sent with every space turned into a plus sign: the round trip is exact just when
  there is no space.
\<close>

theorem request_names_roundtrip:
  assumes "CHR ''/'' \<notin> set g"
  shows "\<exists>path. url_PathUnescape (request_url defaultBasePath \<lparr>Group_name = g, Key = k\<rparr>) = Some path \<and>
    strings_HasPrefix path defaultBasePath \<and>
    path_names defaultBasePath path = [map space_to_plus g, map space_to_plus k] \<and>
    (path_names defaultBasePath path = [g, k] \<longleftrightarrow> CHR '' '' \<notin> set g \<and> CHR '' '' \<notin> set k)"
proof -
  have "CHR ''%'' \<notin> set defaultBasePath" by (simp add: defaultBasePath_def)
  from request_path [OF this, of g k] show ?thesis
    using SplitN2_append_sep [OF space_to_plus_slash [OF assms], of "map space_to_plus k"]
    by (simp add: map_space_to_plus_id path_names_def request_url_def)
qed

theorem request_names_roundtrip_witness:
  "\<exists>path. url_PathUnescape (request_url defaultBasePath \<lparr>Group_name = ''scores'', Key = ''a b''\<rparr>) =
      Some path \<and> path_names defaultBasePath path = [''scores'', ''a+b'']"
  using request_names_roundtrip [of "''scores''" "''a b''"] by (auto simp: space_to_plus_def)

section \<open>Both ends of a request\<close>

text \<open>
  The reply that a client reads when the server has written a response: the status line is the
  code and its standard text, given here for the codes that the program writes.
\<close>

definition http_StatusText :: "int \<Rightarrow> string" where
  "http_StatusText code =
     (case map_of [(200, ''OK''), (400, ''Bad Request''), (404, ''Not Found''),
                   (500, ''Internal Server Error'')] code of Some t \<Rightarrow> t | None \<Rightarrow> [])"

definition reply_of :: "http_response \<Rightarrow> http_reply" where
  "reply_of resp =
     \<lparr>Status = strconv_Itoa (StatusCode resp) @ '' '' @ http_StatusText (StatusCode resp),
      reply_code = StatusCode resp, reply_body = Inr (Body resp)\<rparr>"

lemma Itoa_500: "strconv_Itoa 500 = ''500''"
  by code_simp

text \<open>What the server does with a path, and what the client makes of the answer.\<close>

lemma ServeHTTP_names:
  assumes "basePath pool = defaultBasePath" and "CHR ''/'' \<notin> set g" and "GetGroup g r = Some a"
  shows "ServeHTTP marshal pool (defaultBasePath @ g @ ''/'' @ k) (r, w) =
    and_then (at_group a (Group_Get k) (r, w)) (\<lambda>res s1. case res of
      Inl err \<Rightarrow> (Returns (http_Error err 500), s1)
    | Inr view \<Rightarrow> (case marshal \<lparr>Value = bv_ByteSlice view\<rparr> of
         Inl err \<Rightarrow> (Returns (http_Error err 500), s1)
       | Inr body \<Rightarrow> (Returns \<lparr>StatusCode = 200, ContentType = ''application/octet-stream'', Body = body\<rparr>, s1)))"
  using SplitN2_append_sep [OF assms(2), of k] assms(1,3) by (simp add: ServeHTTP_def path_names_def)

lemma httpGetter_reply:
  assumes "http_Get (request_url base rq) w = (Returns (Inr (reply_of resp)), w')"
  shows "httpGetter_Get http_Get unmarshal (Some base) rq w =
    (Returns (if StatusCode resp \<noteq> 200 then Inl (''server returned: '' @ Status (reply_of resp))
      else (case unmarshal (Body resp) of
          Inl err \<Rightarrow> Inl (''decoding respose body: '' @ err) | Inr out \<Rightarrow> Inr out)), w')"
  using assms by (auto simp: httpGetter_Get_def reply_of_def split: sum.split)

lemma request_path_plain:
  assumes "CHR '' '' \<notin> set g" and "CHR '' '' \<notin> set k"
  shows "url_PathUnescape (defaultBasePath @ url_QueryEscape g @ ''/'' @ url_QueryEscape k) =
    Some (defaultBasePath @ g @ ''/'' @ k)"
  using request_path [of defaultBasePath g k] assms
  by (simp add: defaultBasePath_def map_space_to_plus_id [THEN iffD2])

end
