(* ===== verification/Cluster.thy ===== *)
theory Cluster
  imports GeeHttp
begin

text \<open>
  The program \<^verbatim>\<open>GeeCache/main.go\<close>: nodes with one group each over the same database, every node a
  peer of the others, and the API that answers a request from any node.  The world of a node is the
  data of all nodes (\<open>cluster\<close>); its functions (getter, picker, transport) are built from the setup.
\<close>

section \<open>One node\<close>

text \<open>The database of the program, and the getter over a database.\<close>

definition main_db :: "string \<Rightarrow> bytes option" where
  "main_db = map_of [(''Tom'', ''630''), (''Jack'', ''589''), (''Sam'', ''567'')]"

definition db_getter :: "(string \<Rightarrow> bytes option) \<Rightarrow> 'w Getter" where
  "db_getter db k w =
     (case db k of Some v \<Rightarrow> (Returns (Inr v), w) | None \<Rightarrow> (Returns (Inl (k @ '' not exist'')), w))"

definition createGroup :: "(string \<Rightarrow> bytes option) \<Rightarrow> (gref, 'w registry) action" where
  "createGroup db = NewGroup ''scores'' (push_bit 10 2) (Some (db_getter db))"

text \<open>The pool is made and registered with the group; then it serves.\<close>

definition startCacheServer ::
  "(string \<Rightarrow> (error + http_reply, 'w) action) \<Rightarrow> (bytes \<Rightarrow> error + Response) \<Rightarrow> string \<Rightarrow> string list \<Rightarrow>
   (HTTPPool, 'w Group) action"
where
  "startCacheServer http_Get unmarshal addr addrs gee =
     (let peers = pool_Set addrs (NewHTTPPool addr)
      in and_then (RegisterPeers (pool_picker http_Get unmarshal peers) gee) (\<lambda>_ gee'. (Returns peers, gee')))"

text \<open>The handler that \<^verbatim>\<open>startAPIServer\<close> registers, for the value of the query parameter \<^verbatim>\<open>key\<close>.\<close>

definition api_handler :: "string \<Rightarrow> (http_response, 'w gstate) action" where
  "api_handler k s =
     and_then (Group_Get k s) (\<lambda>res s1.
       case res of
         Inl err \<Rightarrow> (Returns (http_Error err 500), s1)
       | Inr view \<Rightarrow>
           (Returns \<lparr>StatusCode = 200, ContentType = ''application/octet-stream'', Body = bv_ByteSlice view\<rparr>, s1))"

section \<open>The nodes together\<close>

text \<open>
  \<open>su_orders\<close> is the order in which a node was given the addresses: \<^verbatim>\<open>main\<close> takes them from a map, so
  it differs between nodes.  \<open>su_nodes\<close> are the addresses where a node listens.
\<close>

record cluster_setup =
  su_db :: "string \<Rightarrow> bytes option"
  su_nodes :: "string list"
  su_orders :: "string \<Rightarrow> string list"
  su_marshal :: "Response \<Rightarrow> error + bytes"
  su_unmarshal :: "bytes \<Rightarrow> error + Response"

record node_data =
  nd_cache :: cache_t
  nd_loader :: "string set"

type_synonym cluster = "string \<Rightarrow> node_data"

definition node_pool :: "cluster_setup \<Rightarrow> string \<Rightarrow> HTTPPool" where
  "node_pool u addr = pool_Set (su_orders u addr) (NewHTTPPool addr)"

text \<open>The state of a node after its start, with the given data, for a transport.\<close>

definition node_group ::
  "cluster_setup \<Rightarrow> (string \<Rightarrow> (error + http_reply, cluster) action) \<Rightarrow> string \<Rightarrow> node_data \<Rightarrow> cluster Group" where
  "node_group u http_Get addr nd =
     (snd (startCacheServer http_Get (su_unmarshal u) addr (su_orders u addr)
        (new_group ''scores'' (push_bit 10 2) (db_getter (su_db u)))))
       \<lparr>mainCache := nd_cache nd, loader := nd_loader nd\<rparr>"

definition node_registry :: "cluster_setup \<Rightarrow> cluster Group \<Rightarrow> cluster registry" where
  "node_registry u g =
     (snd (createGroup (su_db u) \<lparr>groups = Map.empty, group_at = Map.empty, next_ref = 0\<rparr>))\<lparr>group_at := [0 \<mapsto> g]\<rparr>"

definition data_of :: "cluster Group \<Rightarrow> node_data" where
  "data_of g = \<lparr>nd_cache = mainCache g, nd_loader = loader g\<rparr>"

text \<open>
  The network: a request goes to the node whose address starts the URL, which decodes the path and
  runs the handler of its pool.  A node forwards over a network with one hop less; on no hops all
  connections are refused, so that the number of hops bounds the length of chains of forwarding.  (A
  request that came back to a node at work would find the data from before; no such request occurs.)
\<close>

fun network :: "cluster_setup \<Rightarrow> nat \<Rightarrow> string \<Rightarrow> (error + http_reply, cluster) action" where
  "network u 0 url W = (Returns (Inl ''connection refused''), W)"
| "network u (Suc hops) url W =
     (case find (\<lambda>b. strings_HasPrefix url (b @ ''/'')) (su_nodes u) of
        None \<Rightarrow> (Returns (Inl ''connection refused''), W)
      | Some b \<Rightarrow>
          (case url_PathUnescape (drop (length b) url) of
             None \<Rightarrow> (Returns (Inl ''invalid URL escape''), W)
           | Some path \<Rightarrow>
               (let g = node_group u (network u hops) b (W b);
                    (out, (r, W')) = ServeHTTP (su_marshal u) (node_pool u b) path (node_registry u g, W)
                in (case out of
                      Returns resp \<Rightarrow> Returns (Inr (reply_of resp))
                    | Panics e \<Rightarrow> Returns (Inl ''EOF'')
                    | Hangs \<Rightarrow> Hangs,
                    case group_at r 0 of Some g' \<Rightarrow> W'(b := data_of g') | None \<Rightarrow> W'))))"

text \<open>A request to the API at a node.\<close>

definition api_request :: "cluster_setup \<Rightarrow> nat \<Rightarrow> string \<Rightarrow> string \<Rightarrow> (http_response, cluster) action" where
  "api_request u hops addr k W =
     (let (out, (g, W')) = api_handler k (node_group u (network u hops) addr (W addr), W)
      in (out, W'(addr := data_of g)))"

section \<open>Lookups over the database\<close>

text \<open>What every lookup should give, and the groups whose caches agree with the database.\<close>

definition db_result :: "(string \<Rightarrow> bytes option) \<Rightarrow> string \<Rightarrow> error + ByteView" where
  "db_result db k = (case db k of Some v \<Rightarrow> Inr \<lparr>bv_b = v\<rparr> | None \<Rightarrow> Inl (k @ '' not exist''))"

abbreviation from_db :: "(string \<Rightarrow> bytes option) \<Rightarrow> string \<Rightarrow> bytes \<Rightarrow> bool" where
  "from_db db k bs \<equiv> db k = Some bs"

definition db_group :: "(string \<Rightarrow> bytes option) \<Rightarrow> 'w Group \<Rightarrow> bool" where
  "db_group db g \<longleftrightarrow> group_ok (from_db db) g \<and> 0 \<le>s cacheBytes (mainCache g) \<and> getter g = db_getter db"

lemma db_getter_honest: "honest (from_db db) (db_getter db)"
  by (auto simp: honest_def db_getter_def split: option.splits)

lemma db_group_loader [simp]: "db_group db (loader_update f g) = db_group db g"
  by (simp add: db_group_def)

lemma db_group_same: "group_ok (from_db db) g' \<Longrightarrow> same_group g g' \<Longrightarrow> db_group db g \<Longrightarrow> db_group db g'"
  by (simp add: db_group_def same_group_def)

lemma populateCache_total:
  assumes "db_group db g"
  shows "\<exists>c. populateCache k v (g, w) = (Returns (), (g\<lparr>mainCache := c\<rparr>, w))"
proof -
  have "cache_inv (mainCache g)" using assms by (simp add: db_group_def group_ok_def)
  from cache_lru_inv [OF this] lru_Add_total [of bv_Len "cache_lru (mainCache g)" k v "()"] assms
  obtain c where "cache_add k v (mainCache g) = Some c"
    by (auto simp: cache_add_lru db_group_def)
  then show ?thesis by (auto simp: populateCache_def)
qed

lemma getLocally_db:
  assumes "db_group db g"
  shows "\<exists>c. getLocally k (g, w) = (Returns (db_result db k), (g\<lparr>mainCache := c\<rparr>, w)) \<and>
    db_group db (g\<lparr>mainCache := c\<rparr>)"
proof -
  have g: "group_ok (from_db db) g" "getter g = db_getter db" using assms by (simp_all add: db_group_def)
  obtain c where c: "getLocally k (g, w) = (Returns (db_result db k), (g\<lparr>mainCache := c\<rparr>, w))"
  proof (cases "db k")
    case None
    then have "getLocally k (g, w) = (Returns (db_result db k), (g\<lparr>mainCache := mainCache g\<rparr>, w))"
      using g(2) by (simp add: getLocally_def db_getter_def db_result_def)
    then show thesis by (rule that)
  next
    case (Some v)
    then show thesis
      using that populateCache_total [OF assms, of k "\<lparr>bv_b = v\<rparr>" w] g(2)
      by (auto simp: getLocally_def db_getter_def db_result_def)
  qed
  moreover have "keeps (from_db db) g (getLocally k (g, w))"
    by (rule getLocally_keeps [OF g(1), THEN conjunct1]) (simp add: g(2) db_getter_honest)
  ultimately show ?thesis using db_group_same assms by (auto simp: keeps_def)
qed

text \<open>How a picker answers for a key: this node itself, or a peer, which may fail but does not lie.\<close>

definition fair_pick :: "(string \<Rightarrow> bytes option) \<Rightarrow> 'w Group \<Rightarrow> string \<Rightarrow> 'w \<Rightarrow> 'w \<Rightarrow> bool" where
  "fair_pick db g k w w' \<longleftrightarrow> (\<exists>pick. peers g = Some pick \<and>
     (pick k = Returns None \<and> w' = w \<or>
      (\<exists>peer r. pick k = Returns (Some peer) \<and> peer \<lparr>Group_name = group_name g, Key = k\<rparr> w = (Returns r, w') \<and>
         (\<forall>rs. r = Inr rs \<longrightarrow> db k = Some (Value rs)))))"

lemma load_fn_db:
  assumes "db_group db g" and "fair_pick db g k w w'"
  shows "\<exists>c. load_fn k (g, w) = (Returns (db_result db k), (g\<lparr>mainCache := c\<rparr>, w')) \<and>
    db_group db (g\<lparr>mainCache := c\<rparr>)"
proof -
  obtain pick where pick: "peers g = Some pick" and
    choice: "pick k = Returns None \<and> w' = w \<or>
      (\<exists>peer r. pick k = Returns (Some peer) \<and> peer \<lparr>Group_name = group_name g, Key = k\<rparr> w = (Returns r, w') \<and>
         (\<forall>rs. r = Inr rs \<longrightarrow> db k = Some (Value rs)))"
    using assms(2) unfolding fair_pick_def by blast
  from choice show ?thesis
  proof (elim disjE exE conjE)
    assume "pick k = Returns None" "w' = w"
    with getLocally_db [OF assms(1), of k w] pick show ?thesis by (simp add: load_fn_def)
  next
    fix peer r
    assume p: "pick k = Returns (Some peer)" "peer \<lparr>Group_name = group_name g, Key = k\<rparr> w = (Returns r, w')"
      "\<forall>rs. r = Inr rs \<longrightarrow> db k = Some (Value rs)"
    show ?thesis
    proof (cases r)
      case (Inl err)
      with getLocally_db [OF assms(1), of k w'] pick p show ?thesis by (simp add: load_fn_def getFromPeer_def)
    next
      case (Inr rs)
      then have "load_fn k (g, w) = (Returns (db_result db k), (g\<lparr>mainCache := mainCache g\<rparr>, w'))"
        using pick p by (simp add: load_fn_def getFromPeer_def db_result_def)
      then show ?thesis using assms(1) by (intro exI [of _ "mainCache g"]) simp
    qed
  qed
qed

lemma Group_Get_db:
  assumes "db_group db g" and "loader g = {}" and "k \<noteq> []" and "fair_pick db g k w w'"
  shows "\<exists>c w''. Group_Get k (g, w) = (Returns (db_result db k), (g\<lparr>mainCache := c\<rparr>, w'')) \<and>
    db_group db (g\<lparr>mainCache := c\<rparr>) \<and> w'' \<in> {w, w'}"
proof -
  have inv: "cache_inv (mainCache g)" using assms(1) by (simp add: db_group_def group_ok_def)
  define c where "c = snd (cache_get k (mainCache g))"
  have get: "cache_get k (mainCache g) = (cache_contents (mainCache g) k, c)"
    using mc.get_result [OF inv, of k] by (simp add: c_def prod_eq_iff)
  have ok: "db_group db (g\<lparr>mainCache := c\<rparr>)"
    using assms(1) mc.get_inv [OF inv] mc.get_contents [OF inv]
    by (auto simp: db_group_def group_ok_def c_def)
  show ?thesis
  proof (cases "cache_contents (mainCache g) k")
    case (Some v)
    then have "db k = Some (bv_b v)" using assms(1) by (simp add: db_group_def group_ok_def)
    with Some get ok assms(3) show ?thesis by (auto simp: Group_Get_def db_result_def)
  next
    case None
    let ?g = "loader_update (insert k) (g\<lparr>mainCache := c\<rparr>)"
    have "fair_pick db ?g k w w'" using assms(4) by (simp add: fair_pick_def)
    from load_fn_db [OF _ this] ok obtain c' where c': "load_fn k (?g, w) = (Returns (db_result db k), (?g\<lparr>mainCache := c'\<rparr>, w'))"
      "db_group db (?g\<lparr>mainCache := c'\<rparr>)" by auto
    have "Group_Get k (g, w) = load k (g\<lparr>mainCache := c\<rparr>, w)"
      using get None assms(3) by (simp add: Group_Get_def)
    also have "\<dots> = (Returns (db_result db k), (g\<lparr>mainCache := c'\<rparr>, w'))"
      using c'(1) assms(2) by (simp add: load_def sf_Do_def)
    finally show ?thesis using c'(2) by (auto simp: db_group_def group_ok_def)
  qed
qed

section \<open>The cluster serves the database\<close>

definition data_ok :: "(string \<Rightarrow> bytes option) \<Rightarrow> node_data \<Rightarrow> bool" where
  "data_ok db nd \<longleftrightarrow> cache_inv (nd_cache nd) \<and> 0 \<le>s cacheBytes (nd_cache nd) \<and>
     (\<forall>k v. cache_contents (nd_cache nd) k = Some v \<longrightarrow> db k = Some (bv_b v)) \<and> nd_loader nd = {}"

text \<open>
  A setup that works: no two nodes share a point of the ring, every node knows all the nodes, an
  address tells one node, and responses can be decoded.
\<close>

definition setup_ok :: "cluster_setup \<Rightarrow> bool" where
  "setup_ok u \<longleftrightarrow>
     collision_free (ch_New defaultReplicas None) (su_nodes u) \<and>
     (\<forall>a. set (su_orders u a) = set (su_nodes u)) \<and>
     (\<forall>a \<in> set (su_nodes u). \<forall>b \<in> set (su_nodes u). \<forall>rest.
        strings_HasPrefix (b @ ''/'' @ rest) (a @ ''/'') \<longrightarrow> a = b) \<and>
     (\<forall>rs. \<exists>body. su_marshal u rs = Inr body \<and> su_unmarshal u body = Inr rs)"

lemma node_group_fields [simp]:
  "getter (node_group u h a nd) = db_getter (su_db u)" "mainCache (node_group u h a nd) = nd_cache nd"
  "loader (node_group u h a nd) = nd_loader nd" "group_name (node_group u h a nd) = ''scores''"
  "peers (node_group u h a nd) = Some (pool_picker h (su_unmarshal u) (node_pool u a))"
  by (simp_all add: node_group_def startCacheServer_def RegisterPeers_def new_group_def node_pool_def Let_def)

lemma node_group_db: "data_ok (su_db u) nd \<Longrightarrow> db_group (su_db u) (node_group u h a nd)"
  by (simp add: data_ok_def db_group_def group_ok_def)

lemma data_of_ok: "db_group db g \<Longrightarrow> loader g = {} \<Longrightarrow> data_ok db (data_of g)"
  by (simp add: data_ok_def data_of_def db_group_def group_ok_def)

lemma node_registry_fields [simp]: "GetGroup ''scores'' (node_registry u g) = Some 0" "group_at (node_registry u g) 0 = Some g"
  by (simp_all add: node_registry_def createGroup_def NewGroup_def GetGroup_def)

text \<open>All nodes agree on the owner of a key.\<close>

definition owner_of :: "cluster_setup \<Rightarrow> string \<Rightarrow> string" where
  "owner_of u k = ch_Get k (ch_Add (su_nodes u) (ch_New defaultReplicas None))"

lemma owner_agreed:
  assumes "setup_ok u"
  shows "ch_Get k (ch_Add (su_orders u a) (ch_New defaultReplicas None)) = owner_of u k"
  using ring_order_independent [of defaultReplicas None "su_nodes u" "su_orders u a" k] assms
  by (simp add: setup_ok_def owner_of_def)

lemma pick_owner:
  assumes "setup_ok u"
  shows "PickPeer (node_pool u a) k =
    Returns (if owner_of u k \<noteq> [] \<and> owner_of u k \<noteq> a then Some (Some (owner_of u k @ defaultBasePath)) else None)"
    and "owner_of u k \<noteq> [] \<Longrightarrow> owner_of u k \<in> set (su_nodes u)"
proof -
  show *: "owner_of u k \<in> set (su_nodes u)" if "owner_of u k \<noteq> []"
    using that pool_owner [of "su_nodes u" k] pool_owner_empty [of k]
    by (cases "su_nodes u = []") (auto simp: owner_of_def)
  have "set (su_orders u a) = set (su_nodes u)" using assms by (simp add: setup_ok_def)
  then show "PickPeer (node_pool u a) k =
    Returns (if owner_of u k \<noteq> [] \<and> owner_of u k \<noteq> a then Some (Some (owner_of u k @ defaultBasePath)) else None)"
    using * by (auto simp: PickPeer_def node_pool_def pool_Set_def Let_def httpGetters_fold NewHTTPPool_def
        owner_agreed [OF assms])
qed

lemma find_node:
  assumes "setup_ok u" and "b \<in> set (su_nodes u)"
  shows "find (\<lambda>b'. strings_HasPrefix (b @ ''/'' @ rest) (b' @ ''/'')) (su_nodes u) = Some b"
proof -
  let ?P = "\<lambda>b'. strings_HasPrefix (b @ ''/'' @ rest) (b' @ ''/'')"
  have P: "?P b" by (simp add: strings_HasPrefix_def)
  have unique: "\<And>a. a \<in> set (su_nodes u) \<Longrightarrow> ?P a \<Longrightarrow> a = b"
    using assms unfolding setup_ok_def by blast
  show ?thesis
  proof (cases "find ?P (su_nodes u)")
    case None
    with P assms(2) show ?thesis by (auto simp: find_None_iff)
  next
    case (Some c)
    then have "c \<in> set (su_nodes u)" "?P c" by (auto simp: find_Some_iff)
    with unique Some show ?thesis by simp
  qed
qed

text \<open>A request to the owner of a key is answered from the owner's database.\<close>

lemma network_owner:
  assumes "setup_ok u" and "\<And>b. data_ok (su_db u) (W b)" and "k \<noteq> []" and "CHR '' '' \<notin> set k"
    and "b = owner_of u k" and "b \<in> set (su_nodes u)"
  shows "\<exists>nd resp. network u (Suc hops) (request_url (b @ defaultBasePath) \<lparr>Group_name = ''scores'', Key = k\<rparr>) W =
      (Returns (Inr (reply_of resp)), W(b := nd)) \<and> data_ok (su_db u) nd \<and>
    (StatusCode resp = 200 \<longrightarrow> (\<exists>v. su_db u k = Some v \<and> su_unmarshal u (Body resp) = Inr \<lparr>Value = v\<rparr>))"
proof -
  define rest where "rest = ''geecache/scores/'' @ url_QueryEscape k"
  define path where "path = defaultBasePath @ ''scores'' @ ''/'' @ k"
  let ?g = "node_group u (network u hops) b (W b)"
  have url: "request_url (b @ defaultBasePath) \<lparr>Group_name = ''scores'', Key = k\<rparr> = b @ ''/'' @ rest"
    by (simp add: request_url_def rest_def defaultBasePath_def url_QueryEscape_def escape_char_def url_unreserved_def)
  have path: "url_PathUnescape (''/'' @ rest) = Some path"
    using request_path_plain [of "''scores''" k] assms(4)
    by (simp add: rest_def path_def defaultBasePath_def url_QueryEscape_def escape_char_def url_unreserved_def)
  have here: "PickPeer (node_pool u b) k = Returns None" using pick_owner(1) [OF assms(1), of b k] assms(5) by simp
  then have "fair_pick (su_db u) ?g k W W" by (simp add: fair_pick_def pool_picker_def)
  from Group_Get_db [OF node_group_db [OF assms(2)] _ assms(3) this] assms(2) [of b] obtain c where
    get: "Group_Get k (?g, W) = (Returns (db_result (su_db u) k), (?g\<lparr>mainCache := c\<rparr>, W))"
    "db_group (su_db u) (?g\<lparr>mainCache := c\<rparr>)" by (auto simp: data_ok_def)
  let ?r = "(node_registry u ?g)\<lparr>group_at := (group_at (node_registry u ?g))(0 \<mapsto> ?g\<lparr>mainCache := c\<rparr>)\<rparr>"
  let ?nd = "data_of (?g\<lparr>mainCache := c\<rparr>)"
  have ok: "data_ok (su_db u) ?nd"
    by (rule data_of_ok [OF get(2)]) (use assms(2) [of b] in \<open>simp add: data_ok_def\<close>)
  have looked_up: "at_group 0 (Group_Get k) (node_registry u ?g, W) = (Returns (db_result (su_db u) k), (?r, W))"
    using get(1) by (simp add: at_group_def)
  have serve: "\<exists>resp. ServeHTTP (su_marshal u) (node_pool u b) path (node_registry u ?g, W) = (Returns resp, (?r, W)) \<and>
      (StatusCode resp = 200 \<longrightarrow> (\<exists>v. su_db u k = Some v \<and> su_unmarshal u (Body resp) = Inr \<lparr>Value = v\<rparr>))"
  proof (cases "su_db u k")
    case None
    then show ?thesis
      unfolding path_def by (subst ServeHTTP_names [where a = 0])
        (simp_all add: looked_up db_result_def http_Error_def node_pool_def pool_Set_def NewHTTPPool_def)
  next
    case (Some v)
    obtain body where "su_marshal u \<lparr>Value = v\<rparr> = Inr body" "su_unmarshal u body = Inr \<lparr>Value = v\<rparr>"
      using assms(1) unfolding setup_ok_def by blast
    then show ?thesis
      unfolding path_def using Some by (subst ServeHTTP_names [where a = 0])
        (simp_all add: looked_up db_result_def node_pool_def pool_Set_def NewHTTPPool_def bv_ByteSlice_def)
  qed
  then obtain resp where resp: "ServeHTTP (su_marshal u) (node_pool u b) path (node_registry u ?g, W) = (Returns resp, (?r, W))"
    "StatusCode resp = 200 \<longrightarrow> (\<exists>v. su_db u k = Some v \<and> su_unmarshal u (Body resp) = Inr \<lparr>Value = v\<rparr>)" by blast
  have "network u (Suc hops) (b @ ''/'' @ rest) W = (Returns (Inr (reply_of resp)), W(b := ?nd))"
    unfolding network.simps(2) find_node [OF assms(1,6)] using path resp(1) by (simp add: Let_def del: url_PathUnescape.simps)
  with ok resp(2) show ?thesis unfolding url by blast
qed

text \<open>What the API should answer.\<close>

definition api_answer :: "(string \<Rightarrow> bytes option) \<Rightarrow> string \<Rightarrow> http_response" where
  "api_answer db k =
     (if k = [] then http_Error ''key is required'' 500
      else
        (case db k of
           None \<Rightarrow> http_Error (k @ '' not exist'') 500
         | Some v \<Rightarrow> \<lparr>StatusCode = 200, ContentType = ''application/octet-stream'', Body = v\<rparr>))"

lemma forwarded_pick:
  assumes "setup_ok u" and "\<And>b. data_ok (su_db u) (W b)" and "k \<noteq> []" and "CHR '' '' \<notin> set k"
  shows "\<exists>W'. fair_pick (su_db u) (node_group u (network u (Suc hops)) a (W a)) k W W' \<and>
    (\<forall>b. data_ok (su_db u) (W' b))"
proof (cases "owner_of u k \<noteq> [] \<and> owner_of u k \<noteq> a")
  case False
  then have "PickPeer (node_pool u a) k = Returns None" using pick_owner(1) [OF assms(1)] by auto
  with assms(2) show ?thesis by (intro exI [of _ W]) (simp add: fair_pick_def pool_picker_def)
next
  case True
  define b where "b = owner_of u k"
  have b: "b = owner_of u k" "b \<in> set (su_nodes u)" using True pick_owner(2) [OF assms(1)] by (simp_all add: b_def)
  from network_owner [where W = W, OF assms b, of hops] obtain nd resp where
    net: "network u (Suc hops) (request_url (b @ defaultBasePath) \<lparr>Group_name = ''scores'', Key = k\<rparr>) W =
      (Returns (Inr (reply_of resp)), W(b := nd))" and nd: "data_ok (su_db u) nd" and
    resp: "StatusCode resp = 200 \<longrightarrow> (\<exists>v. su_db u k = Some v \<and> su_unmarshal u (Body resp) = Inr \<lparr>Value = v\<rparr>)"
    by blast
  have "PickPeer (node_pool u a) k = Returns (Some (Some (b @ defaultBasePath)))"
    using pick_owner(1) [OF assms(1), of a k] True b(1) by simp
  then have "fair_pick (su_db u) (node_group u (network u (Suc hops)) a (W a)) k W (W(b := nd))"
    using httpGetter_reply [where http_Get = "network u (Suc hops)" and unmarshal = "su_unmarshal u", OF net] resp
    by (auto simp: fair_pick_def pool_picker_def simp del: network.simps split: if_splits)
  with nd assms(2) show ?thesis by (intro exI [of _ "W(b := nd)"]) simp
qed

lemma api_request_answer:
  assumes "setup_ok u" and "\<And>b. data_ok (su_db u) (W b)" and "CHR '' '' \<notin> set k"
  shows "\<exists>W'. api_request u (Suc hops) a k W = (Returns (api_answer (su_db u) k), W') \<and>
    (\<forall>b. data_ok (su_db u) (W' b))"
proof -
  define g where "g = node_group u (network u (Suc hops)) a (W a)"
  have g: "db_group (su_db u) g" "loader g = {}" "data_of g = W a"
    using node_group_db [OF assms(2)] assms(2) [of a] by (simp_all add: g_def data_ok_def data_of_def)
  show ?thesis
  proof (cases "k = []")
    case True
    then have "api_request u (Suc hops) a k W = (Returns (api_answer (su_db u) k), W(a := W a))"
      using g(3) by (simp add: api_request_def api_handler_def Group_Get_def api_answer_def flip: g_def)
    with assms(2) show ?thesis by auto
  next
    case False
    from forwarded_pick [where W = W, OF assms(1,2) False assms(3), of hops a] obtain W1 where
      W1: "fair_pick (su_db u) g k W W1" "\<forall>b. data_ok (su_db u) (W1 b)" unfolding g_def by blast
    from Group_Get_db [OF g(1,2) False W1(1)] obtain c W2 where
      get: "Group_Get k (g, W) = (Returns (db_result (su_db u) k), (g\<lparr>mainCache := c\<rparr>, W2))"
      "db_group (su_db u) (g\<lparr>mainCache := c\<rparr>)" "W2 \<in> {W, W1}" by blast
    have "api_request u (Suc hops) a k W = (Returns (api_answer (su_db u) k), W2(a := data_of (g\<lparr>mainCache := c\<rparr>)))"
      using get(1) False
      by (cases "su_db u k")
        (simp_all add: api_request_def api_handler_def api_answer_def db_result_def bv_ByteSlice_def flip: g_def)
    moreover have "data_ok (su_db u) (data_of (g\<lparr>mainCache := c\<rparr>))" by (rule data_of_ok [OF get(2)]) (simp add: g(2))
    moreover have "\<forall>b. data_ok (su_db u) (W2 b)" using get(3) W1(2) assms(2) by blast
    ultimately show ?thesis by simp
  qed
qed

text \<open>Requests to the API of any nodes, one after another, on nodes that have just started.\<close>

definition cluster_start :: "cluster_setup \<Rightarrow> cluster" where
  "cluster_start u = (\<lambda>_. data_of (new_group ''scores'' (push_bit 10 2) (db_getter (su_db u))))"

fun api_run :: "cluster_setup \<Rightarrow> nat \<Rightarrow> (string \<times> string) list \<Rightarrow> cluster \<Rightarrow> http_response outcome list" where
  "api_run u hops [] W = []"
| "api_run u hops ((a, k) # reqs) W =
     (let (out, W') = api_request u hops a k W in out # api_run u hops reqs W')"

lemma api_run_answers:
  assumes "setup_ok u" and "\<And>b. data_ok (su_db u) (W b)" and "\<forall>(a, k) \<in> set reqs. CHR '' '' \<notin> set k"
  shows "api_run u (Suc hops) reqs W = map (\<lambda>(a, k). Returns (api_answer (su_db u) k)) reqs"
  using assms(2,3)
proof (induction reqs arbitrary: W)
  case (Cons req reqs)
  obtain a k where req: "req = (a, k)" by (cases req)
  with Cons.prems(2) have "CHR '' '' \<notin> set k" by simp
  from api_request_answer [where W = W, OF assms(1) Cons.prems(1) this, of hops a] obtain W' where
    "api_request u (Suc hops) a k W = (Returns (api_answer (su_db u) k), W')" "\<forall>b. data_ok (su_db u) (W' b)"
    by blast
  with Cons.IH [of W'] Cons.prems(2) req show ?case by simp
qed simp

lemma cluster_start_ok: "data_ok (su_db u) (cluster_start u b)"
  by (simp add: cluster_start_def data_of_def data_ok_def new_group_def cache_inv_def cache_contents_def word_sle_eq push_bit_eq_mult)


text \<open>A node that forwards everything to another one.\<close>

definition two_nodes :: cluster_setup where
  "two_nodes =
     \<lparr>su_db = main_db, su_nodes = [''http://B''],
      su_orders = (\<lambda>_. [''http://B'']), su_marshal = (\<lambda>rs. Inr (Value rs)), su_unmarshal = (\<lambda>b. Inr \<lparr>Value = b\<rparr>)\<rparr>"


end
