(* ===== verification/Crc.thy ===== *)
theory Crc
  imports ConsistentHash
begin

text \<open>
  The checksum that places the nodes of \<open>GeeCache/main.go\<close> on the ring of the consistent hash.  CRC-32 is
  affine: the checksums of two texts of one length differ by a linear function of the difference of the
  texts.  With this the points of the addresses \<open>http://localhost:8001\<close> to \<open>8003\<close> are compared before the
  common part of the addresses, on the states behind the numbers of the replicas: 50 states and three
  differences that must not occur between them (\<open>last_char_gap\<close>).
\<close>

section \<open>CRC-32 as a linear map\<close>

text \<open>
  One step of the checksum is a linear and injective map on words, and so is a byte of it; two texts
  with the same ending collide only if the states before the ending differ by a fixed word.
\<close>

lemma crc32_bit_xor: "crc32_bit (a XOR b) = crc32_bit a XOR crc32_bit b"
  by (rule bit_word_eqI) (auto simp: crc32_bit_def bit_simps)

lemma crc32_bit_0: "crc32_bit c = 0 \<Longrightarrow> c = 0"
proof -
  assume z: "crc32_bit c = 0"
  have "\<not> bit c 0"
  proof
    assume "bit c 0"
    then have "drop_bit 1 c XOR 0xEDB88320 = 0" using z by (simp add: crc32_bit_def)
    then have "\<not> bit (drop_bit 1 c XOR 0xEDB88320) 31" by simp
    moreover have "bit (0xEDB88320 :: uint32) 31" by simp
    moreover have "\<not> bit (drop_bit 1 c) 31" by (auto simp: bit_simps dest: bit_imp_le_length)
    ultimately show False by (simp only: bit_xor_iff) simp
  qed
  then have z': "drop_bit 1 c = 0" using z by (simp add: crc32_bit_def)
  have "\<not> bit c n" for n
  proof (cases n)
    case (Suc m)
    have "bit c (Suc m) = bit (drop_bit 1 c) m" by (simp add: bit_drop_bit_eq)
    with Suc z' show ?thesis by simp
  qed (use \<open>\<not> bit c 0\<close> in simp)
  then show "c = 0" by (intro bit_word_eqI) simp
qed

definition crc_byte :: "uint32 \<Rightarrow> uint32" where
  "crc_byte = crc32_bit ^^ 8"

lemma crc_byte_xor: "crc_byte (a XOR b) = crc_byte a XOR crc_byte b"
proof -
  have "(crc32_bit ^^ n) (a XOR b) = (crc32_bit ^^ n) a XOR (crc32_bit ^^ n) b" for n
    by (induction n) (simp_all add: crc32_bit_xor)
  then show ?thesis by (simp add: crc_byte_def)
qed

lemma crc_byte_0: "crc_byte c = 0 \<Longrightarrow> c = 0"
proof -
  have "(crc32_bit ^^ n) c = 0 \<Longrightarrow> c = 0" for n
    by (induction n) (auto dest: crc32_bit_0)
  then show "crc_byte c = 0 \<Longrightarrow> c = 0" by (simp add: crc_byte_def)
qed

lemma crc_byte_inj: "crc_byte a = crc_byte b \<Longrightarrow> a = b"
  using crc_byte_0 [of "a XOR b"] by (simp add: crc_byte_xor) (metis xor_self_eq bit.xor_left_self xor.right_neutral)

definition crc_shift :: "string \<Rightarrow> uint32 \<Rightarrow> uint32" where
  "crc_shift s c = fold (\<lambda>_. crc_byte) s c"

lemma crc_fold_xor: "fold crc32_byte s (a XOR b) = fold crc32_byte s a XOR crc_shift s b"
proof (induction s arbitrary: a b)
  case (Cons x s)
  have "crc32_byte x (a XOR b) = crc32_byte x a XOR crc_byte b"
    unfolding crc32_byte_def crc_byte_def [symmetric] crc_byte_xor [symmetric] by (simp add: ac_simps)
  with Cons show ?case by (simp add: crc_shift_def)
qed (simp add: crc_shift_def)

lemma crc_shift_xor: "crc_shift s (a XOR b) = crc_shift s a XOR crc_shift s b"
  by (induction s arbitrary: a b) (simp_all add: crc_shift_def crc_byte_xor)

lemma crc_shift_0: "crc_shift s c = 0 \<Longrightarrow> c = 0"
  by (induction s arbitrary: c) (auto simp: crc_shift_def dest: crc_byte_0)

text \<open>
  The addresses of the program end differently by one character behind a common text; \<open>crc_gaps\<close> are the
  differences of states that this text turns into the differences of those characters.
\<close>

abbreviation addr_stem :: string where
  "addr_stem \<equiv> ''http://localhost:800''"

definition crc_gaps :: "uint32 list" where
  "crc_gaps = [0x254b3492, 0x4a966924, 0x6fdd5db6]"

lemma crc_byte_unfold:
  "crc_byte c = crc32_bit (crc32_bit (crc32_bit (crc32_bit (crc32_bit (crc32_bit (crc32_bit (crc32_bit c)))))))"
  by (simp add: crc_byte_def eval_nat_numeral)

lemma crc_gaps_shift: "map (crc_shift addr_stem) crc_gaps = [1, 2, 3]"
  by (simp add: crc_gaps_def crc_shift_def crc_byte_unfold crc32_bit_def)

text \<open>The states of the checksum behind the numbers of the replicas.\<close>

definition replica_states :: "uint32 list" where
  "replica_states = map (\<lambda>i. fold crc32_byte (strconv_Itoa i) (NOT 0)) [0..49]"

lemma replica_numbers:
  "map strconv_Itoa [0..49] =
     map (\<lambda>d. [d]) ''0123456789'' @ concat (map (\<lambda>e. map (\<lambda>d. [e, d]) ''0123456789'') ''1234'')"
  by code_simp

lemma replica_states_eq:
  "replica_states =
    [0x0b2420de, 0x7c231048, 0xe52a41f2, 0x922d7164, 0x0c49e4c7, 0x7b4ed451, 0xe24785eb, 0x9540b57d, 0x05ffa8ec, 0x72f8987a,
     0x5ea2da1e, 0x29a5ea88, 0xb0acbb32, 0xc7ab8ba4, 0x59cf1e07, 0x2ec82e91, 0xb7c17f2b, 0xc0c64fbd, 0x5079522c, 0x277e62ba,
     0x758f89dd, 0x0288b94b, 0x9b81e8f1, 0xec86d867, 0x72e24dc4, 0x05e57d52, 0x9cec2ce8, 0xebeb1c7e, 0x7b5401ef, 0x0c533179,
     0x6c94b89c, 0x1b93880a, 0x829ad9b0, 0xf59de926, 0x6bf97c85, 0x1cfe4c13, 0x85f71da9, 0xf2f02d3f, 0x624f30ae, 0x15480038,
     0x23d52e5b, 0x54d21ecd, 0xcddb4f77, 0xbadc7fe1, 0x24b8ea42, 0x53bfdad4, 0xcab68b6e, 0xbdb1bbf8, 0x2d0ea669, 0x5a0996ff]"
proof -
  have "replica_states = map (\<lambda>s. fold crc32_byte s (NOT 0)) (map strconv_Itoa [0..49])"
    by (simp add: replica_states_def)
  then show ?thesis
    unfolding replica_numbers by (simp add: crc32_byte_def crc_byte_def [symmetric] crc_byte_unfold crc32_bit_def)
qed

text \<open>No two states differ by a gap, so the points of different addresses are different.\<close>

lemma disjoint_words: "set (map uint xs) \<inter> set (map uint ys) = {} \<Longrightarrow> set xs \<inter> set ys = {}"
  by auto

lemma gap_1: "set (map (\<lambda>a. a XOR 0x254b3492) replica_states) \<inter> set replica_states = {}"
  by (rule disjoint_words) (simp add: replica_states_eq)

lemma gap_2: "set (map (\<lambda>a. a XOR 0x4a966924) replica_states) \<inter> set replica_states = {}"
  by (rule disjoint_words) (simp add: replica_states_eq)

lemma gap_3: "set (map (\<lambda>a. a XOR 0x6fdd5db6) replica_states) \<inter> set replica_states = {}"
  by (rule disjoint_words) (simp add: replica_states_eq)

lemmas gaps_apart = gap_1 gap_2 gap_3

lemma xor_move:
  fixes a b x y :: uint32
  shows "a XOR x = b XOR y \<Longrightarrow> a XOR b = x XOR y" and "a XOR b = x \<Longrightarrow> b = a XOR x"
    and "a XOR b = 0 \<Longrightarrow> a = b" and "a = b XOR (b XOR a)"
  by (auto simp: bit_eq_iff bit_xor_iff)

lemma no_gap:
  assumes "a \<in> set replica_states" and "b \<in> set replica_states" and "g \<in> set crc_gaps"
  shows "a XOR b \<noteq> g"
proof
  assume "a XOR b = g"
  then have "b = a XOR g" by (rule xor_move(2))
  then have "b \<in> set (map (\<lambda>a. a XOR g) replica_states)" using assms(1) by auto
  then have "set (map (\<lambda>a. a XOR g) replica_states) \<inter> set replica_states \<noteq> {}" using assms(2) by blast
  with assms(3) gaps_apart show False by (auto simp: crc_gaps_def simp del: set_map list.set_map)
qed

lemma last_char_gap:
  assumes "c \<in> set replica_states" and "c' \<in> set replica_states" and "x \<in> set ''123''" and "y \<in> set ''123''"
    and "fold crc32_byte (addr_stem @ [x]) c = fold crc32_byte (addr_stem @ [y]) c'"
  shows "x = y"
proof (rule ccontr)
  assume "x \<noteq> y"
  let ?f = "fold crc32_byte addr_stem"
  have "?f c XOR of_char x = ?f c' XOR of_char y"
    using assms(5) crc_byte_inj by (simp add: crc32_byte_def crc_byte_def [symmetric])
  then have "?f c XOR ?f c' = of_char x XOR of_char y" by (rule xor_move(1))
  moreover have "?f (c' XOR (c' XOR c)) = ?f c' XOR crc_shift addr_stem (c' XOR c)" by (rule crc_fold_xor)
  then have "?f c = ?f c' XOR crc_shift addr_stem (c' XOR c)" unfolding xor_move(4) [of c c', symmetric] .
  ultimately have d: "crc_shift addr_stem (c' XOR c) = of_char x XOR of_char y"
    by (metis xor_move(2) xor.commute)
  moreover have "of_char x XOR (of_char y :: uint32) \<in> set (map (crc_shift addr_stem) crc_gaps)"
    unfolding crc_gaps_shift using assms(3,4) \<open>x \<noteq> y\<close> by auto
  ultimately obtain g where g: "g \<in> set crc_gaps" "crc_shift addr_stem (c' XOR c) = crc_shift addr_stem g"
    by auto
  then have "crc_shift addr_stem ((c' XOR c) XOR g) = 0" by (simp add: crc_shift_xor)
  then have "(c' XOR c) XOR g = 0" by (rule crc_shift_0)
  then have "c' XOR c = g" by (rule xor_move(3))
  with no_gap [OF assms(2,1) g(1)] show False by simp
qed

end
