(* ===== verification/MainCluster.thy ===== *)
theory MainCluster
  imports Cluster Crc
begin

text \<open>
  The rest of the program \<^verbatim>\<open>GeeCache/main.go\<close>: its addresses, the API with its query, and the
  cluster that the three processes of the program form.  That their points on the ring of hashes do not
  collide is computed from the CRC-32 hash itself, in the theory \<^verbatim>\<open>Crc\<close>.
\<close>

unbundle bit_operations_syntax

section \<open>Addresses\<close>

definition protocol :: string where
  "protocol = ''http://''"

definition apiAddr :: string where
  "apiAddr = ''http://localhost:9999''"

definition addrMap :: "int \<Rightarrow> string option" where
  "addrMap = map_of [(8001, ''http://localhost:8001''), (8002, ''http://localhost:8002''), (8003, ''http://localhost:8003'')]"

text \<open>The address without the protocol; a slice behind the end of a string panics.\<close>

definition listen_addr :: "string \<Rightarrow> string outcome" where
  "listen_addr addr =
     (if length addr < length protocol then Panics ''slice bounds out of range''
      else Returns (drop (length protocol) addr))"

text \<open>What the process with a port listens at: a port that is not in the map gives the empty address.\<close>

definition main_listens :: "int \<Rightarrow> string outcome" where
  "main_listens port = listen_addr (case addrMap port of None \<Rightarrow> [] | Some addr \<Rightarrow> addr)"

definition main_addrs :: "string list" where
  "main_addrs = [''http://localhost:8001'', ''http://localhost:8002'', ''http://localhost:8003'']"

lemma unknown_port_panics: "port \<notin> {8001, 8002, 8003} \<Longrightarrow> main_listens port = Panics ''slice bounds out of range''"
  by (simp add: main_listens_def addrMap_def listen_addr_def protocol_def)

section \<open>The API\<close>

definition api_ServeHTTP :: "string \<Rightarrow> (http_response, 'w gstate) action" where
  "api_ServeHTTP uri = api_handler (values_Get ''key'' (url_ParseQuery (raw_query uri)))"

lemma api_key_read: "api_ServeHTTP (''/api?key='' @ url_QueryEscape k) = api_handler k"
proof -
  have "strings_SplitN2 (CHR ''?'') (''/api'' @ CHR ''?'' # ''key='' @ url_QueryEscape k) =
      [''/api'', ''key='' @ url_QueryEscape k]"
    by (rule SplitN2_append_sep) simp
  then have q: "raw_query (''/api?key='' @ url_QueryEscape k) = ''key='' @ url_QueryEscape k"
    by (simp add: raw_query_def)
  have key: "url_QueryEscape ''key'' = ''key''" by code_simp
  then have "query_pair (''key='' @ url_QueryEscape k) = Some (''key'', k)"
    using query_pair_escaped [of "''key''" k] by simp
  moreover have "CHR ''&'' \<notin> set (''key='' @ url_QueryEscape k)"
    using QueryEscape_safe [of "CHR ''&''" k] by (simp add: separators_def)
  ultimately have "url_ParseQuery (raw_query (''/api?key='' @ url_QueryEscape k)) = [(''key'', k)]"
    unfolding q url_ParseQuery_def by (simp add: Split_no_sep map_filter_def)
  then show ?thesis unfolding api_ServeHTTP_def by (simp add: values_Get_def)
qed

section \<open>The cluster of the program\<close>

definition main_setup ::
  "(string \<Rightarrow> string list) \<Rightarrow> (Response \<Rightarrow> error + bytes) \<Rightarrow> (bytes \<Rightarrow> error + Response) \<Rightarrow> cluster_setup" where
  "main_setup orders marshal unmarshal =
     \<lparr>su_db = main_db, su_nodes = main_addrs, su_orders = orders, su_marshal = marshal, su_unmarshal = unmarshal\<rparr>"

text \<open>
  The API registers its handler with the default HTTP server, whose patterns that have a handler are
  \<open>mux\<close>, and listens at its address.
\<close>

definition startAPIServer :: "string \<Rightarrow> (string, string set) action" where
  "startAPIServer addr mux =
     (if ''/api'' \<in> mux then (Panics ''http: multiple registrations for /api'', mux)
      else and_then (listen_addr addr, insert ''/api'' mux) (\<lambda>l mux1. (Returns l, mux1)))"

text \<open>
  The function \<^verbatim>\<open>main\<close>, from the values of its two flags and the order in which it took the addresses
  from its map to the addresses where the process listens: the API first, when the flag asks for it.
\<close>

definition cache_main ::
  "(string \<Rightarrow> (error + http_reply, 'w) action) \<Rightarrow> (bytes \<Rightarrow> error + Response) \<Rightarrow> int \<Rightarrow> bool \<Rightarrow> string list \<Rightarrow>
   (string list, 'w registry) action"
where
  "cache_main http_Get unmarshal port api addrs r =
     and_then (createGroup main_db r) (\<lambda>gee r1.
       case group_at r1 gee of
         None \<Rightarrow> (Panics ''nil pointer dereference'', r1)
       | Some g \<Rightarrow>
           (let addr = (case addrMap port of None \<Rightarrow> [] | Some a \<Rightarrow> a);
                (out, g') = startCacheServer http_Get unmarshal addr addrs g
            in and_then (out, r1\<lparr>group_at := (group_at r1)(gee \<mapsto> g')\<rparr>) (\<lambda>peers r2.
                 and_then (if api then fst (startAPIServer apiAddr {}) else Returns [], r2) (\<lambda>api_addr r3.
                 and_then (main_listens port, r3) (\<lambda>cache_addr r4.
                   (Returns ((if api then [api_addr] else []) @ [cache_addr]), r4))))))"

text \<open>A process with one of the three ports starts as a node of the cluster.\<close>

lemma main_starts_node:
  assumes "addrMap port = Some addr" and "http_Get = network (main_setup orders marshal unmarshal) hops"
  shows "cache_main http_Get unmarshal port api (orders addr)
      \<lparr>groups = Map.empty, group_at = Map.empty, next_ref = 0\<rparr> =
    (Returns ((if api then [''localhost:9999''] else []) @ [drop 7 addr]),
     node_registry (main_setup orders marshal unmarshal)
       (node_group (main_setup orders marshal unmarshal) http_Get addr
         (cluster_start (main_setup orders marshal unmarshal) addr)))"
proof -
  have addr: "addr \<in> {''http://localhost:8001'', ''http://localhost:8002'', ''http://localhost:8003''}"
    using assms(1) by (auto simp: addrMap_def split: if_splits)
  have listens: "main_listens port = Returns (drop 7 addr)"
    using assms(1) addr by (auto simp: main_listens_def listen_addr_def protocol_def)
  have api: "fst (startAPIServer apiAddr {}) = Returns ''localhost:9999''"
    by (simp add: startAPIServer_def listen_addr_def apiAddr_def protocol_def)
  show ?thesis
    using assms
    by (simp add: cache_main_def createGroup_def NewGroup_def startCacheServer_def RegisterPeers_def new_group_def
        node_registry_def node_group_def cluster_start_def data_of_def main_setup_def listens api Let_def)
qed

text \<open>With any other port, the process ends with a panic, before it listens for the cache.\<close>

lemma main_unknown_port:
  assumes "port \<notin> {8001, 8002, 8003}"
  shows "fst (cache_main http_Get unmarshal port api addrs \<lparr>groups = Map.empty, group_at = Map.empty, next_ref = 0\<rparr>) =
    Panics ''slice bounds out of range''"
proof -
  have "addrMap port = None" using assms by (simp add: addrMap_def)
  then show ?thesis
    by (simp add: cache_main_def createGroup_def NewGroup_def startCacheServer_def RegisterPeers_def new_group_def
        startAPIServer_def listen_addr_def apiAddr_def protocol_def unknown_port_panics [OF assms] Let_def)
qed

lemma main_addrs_stem: "a \<in> set main_addrs \<longleftrightarrow> (\<exists>x \<in> set ''123''. a = addr_stem @ [x])"
  by (auto simp: main_addrs_def)

lemma main_collision_free: "collision_free (ch_New defaultReplicas None) main_addrs"
proof -
  have "k = k'"
    if k: "k \<in> set main_addrs" "k' \<in> set main_addrs" and i: "i \<in> {0..49}" "j \<in> {0..49}"
      and eq: "ring_point (ch_New defaultReplicas None) k i = ring_point (ch_New defaultReplicas None) k' j" for k k' i j
  proof -
    obtain x y where x: "k = addr_stem @ [x]" "x \<in> set ''123''" and y: "k' = addr_stem @ [y]" "y \<in> set ''123''"
      using k by (auto simp: main_addrs_stem simp del: list.set)
    let ?c = "\<lambda>i. fold crc32_byte (strconv_Itoa i) (NOT 0)"
    have "crc32_ChecksumIEEE (strconv_Itoa i @ k) = crc32_ChecksumIEEE (strconv_Itoa j @ k')"
      using eq by (simp add: ring_point_def ch_New_def word_uint_eq_iff)
    then have "fold crc32_byte k (?c i) = fold crc32_byte k' (?c j)"
      unfolding crc32_ChecksumIEEE_def by (simp only: fold_append comp_apply bit.compl_eq_compl_iff)
    moreover have "?c i \<in> set replica_states" "?c j \<in> set replica_states" using i by (auto simp: replica_states_def)
    ultimately show "k = k'" using last_char_gap [of "?c i" "?c j" x y] x y by simp
  qed
  then show ?thesis by (simp add: collision_free_def ch_New_def defaultReplicas_def)
qed

lemma main_setup_ok:
  assumes "\<forall>a. set (orders a) = set main_addrs" and "\<forall>rs. \<exists>body. marshal rs = Inr body \<and> unmarshal body = Inr rs"
  shows "setup_ok (main_setup orders marshal unmarshal)"
proof -
  have "a = b" if "a \<in> set main_addrs" "b \<in> set main_addrs" "strings_HasPrefix (b @ ''/'' @ rest) (a @ ''/'')" for a b rest
    using that by (auto simp: main_addrs_def strings_HasPrefix_def)
  with assms main_collision_free show ?thesis by (simp add: setup_ok_def main_setup_def)
qed



end
