(* ===== verification/Trie.thy ===== *)
theory Trie
  imports Prelude
begin

text \<open>
  Package \<^verbatim>\<open>gee\<close>, \<^verbatim>\<open>trie.go\<close>: the tree of route patterns.  The nodes form a tree without
  sharing, so a node is a value; the pointer that \<^verbatim>\<open>matchChild\<close> returns is the index of the
  child that the caller goes on to change in place.  The pair \<^verbatim>\<open>(parts, depth)\<close> of the code is
  the list of the parts from that depth on.
\<close>

section \<open>Nodes and operations\<close>

datatype trieNode =
  trieNode (n_pattern: string) (n_part: string) (n_children: "trieNode list") (n_isWild: bool)

definition child_matches :: "string \<Rightarrow> trieNode \<Rightarrow> bool" where
  "child_matches part child \<longleftrightarrow> n_part child = part \<or> n_isWild child"

fun matchChild :: "string \<Rightarrow> trieNode list \<Rightarrow> nat option" where
  "matchChild part [] = None"
| "matchChild part (child # cs) =
     (if child_matches part child then Some 0 else map_option Suc (matchChild part cs))"

definition matchChildren :: "string \<Rightarrow> trieNode \<Rightarrow> trieNode list" where
  "matchChildren part n = filter (child_matches part) (n_children n)"

text \<open>The new child that an insertion makes for a part; the first byte decides if it is wild.\<close>

definition wild_part :: "string \<Rightarrow> bool" where
  "wild_part part \<longleftrightarrow> part \<noteq> [] \<and> (hd part = CHR '':'' \<or> hd part = CHR ''*'')"

definition new_child :: "string \<Rightarrow> trieNode" where
  "new_child part = trieNode [] part [] (wild_part part)"

definition set_pattern :: "string \<Rightarrow> trieNode \<Rightarrow> trieNode" where
  "set_pattern pat n = trieNode pat (n_part n) (n_children n) (n_isWild n)"

definition set_children :: "trieNode list \<Rightarrow> trieNode \<Rightarrow> trieNode" where
  "set_children cs n = trieNode (n_pattern n) (n_part n) cs (n_isWild n)"

text \<open>
  Insertion; \<^term>\<open>None\<close> is the panic of reading the first byte of an empty part.
\<close>

primrec trie_insert :: "string list \<Rightarrow> string \<Rightarrow> trieNode \<Rightarrow> trieNode option" where
  "trie_insert [] pattern n = Some (set_pattern pattern n)"
| "trie_insert (part # parts) pattern n =
     (case matchChild part (n_children n) of
        Some i \<Rightarrow>
          map_option (\<lambda>child. set_children ((n_children n)[i := child]) n)
            (trie_insert parts pattern (n_children n ! i))
      | None \<Rightarrow>
          if part = [] then None
          else map_option (\<lambda>child. set_children (n_children n @ [child]) n)
                 (trie_insert parts pattern (new_child part)))"

text \<open>The loop of \<^verbatim>\<open>search\<close> over the matching children: the first result that is not nil.\<close>

primrec first_some :: "('a \<Rightarrow> 'b option) \<Rightarrow> 'a list \<Rightarrow> 'b option" where
  "first_some f [] = None"
| "first_some f (x # xs) = (case f x of Some y \<Rightarrow> Some y | None \<Rightarrow> first_some f xs)"

primrec trie_search :: "string list \<Rightarrow> trieNode \<Rightarrow> trieNode option" where
  "trie_search [] n = (if n_pattern n = [] then None else Some n)"
| "trie_search (part # parts) n =
     (if strings_HasPrefix (n_part n) ''*'' then (if n_pattern n = [] then None else Some n)
      else first_some (trie_search parts) (matchChildren part n))"

section \<open>Well-formed tries\<close>

lemma node_sel [simp]:
  "n_pattern (set_pattern p n) = p" "n_part (set_pattern p n) = n_part n"
  "n_children (set_pattern p n) = n_children n" "n_isWild (set_pattern p n) = n_isWild n"
  "n_pattern (set_children cs n) = n_pattern n" "n_part (set_children cs n) = n_part n"
  "n_children (set_children cs n) = cs" "n_isWild (set_children cs n) = n_isWild n"
  "n_pattern (new_child q) = []" "n_part (new_child q) = q"
  "n_children (new_child q) = []" "n_isWild (new_child q) = wild_part q"
  by (simp_all add: set_pattern_def set_children_def new_child_def)

definition star_part :: "string \<Rightarrow> bool" where
  "star_part part \<longleftrightarrow> strings_HasPrefix part ''*''"

lemma star_wild: "star_part q \<Longrightarrow> wild_part q"
  by (simp add: star_part_def wild_part_def)

lemma star_part_Nil [simp]: "\<not> star_part []"
  by (simp add: star_part_def)

text \<open>
  Below the root, the flag \<^verbatim>\<open>isWild\<close> says what the part says, a catch-all node has a pattern,
  and every node lies above one that has a pattern.
\<close>

fun has_pattern :: "trieNode \<Rightarrow> bool" where
  "has_pattern (trieNode pat part cs w) \<longleftrightarrow> pat \<noteq> [] \<or> (\<exists>c \<in> set cs. has_pattern c)"

fun trie_wf :: "trieNode \<Rightarrow> bool" where
  "trie_wf (trieNode pat part cs w) \<longleftrightarrow>
     (\<forall>c \<in> set cs. trie_wf c \<and> n_isWild c = wild_part (n_part c) \<and>
        (star_part (n_part c) \<longrightarrow> n_pattern c \<noteq> []) \<and> has_pattern c)"

lemma trie_wfI:
  "(\<And>c. c \<in> set (n_children n) \<Longrightarrow> trie_wf c \<and> n_isWild c = wild_part (n_part c) \<and>
      (star_part (n_part c) \<longrightarrow> n_pattern c \<noteq> []) \<and> has_pattern c) \<Longrightarrow> trie_wf n"
  by (cases n) auto

lemma new_child_wf: "trie_wf (new_child part)"
  by (rule trie_wfI) simp

lemma trie_wfD:
  assumes "trie_wf n" and "c \<in> set (n_children n)"
  shows "trie_wf c" and "n_isWild c = wild_part (n_part c)"
    and "star_part (n_part c) \<Longrightarrow> n_pattern c \<noteq> []" and "has_pattern c"
  using assms by (cases n; auto)+

lemma has_pattern_iff: "has_pattern n \<longleftrightarrow> n_pattern n \<noteq> [] \<or> (\<exists>c \<in> set (n_children n). has_pattern c)"
  by (cases n) auto

lemma first_some_None: "first_some f xs = None \<longleftrightarrow> (\<forall>x \<in> set xs. f x = None)"
  by (induction xs) (auto split: option.split)

lemma first_some_Some: "first_some f xs = Some y \<Longrightarrow> \<exists>x \<in> set xs. f x = Some y"
  by (induction xs) (auto split: option.splits)

lemma matchChild_Some:
  "matchChild part cs = Some i \<Longrightarrow> i < length cs \<and> child_matches part (cs ! i)"
  by (induction part cs arbitrary: i rule: matchChild.induct) (auto split: if_splits)

lemma matchChild_None:
  "matchChild part cs = None \<longleftrightarrow> (\<forall>c \<in> set cs. \<not> child_matches part c)"
  by (induction part cs rule: matchChild.induct) auto

text \<open>
  The two ways on for a part: one child replaced by the one that the rest is inserted into, or
  a new child at the end.
\<close>

lemma trie_insert_Cons:
  assumes "trie_insert (part # parts) pat n = Some n'"
  obtains (found) i c where "i < length (n_children n)" and "child_matches part (n_children n ! i)"
      and "trie_insert parts pat (n_children n ! i) = Some c"
      and "n' = set_children ((n_children n)[i := c]) n"
    | (added) c where "part \<noteq> []" and "\<forall>c \<in> set (n_children n). \<not> child_matches part c"
      and "trie_insert parts pat (new_child part) = Some c"
      and "n' = set_children (n_children n @ [c]) n"
  using assms by (auto split: option.splits if_splits dest: matchChild_Some simp: matchChild_None)

lemma trie_insert_frame:
  "trie_insert parts pat n = Some n' \<Longrightarrow> n_part n' = n_part n \<and> n_isWild n' = n_isWild n \<and>
     (n_pattern n' = n_pattern n \<or> n_pattern n' = pat)"
  by (cases parts) (auto split: option.splits if_splits)

lemma trie_insert_total:
  "\<forall>part \<in> set parts. part \<noteq> [] \<Longrightarrow> \<exists>n'. trie_insert parts pat n = Some n'"
proof (induction parts arbitrary: n)
  case (Cons part parts)
  then show ?case by (fastforce split: option.split)
qed simp

text \<open>Only the last part of a route is a catch-all.\<close>

fun star_last :: "string list \<Rightarrow> bool" where
  "star_last [] \<longleftrightarrow> True"
| "star_last (part # parts) \<longleftrightarrow> (star_part part \<longrightarrow> parts = []) \<and> star_last parts"

lemma set_update_child:
  "i < length cs \<Longrightarrow> c \<in> set (cs[i := c']) \<Longrightarrow> c = c' \<or> c \<in> set cs"
  using set_update_subset_insert by fastforce

lemma insert_has_pattern:
  "trie_insert parts pat n = Some n' \<Longrightarrow> pat \<noteq> [] \<Longrightarrow> has_pattern n'"
proof (induction parts arbitrary: n n')
  case Nil
  then show ?case by (auto simp: has_pattern_iff [of n'])
next
  case (Cons part parts)
  from Cons.prems(1) show ?case
  proof (cases rule: trie_insert_Cons)
    case (found i c)
    with Cons have "has_pattern c" "c \<in> set (n_children n')" by (auto simp: set_update_memI)
    then show ?thesis using has_pattern_iff by blast
  next
    case (added c)
    then have "has_pattern c" "c \<in> set (n_children n')" using Cons by auto
    then show ?thesis using has_pattern_iff by blast
  qed
qed

lemma insert_wf:
  "trie_insert parts pat n = Some n' \<Longrightarrow> trie_wf n \<Longrightarrow> pat \<noteq> [] \<Longrightarrow> star_last parts \<Longrightarrow> trie_wf n'"
proof (induction parts arbitrary: n n')
  case Nil
  then show ?case by (cases n) (auto simp: set_pattern_def)
next
  case (Cons part parts)
  have sl: "star_last parts" using Cons.prems(4) by simp
  from Cons.prems(1) show ?case
  proof (cases rule: trie_insert_Cons)
    case (found i c)
    let ?c = "n_children n ! i"
    have c: "?c \<in> set (n_children n)" using found(1) by simp
    note wf = trie_wfD [OF Cons.prems(2) c]
    have "trie_wf c" by (rule Cons.IH [OF found(3) wf(1) Cons.prems(3) sl])
    moreover note trie_insert_frame [OF found(3)]
    moreover have "has_pattern c" by (rule insert_has_pattern [OF found(3) Cons.prems(3)])
    ultimately have "trie_wf c \<and> n_isWild c = wild_part (n_part c) \<and>
        (star_part (n_part c) \<longrightarrow> n_pattern c \<noteq> []) \<and> has_pattern c"
      using wf(2,3) Cons.prems(3) by auto
    note new = this
    show ?thesis
    proof (rule trie_wfI)
      fix d assume "d \<in> set (n_children n')"
      then consider "d = c" | "d \<in> set (n_children n)"
        using set_update_child [OF found(1)] found(4) by auto
      then show "trie_wf d \<and> n_isWild d = wild_part (n_part d) \<and>
          (star_part (n_part d) \<longrightarrow> n_pattern d \<noteq> []) \<and> has_pattern d"
        by cases (use new trie_wfD [OF Cons.prems(2)] in blast)+
    qed
  next
    case (added c)
    have "trie_wf c" by (rule Cons.IH [OF added(3) _ Cons.prems(3) sl]) (rule trie_wfI, simp)
    moreover note trie_insert_frame [OF added(3)]
    moreover have "has_pattern c" by (rule insert_has_pattern [OF added(3) Cons.prems(3)])
    moreover have "star_part part \<Longrightarrow> n_pattern c \<noteq> []" using added(3) Cons.prems(3,4) by auto
    ultimately show ?thesis
      using added(4) trie_wfD [OF Cons.prems(2)] by (intro trie_wfI) auto
  qed
qed

section \<open>The routes in a trie\<close>

text \<open>
  The routes of a trie in the order in which a search meets them: each node with a pattern,
  with the parts on the way to it.
\<close>

fun entries :: "trieNode \<Rightarrow> (string list \<times> string) list" where
  "entries (trieNode pat part cs w) =
     (if pat = [] then [] else [([], pat)]) @
     concat (map (\<lambda>c. map (\<lambda>(ls, p). (n_part c # ls, p)) (entries c)) cs)"

text \<open>
  What it means that a route matches the parts of a path: a static part matches itself, a part
  with a colon matches any one part, a catch-all at the end matches all the rest, at least one.
\<close>

fun route_matches :: "string list \<Rightarrow> string list \<Rightarrow> bool" where
  "route_matches [] [] \<longleftrightarrow> True"
| "route_matches (l # ls) (p # ps) \<longleftrightarrow>
     (if star_part l then ls = [] else (l = p \<or> wild_part l) \<and> route_matches ls ps)"
| "route_matches _ _ \<longleftrightarrow> False"

lemma entries_unfold:
  "entries n = (if n_pattern n = [] then [] else [([], n_pattern n)]) @
     concat (map (\<lambda>c. map (\<lambda>(ls, p). (n_part c # ls, p)) (entries c)) (n_children n))"
  by (cases n) simp

lemma entries_iff:
  "(ls, p) \<in> set (entries n) \<longleftrightarrow>
     (ls = [] \<and> p = n_pattern n \<and> p \<noteq> []) \<or>
     (\<exists>c ls'. c \<in> set (n_children n) \<and> ls = n_part c # ls' \<and> (ls', p) \<in> set (entries c))"
  by (subst entries_unfold) force

lemma entries_Cons: "(l # ls, p) \<in> set (entries n) \<longleftrightarrow>
    (\<exists>c \<in> set (n_children n). n_part c = l \<and> (ls, p) \<in> set (entries c))"
  by (subst entries_iff) auto

lemma entries_Nil: "([], p) \<in> set (entries n) \<longleftrightarrow> p = n_pattern n \<and> p \<noteq> []"
  by (subst entries_iff) auto

lemma entries_new_child [simp]: "entries (new_child part) = []"
  by (subst entries_unfold) simp

lemma has_pattern_entries: "has_pattern n \<longleftrightarrow> entries n \<noteq> []"
  by (induction n rule: has_pattern.induct) auto

lemma find_map: "find P (map f xs) = map_option f (find (P \<circ> f) xs)"
  by (induction xs) auto

lemma find_nothing: "(\<And>x. x \<in> set xs \<Longrightarrow> \<not> P x) \<Longrightarrow> find P xs = None"
  by (simp add: find_None_iff)

text \<open>The search of a catch-all node stops there.\<close>

lemma search_star:
  "star_part (n_part n) \<Longrightarrow> trie_search ps n = (if n_pattern n = [] then None else Some n)"
  by (cases ps) (simp_all add: star_part_def)

text \<open>
  The backtracking search against the list of routes: it finds the first route that matches.
\<close>

definition first_match :: "string list \<Rightarrow> (string list \<times> string) list \<Rightarrow> string option" where
  "first_match ps es = map_option snd (find (\<lambda>(ls, p). route_matches ls ps) es)"

lemma first_match_append:
  "first_match ps (xs @ ys) = (case first_match ps xs of Some p \<Rightarrow> Some p | None \<Rightarrow> first_match ps ys)"
  by (auto simp: first_match_def find_append split: option.split)

lemma first_match_child:
  assumes "n_isWild c = wild_part (n_part c)"
    and "\<not> star_part (n_part c) \<Longrightarrow> map_option n_pattern (trie_search ps c) = first_match ps (entries c)"
  shows "first_match (q # ps) (map (\<lambda>(ls, p). (n_part c # ls, p)) (entries c)) =
    (if child_matches q c then map_option n_pattern (trie_search ps c) else None)"
proof (cases "star_part (n_part c)")
  case True
  then have "(\<lambda>(ls, p :: string). route_matches ls (q # ps)) \<circ> (\<lambda>(ls, p). (n_part c # ls, p)) =
      (\<lambda>(ls, p). ls = [])"
    by (auto simp: fun_eq_iff)
  moreover have "find (\<lambda>(ls, p). ls = []) (entries c) =
      (if n_pattern c = [] then None else Some ([], n_pattern c))"
    by (subst entries_unfold) (auto simp: find_None_iff)
  ultimately show ?thesis
    using True assms(1) star_wild [OF True]
    by (simp add: first_match_def find_map search_star child_matches_def)
next
  case False
  have "((\<lambda>(ls, p :: string). route_matches ls (q # ps)) \<circ> (\<lambda>(ls, p). (n_part c # ls, p))) =
      (\<lambda>(ls, p). child_matches q c \<and> route_matches ls ps)"
    using False assms(1) by (auto simp: fun_eq_iff child_matches_def)
  then show ?thesis
    using assms(2) [OF False]
    by (auto simp: first_match_def find_map find_nothing option.map_comp comp_def case_prod_unfold)
qed

lemma first_match_children:
  assumes "\<And>c. c \<in> set cs \<Longrightarrow> n_isWild c = wild_part (n_part c)"
    and "\<And>c. c \<in> set cs \<Longrightarrow> \<not> star_part (n_part c) \<Longrightarrow>
      map_option n_pattern (trie_search ps c) = first_match ps (entries c)"
  shows "first_match (q # ps) (concat (map (\<lambda>c. map (\<lambda>(ls, p). (n_part c # ls, p)) (entries c)) cs)) =
    map_option n_pattern (first_some (trie_search ps) (filter (child_matches q) cs))"
  using assms
proof (induction cs)
  case (Cons c cs)
  have "first_match (q # ps) (map (\<lambda>(ls, p). (n_part c # ls, p)) (entries c)) =
      (if child_matches q c then map_option n_pattern (trie_search ps c) else None)"
    by (rule first_match_child) (use Cons.prems in auto)
  with Cons show ?case by (auto simp: first_match_append split: option.split)
qed (simp add: first_match_def)

lemma search_first_match:
  "trie_wf n \<Longrightarrow> \<not> star_part (n_part n) \<Longrightarrow>
   map_option n_pattern (trie_search ps n) = first_match ps (entries n)"
proof (induction ps arbitrary: n)
  case Nil
  have "\<not> route_matches ls []" if "ls \<noteq> []" for ls using that by (cases ls) auto
  then show ?case
    by (subst entries_unfold) (auto simp: first_match_def find_None_iff)
next
  case (Cons q ps)
  let ?below = "concat (map (\<lambda>c. map (\<lambda>(ls, p). (n_part c # ls, p)) (entries c)) (n_children n))"
  have "first_match (q # ps) (entries n) = first_match (q # ps) ?below"
    unfolding entries_unfold [of n] first_match_append by (simp add: first_match_def)
  also have "\<dots> = map_option n_pattern
      (first_some (trie_search ps) (filter (child_matches q) (n_children n)))"
    by (rule first_match_children) (use Cons.IH trie_wfD [OF Cons.prems(1)] in auto)
  finally have "first_match (q # ps) (entries n) = map_option n_pattern
      (first_some (trie_search ps) (filter (child_matches q) (n_children n)))" .
  with Cons.prems(2) show ?case by (auto simp: matchChildren_def star_part_def)
qed

lemma first_match_Some:
  "first_match ps es = Some p \<Longrightarrow> \<exists>ls. (ls, p) \<in> set es \<and> route_matches ls ps"
  by (auto simp: first_match_def find_Some_iff) (metis nth_mem)

lemma first_match_None:
  "first_match ps es = None \<longleftrightarrow> (\<forall>(ls, p) \<in> set es. \<not> route_matches ls ps)"
  by (auto simp: first_match_def find_None_iff)

lemma route_matches_length: "route_matches ls ps \<Longrightarrow> length ls \<le> length ps"
  by (induction ls ps rule: route_matches.induct) (auto split: if_splits)

section \<open>What an insertion does to the routes\<close>

text \<open>
  A route may be stored below wild nodes that were there before: the parts on the way to it are
  then more general than its own.
\<close>

definition generalises :: "string list \<Rightarrow> string list \<Rightarrow> bool" where
  "generalises ls parts \<longleftrightarrow> list_all2 (\<lambda>l q. l = q \<or> wild_part l) ls parts"

lemma insert_entries:
  "trie_insert parts pat n = Some n' \<Longrightarrow> trie_wf n \<Longrightarrow> (ls, p) \<in> set (entries n') \<Longrightarrow>
   (ls, p) \<in> set (entries n) \<or> (p = pat \<and> generalises ls parts)"
proof (induction parts arbitrary: n n' ls)
  case Nil
  then show ?case
    by (cases ls) (auto simp: entries_Nil entries_Cons generalises_def)
next
  case (Cons part parts)
  from Cons.prems(1) show ?case
  proof (cases rule: trie_insert_Cons)
    case (found i c)
    let ?c = "n_children n ! i"
    have c: "?c \<in> set (n_children n)" using found(1) by simp
    note wf = trie_wfD [OF Cons.prems(2) c]
    have step: "(ls', p) \<in> set (entries ?c) \<or> (p = pat \<and> generalises ls' parts)"
      if "(ls', p) \<in> set (entries c)" for ls'
      by (rule Cons.IH [OF found(3) wf(1) that])
    have l: "n_part c = n_part ?c" "n_part ?c = part \<or> wild_part (n_part ?c)"
      using trie_insert_frame [OF found(3)] found(2) wf(2) by (auto simp: child_matches_def)
    show ?thesis
    proof (cases ls)
      case Nil
      with Cons.prems(3) found(4) have "(ls, p) \<in> set (entries n)" by (auto simp: entries_Nil)
      then show ?thesis by simp
    next
      case (Cons l ls')
      then obtain d where d: "d \<in> set ((n_children n)[i := c])" "n_part d = l" "(ls', p) \<in> set (entries d)"
        using Cons.prems(3) found(4) by (auto simp: entries_Cons)
      consider "d = c" | "d \<in> set (n_children n)" using set_update_child [OF found(1) d(1)] by blast
      then show ?thesis
      proof cases
        case 1
        with d step [of ls'] l c Cons show ?thesis by (auto simp: entries_Cons generalises_def)
      next
        case 2
        with d Cons have "(ls, p) \<in> set (entries n)" by (auto simp: entries_Cons)
        then show ?thesis by simp
      qed
    qed
  next
    case (added c)
    have "(ls', p) \<in> set (entries c) \<Longrightarrow> p = pat \<and> generalises ls' parts" for ls'
      using Cons.IH [OF added(3) new_child_wf, of ls'] by simp
    with Cons.prems(3) added(4) trie_insert_frame [OF added(3)] show ?thesis
      by (cases ls) (auto simp: entries_Nil entries_Cons generalises_def)
  qed
qed

text \<open>An insertion loses no path: what was found before is still found, perhaps as another route.\<close>

lemma first_some_not_None: "first_some f xs \<noteq> None \<longleftrightarrow> (\<exists>x \<in> set xs. f x \<noteq> None)"
  by (simp add: first_some_None)

lemma insert_keeps_found:
  "trie_insert parts pat n = Some n' \<Longrightarrow> pat \<noteq> [] \<Longrightarrow> trie_search ps n \<noteq> None \<Longrightarrow>
   trie_search ps n' \<noteq> None"
proof (induction parts arbitrary: n n' ps)
  case Nil
  then show ?case by (cases ps) (auto simp: matchChildren_def)
next
  case (Cons part parts)
  show ?case
  proof (cases ps)
    case Nil
    with Cons.prems show ?thesis by (auto split: option.splits if_splits)
  next
    case (Cons q qs)
    note ps = this
    have frame: "n_part n' = n_part n" "n_pattern n' = n_pattern n"
      using Cons.prems(1) by (auto split: option.splits if_splits)
    show ?thesis
    proof (cases "strings_HasPrefix (n_part n) ''*''")
      case False
      then have "first_some (trie_search qs) (matchChildren q n) \<noteq> None"
        using Cons.prems(3) ps by (auto split: if_splits)
      then obtain d where d: "d \<in> set (n_children n)" "child_matches q d" "trie_search qs d \<noteq> None"
        unfolding first_some_not_None matchChildren_def by auto
      have "\<exists>d' \<in> set (n_children n'). child_matches q d' \<and> trie_search qs d' \<noteq> None"
        using Cons.prems(1)
      proof (cases rule: trie_insert_Cons)
        case (found i c)
        show ?thesis
        proof (cases "d = n_children n ! i")
          case True
          with d found trie_insert_frame [OF found(3)] Cons.IH [OF found(3) Cons.prems(2), of qs]
          have "child_matches q c" "trie_search qs c \<noteq> None" by (auto simp: child_matches_def)
          moreover have "c \<in> set (n_children n')" using found(1,4) by (simp add: set_update_memI)
          ultimately show ?thesis by blast
        next
          case False
          with d(1) obtain j where "j < length (n_children n)" "d = n_children n ! j" "j \<noteq> i"
            by (metis in_set_conv_nth)
          then have "d \<in> set (n_children n')"
            using found(4) by (auto simp: in_set_conv_nth intro!: exI [of _ j])
          with d show ?thesis by blast
        qed
      next
        case (added c)
        with d show ?thesis by auto
      qed
      with False frame ps show ?thesis
        by (auto simp: first_some_not_None matchChildren_def simp del: not_None_eq)
    qed (use Cons.prems(3) ps frame in auto)
  qed
qed

text \<open>A path that fits the inserted route part by part is found.\<close>

definition instance_of :: "string list \<Rightarrow> string list \<Rightarrow> bool" where
  "instance_of ps parts \<longleftrightarrow> list_all2 (\<lambda>q p. wild_part q \<or> q = p) parts ps"

lemma insert_found:
  "trie_insert parts pat n = Some n' \<Longrightarrow> trie_wf n \<Longrightarrow> pat \<noteq> [] \<Longrightarrow> star_last parts \<Longrightarrow>
   (star_part (n_part n) \<Longrightarrow> n_pattern n \<noteq> [] \<or> parts = []) \<Longrightarrow> instance_of ps parts \<Longrightarrow>
   trie_search ps n' \<noteq> None"
proof (induction parts arbitrary: n n' ps)
  case Nil
  then show ?case by (auto simp: instance_of_def)
next
  case (Cons part parts)
  obtain q qs where ps: "ps = q # qs" "wild_part part \<or> part = q" "instance_of qs parts"
    using Cons.prems(6) by (auto simp: instance_of_def list_all2_Cons1)
  have frame: "n_part n' = n_part n" "n_pattern n' = n_pattern n"
    using Cons.prems(1) by (auto split: option.splits if_splits)
  show ?case
  proof (cases "star_part (n_part n)")
    case True
    with Cons.prems(5) frame show ?thesis by (simp add: search_star)
  next
    case False
    have "\<exists>d \<in> set (n_children n'). child_matches q d \<and> trie_search qs d \<noteq> None"
      using Cons.prems(1)
    proof (cases rule: trie_insert_Cons)
      case (found i c)
      let ?c = "n_children n ! i"
      have c: "?c \<in> set (n_children n)" using found(1) by simp
      note wf = trie_wfD [OF Cons.prems(2) c]
      have "trie_search qs c \<noteq> None"
        by (rule Cons.IH [OF found(3) wf(1) Cons.prems(3)]) (use Cons.prems(4) wf(3) ps in auto)
      moreover have "child_matches q c"
        using found(2) wf(2) ps(2) trie_insert_frame [OF found(3)] by (auto simp: child_matches_def)
      moreover have "c \<in> set (n_children n')" using found(1,4) by (simp add: set_update_memI)
      ultimately show ?thesis by blast
    next
      case (added c)
      have "trie_search qs c \<noteq> None"
        by (rule Cons.IH [OF added(3) _ Cons.prems(3)]) (use Cons.prems(4) ps in \<open>auto intro: trie_wfI\<close>)
      moreover have "child_matches q c"
        using ps(2) trie_insert_frame [OF added(3)] by (auto simp: child_matches_def)
      ultimately show ?thesis using added(4) by auto
    qed
    with False frame ps(1) show ?thesis
      by (auto simp: first_some_not_None matchChildren_def star_part_def simp del: not_None_eq)
  qed
qed

subsection \<open>Routes that do not clash\<close>

text \<open>
  A route clashes with an earlier one when, after a common beginning, the earlier one has a wild
  part where the later one has another part: the later one is then stored under the wild part.
\<close>

fun clashes :: "string list \<Rightarrow> string list \<Rightarrow> bool" where
  "clashes (l # ls) (q # qs) \<longleftrightarrow> (if l = q then clashes ls qs else wild_part l)"
| "clashes _ _ \<longleftrightarrow> False"

text \<open>Without a clash, the new route is stored under its own parts and every old one is kept.\<close>

lemma insert_exact:
  "trie_insert parts pat n = Some n' \<Longrightarrow> trie_wf n \<Longrightarrow> pat \<noteq> [] \<Longrightarrow>
   (\<And>ls p. (ls, p) \<in> set (entries n) \<Longrightarrow> \<not> clashes ls parts) \<Longrightarrow>
   (parts, pat) \<in> set (entries n') \<and>
   (\<forall>ls p. (ls, p) \<in> set (entries n') \<longrightarrow> (ls, p) \<in> set (entries n) \<or> (ls, p) = (parts, pat)) \<and>
   (\<forall>ls p. (ls, p) \<in> set (entries n) \<longrightarrow> (\<exists>p'. (ls, p') \<in> set (entries n')))"
proof (induction parts arbitrary: n n')
  case Nil
  then have n': "n_children n' = n_children n" "n_pattern n' = pat" by auto
  have "(ls, p) \<in> set (entries n') \<longleftrightarrow> (if ls = [] then p = pat else (ls, p) \<in> set (entries n))" for ls p
    using n' Nil.prems(3) by (cases ls) (auto simp: entries_Nil entries_Cons)
  then show ?case by auto
next
  case (Cons part parts)
  from Cons.prems(1) show ?case
  proof (cases rule: trie_insert_Cons)
    case (found i c)
    let ?c = "n_children n ! i"
    have c: "?c \<in> set (n_children n)" using found(1) by simp
    note wf = trie_wfD [OF Cons.prems(2) c]
    have part: "n_part ?c = part"
    proof (rule ccontr)
      assume ne: "n_part ?c \<noteq> part"
      with found(2) wf(2) have w: "wild_part (n_part ?c)" by (simp add: child_matches_def)
      obtain ls p where "(ls, p) \<in> set (entries ?c)"
        using wf(4) unfolding has_pattern_entries by (cases "entries ?c") auto
      then have "(n_part ?c # ls, p) \<in> set (entries n)" using c by (auto simp: entries_Cons)
      with Cons.prems(4) ne w show False by fastforce
    qed
    have no_clash: "\<not> clashes ls parts" if "(ls, p) \<in> set (entries ?c)" for ls p
    proof -
      have "(part # ls, p) \<in> set (entries n)" using that c part by (auto simp: entries_Cons)
      from Cons.prems(4) [OF this] show ?thesis by simp
    qed
    have "(parts, pat) \<in> set (entries c) \<and>
      (\<forall>ls p. (ls, p) \<in> set (entries c) \<longrightarrow> (ls, p) \<in> set (entries ?c) \<or> (ls, p) = (parts, pat)) \<and>
      (\<forall>ls p. (ls, p) \<in> set (entries ?c) \<longrightarrow> (\<exists>p'. (ls, p') \<in> set (entries c)))"
      by (rule Cons.IH [OF found(3) wf(1) Cons.prems(3)]) (rule no_clash)
    then have IH: "(parts, pat) \<in> set (entries c)"
        "\<And>ls p. (ls, p) \<in> set (entries c) \<Longrightarrow> (ls, p) \<in> set (entries ?c) \<or> (ls, p) = (parts, pat)"
        "\<And>ls p. (ls, p) \<in> set (entries ?c) \<Longrightarrow> \<exists>p'. (ls, p') \<in> set (entries c)"
      by blast+
    have c': "c \<in> set (n_children n')" "n_part c = part"
      using found(1,4) part trie_insert_frame [OF found(3)] by (auto simp: set_update_memI)
    have "(part # parts, pat) \<in> set (entries n')" using IH(1) c' by (auto simp: entries_Cons)
    moreover have "(ls, p) \<in> set (entries n) \<or> (ls, p) = (part # parts, pat)"
      if e: "(ls, p) \<in> set (entries n')" for ls p
    proof (cases ls)
      case Nil
      with e found(4) show ?thesis by (auto simp: entries_Nil)
    next
      case (Cons l ls')
      then obtain d where "d \<in> set ((n_children n)[i := c])" "n_part d = l" "(ls', p) \<in> set (entries d)"
        using e found(4) by (auto simp: entries_Cons)
      with set_update_child [OF found(1) this(1)] IH(2) [of ls' p] c c' part Cons show ?thesis
        by (auto simp: entries_Cons)
    qed
    moreover have "\<exists>p'. (ls, p') \<in> set (entries n')" if e: "(ls, p) \<in> set (entries n)" for ls p
    proof (cases ls)
      case Nil
      with e found(4) show ?thesis by (auto simp: entries_Nil)
    next
      case (Cons l ls')
      then obtain d where d: "d \<in> set (n_children n)" "n_part d = l" "(ls', p) \<in> set (entries d)"
        using e by (auto simp: entries_Cons)
      show ?thesis
      proof (cases "d = ?c")
        case True
        with IH(3) [of ls' p] d c' part Cons show ?thesis by (auto simp: entries_Cons)
      next
        case False
        with d(1) obtain j where "j < length (n_children n)" "d = n_children n ! j" "j \<noteq> i"
          by (metis in_set_conv_nth)
        then have "d \<in> set (n_children n')"
          using found(4) by (auto simp: in_set_conv_nth intro!: exI [of _ j])
        with d Cons show ?thesis by (auto simp: entries_Cons)
      qed
    qed
    ultimately show ?thesis by blast
  next
    case (added c)
    from Cons.IH [OF added(3) new_child_wf Cons.prems(3)]
    have IH: "(ls, p) \<in> set (entries c) \<longleftrightarrow> ls = parts \<and> p = pat" for ls p
      by auto
    have c': "n_part c = part" using trie_insert_frame [OF added(3)] by simp
    have n': "n_children n' = n_children n @ [c]" "n_pattern n' = n_pattern n" using added(4) by simp_all
    have "(ls, p) \<in> set (entries n') \<longleftrightarrow> (ls, p) \<in> set (entries n) \<or> (ls, p) = (part # parts, pat)" for ls p
    proof (cases ls)
      case Nil
      then show ?thesis by (simp add: entries_Nil n'(2))
    next
      case (Cons l ls')
      then show ?thesis unfolding Cons entries_Cons n'(1) by (auto simp: IH c')
    qed
    then show ?thesis by auto
  qed
qed

end
