(* ===== verification/Router.thy ===== *)
theory Router
  imports Trie
begin

text \<open>
  Package \<^verbatim>\<open>gee\<close>, \<^verbatim>\<open>router.go\<close>: one trie of patterns per method, and the handlers under the
  keys method, minus sign, pattern.  A handler is a parameter here; \<^term>\<open>None\<close> is the nil
  handler, which a lookup of an absent key yields as well.
\<close>

section \<open>Operations\<close>

text \<open>The loop of \<^verbatim>\<open>parsePattern\<close>: empty pieces are dropped and a catch-all ends the route.\<close>

fun take_parts :: "string list \<Rightarrow> string list" where
  "take_parts [] = []"
| "take_parts (str # strs) =
     (if str \<noteq> [] then
        (if hd str = CHR ''*'' then [str] else str # take_parts strs)
      else take_parts strs)"

definition parsePattern :: "string \<Rightarrow> string list" where
  "parsePattern pattern = take_parts (strings_Split (CHR ''/'') pattern)"

record 'h router =
  trieRoots :: "string \<Rightarrow> trieNode option"
  handlers :: "string \<Rightarrow> 'h option"

definition newRouter :: "'h router" where
  "newRouter = \<lparr>trieRoots = Map.empty, handlers = Map.empty\<rparr>"

definition new_root :: trieNode where
  "new_root = trieNode [] [] [] False"

definition route_key :: "string \<Rightarrow> string \<Rightarrow> string" where
  "route_key method pattern = method @ ''-'' @ pattern"

text \<open>\<^term>\<open>None\<close> stands for a panic in the insertion.\<close>

definition addRoute :: "string \<Rightarrow> string \<Rightarrow> 'h option \<Rightarrow> 'h router \<Rightarrow> 'h router option" where
  "addRoute method pattern handler r =
     (let parts = parsePattern pattern;
          root = (case trieRoots r method of None \<Rightarrow> new_root | Some t \<Rightarrow> t)
      in map_option (\<lambda>t. r\<lparr>trieRoots := (trieRoots r)(method \<mapsto> t),
           handlers := (handlers r)(route_key method pattern := handler)\<rparr>)
         (trie_insert parts pattern root))"

text \<open>
  The loop of \<^verbatim>\<open>getRoute\<close> over the parts of the pattern that was found; \<^term>\<open>None\<close> is an index
  out of range.
\<close>

fun param_loop ::
  "string list \<Rightarrow> nat \<Rightarrow> string list \<Rightarrow> (string \<Rightarrow> string option) \<Rightarrow> (string \<Rightarrow> string option) option"
where
  "param_loop [] i searchParts params = Some params"
| "param_loop (part # parts) i searchParts params =
     (if part = [] \<or> (hd part = CHR '':'' \<and> length searchParts \<le> i) then None
      else
        (let params1 = (if hd part = CHR '':'' then params(tl part \<mapsto> searchParts ! i) else params)
         in if hd part = CHR ''*'' \<and> 1 < length part then
              (if length searchParts < i then None
               else Some (params1(tl part \<mapsto> strings_Join (drop i searchParts) ''/'')))
            else param_loop parts (i + 1) searchParts params1))"

definition getRoute ::
  "string \<Rightarrow> string \<Rightarrow> 'h router \<Rightarrow> (trieNode \<times> (string \<Rightarrow> string option)) option outcome" where
  "getRoute method path r =
     (case trieRoots r method of
        None \<Rightarrow> Returns None
      | Some root \<Rightarrow>
          (let searchParts = parsePattern path
           in (case trie_search searchParts root of
                 None \<Rightarrow> Returns None
               | Some n \<Rightarrow>
                   (case param_loop (parsePattern (n_pattern n)) 0 searchParts Map.empty of
                      None \<Rightarrow> Panics ''index out of range''
                    | Some params \<Rightarrow> Returns (Some (n, params))))))"

section \<open>The parts of a pattern\<close>

lemma take_parts_parts:
  "part \<in> set (take_parts strs) \<Longrightarrow> part \<noteq> [] \<and> part \<in> set strs"
  by (induction strs rule: take_parts.induct) (auto split: if_splits)

lemma parts_nonempty: "part \<in> set (parsePattern p) \<Longrightarrow> part \<noteq> []"
  using take_parts_parts by (auto simp: parsePattern_def)

lemma take_parts_star_last: "star_last (take_parts strs)"
  by (induction strs rule: take_parts.induct) (auto simp: star_part_def)

lemma parse_star_last [simp]: "star_last (parsePattern p)"
  by (simp add: parsePattern_def take_parts_star_last)

definition valid_parts :: "string list \<Rightarrow> bool" where
  "valid_parts parts \<longleftrightarrow> star_last parts \<and> (\<forall>part \<in> set parts. part \<noteq> [] \<and> CHR ''/'' \<notin> set part)"

lemma valid_parse: "valid_parts (parsePattern p)"
  using take_parts_parts Split_pieces unfolding valid_parts_def parsePattern_def
  by (fastforce simp: take_parts_star_last)

lemma take_parts_id: "valid_parts parts \<Longrightarrow> take_parts parts = parts"
  by (induction parts) (auto simp: valid_parts_def star_part_def)

lemma Split_slash: "strings_Split (CHR ''/'') (CHR ''/'' # p) = [] # strings_Split (CHR ''/'') p"
  by simp

lemma parse_slash [simp]: "parsePattern (CHR ''/'' # p) = parsePattern p"
  by (simp add: parsePattern_def)

lemma parse_Join: "valid_parts parts \<Longrightarrow> parsePattern (strings_Join parts ''/'') = parts"
proof (cases "parts = []")
  case False
  assume v: "valid_parts parts"
  with False have "strings_Split (CHR ''/'') (strings_Join parts ''/'') = parts"
    by (intro Split_Join) (auto simp: valid_parts_def)
  with v show ?thesis by (simp add: parsePattern_def take_parts_id)
qed (simp add: parsePattern_def)

section \<open>A history of registrations\<close>

type_synonym 'h route = "string \<times> string \<times> 'h option"

fun add_routes :: "'h route list \<Rightarrow> 'h router \<Rightarrow> 'h router option" where
  "add_routes [] r = Some r"
| "add_routes ((m, p, h) # rs) r =
     (case addRoute m p h r of None \<Rightarrow> None | Some r' \<Rightarrow> add_routes rs r')"

text \<open>The trie of a method, empty when there is none.\<close>

definition root_of :: "string \<Rightarrow> 'h router \<Rightarrow> trieNode" where
  "root_of m r = (case trieRoots r m of None \<Rightarrow> new_root | Some t \<Rightarrow> t)"

lemma root_of_new [simp]: "root_of m newRouter = new_root"
  by (simp add: root_of_def newRouter_def)

lemma new_root_facts [simp]: "trie_wf new_root" "n_part new_root = []" "entries new_root = []"
    "trie_search ps new_root = None"
  by (cases ps; simp add: new_root_def matchChildren_def)+

lemma addRoute_root:
  assumes "addRoute m p h r = Some r'"
  obtains t where "trie_insert (parsePattern p) p (root_of m r) = Some t"
    and "root_of m' r' = (if m' = m then t else root_of m' r)"
    and "handlers r' = (handlers r)(route_key m p := h)"
  using assms by (auto simp: addRoute_def root_of_def Let_def)

lemma addRoute_total: "\<exists>r'. addRoute m p h r = Some r'"
  using trie_insert_total [of "parsePattern p" p "root_of m r"] parts_nonempty
  by (auto simp: addRoute_def root_of_def Let_def)

lemma add_routes_total: "\<exists>r'. add_routes rs r = Some r'"
proof (induction rs arbitrary: r)
  case (Cons x rs)
  then show ?case
    using addRoute_total by (cases x) (fastforce split: option.split)
qed simp

lemma add_routes_append:
  "add_routes (xs @ ys) r = (case add_routes xs r of None \<Rightarrow> None | Some r' \<Rightarrow> add_routes ys r')"
  by (induction xs r rule: add_routes.induct) (auto split: option.split)

lemma add_routes_snoc:
  assumes "add_routes (rs @ [(m, p, h)]) r = Some r''"
  obtains r' where "add_routes rs r = Some r'" and "addRoute m p h r' = Some r''"
  using assms by (auto simp: add_routes_append split: option.splits)

lemma getRoute_root:
  "getRoute m path r =
     (case trie_search (parsePattern path) (root_of m r) of
        None \<Rightarrow> Returns None
      | Some n \<Rightarrow>
          (case param_loop (parsePattern (n_pattern n)) 0 (parsePattern path) Map.empty of
             None \<Rightarrow> Panics ''index out of range''
           | Some params \<Rightarrow> Returns (Some (n, params))))"
  by (simp add: getRoute_def root_of_def Let_def split: option.split)

text \<open>
  What holds of the trie of a method after any history: it is well formed, and every route in
  it was registered and is stored under parts that are at least as general as its own.
\<close>

definition root_ok :: "'h route list \<Rightarrow> string \<Rightarrow> trieNode \<Rightarrow> bool" where
  "root_ok rs m t \<longleftrightarrow> trie_wf t \<and> n_part t = [] \<and>
     (\<forall>ls p. (ls, p) \<in> set (entries t) \<longrightarrow>
        generalises ls (parsePattern p) \<and> (\<exists>h. (m, p, h) \<in> set rs))"

lemma insert_empty_pattern: "trie_insert (parsePattern []) [] t = Some (set_pattern [] t)"
  by (simp add: parsePattern_def)

lemma set_pattern_wf: "trie_wf (set_pattern p t) = trie_wf t"
  by (cases t) (simp add: set_pattern_def)

lemma root_ok_insert:
  assumes ok: "root_ok rs m t" and ins: "trie_insert (parsePattern p) p t = Some t'"
  shows "root_ok (rs @ [(m, p, h)]) m t'"
proof (cases "p = []")
  case True
  then have t': "t' = set_pattern [] t" using ins by (simp add: insert_empty_pattern)
  have sub: "(ls, q) \<in> set (entries t)" if "(ls, q) \<in> set (entries t')" for ls q
    using that t' by (cases ls) (auto simp: entries_Nil entries_Cons)
  have "trie_wf t'" "n_part t' = []" using ok t' by (simp_all add: root_ok_def set_pattern_wf)
  with sub ok show ?thesis unfolding root_ok_def by (metis Un_iff set_append)
next
  case False
  have "trie_wf t'" using insert_wf [OF ins] ok False by (simp add: root_ok_def)
  moreover have "n_part t' = []" using trie_insert_frame [OF ins] ok by (simp add: root_ok_def)
  ultimately show ?thesis
    using insert_entries [OF ins] ok by (fastforce simp: root_ok_def)
qed

lemma root_ok_mono: "root_ok rs m t \<Longrightarrow> root_ok (rs @ xs) m t"
  by (auto simp: root_ok_def)

lemma add_routes_ok: "add_routes rs newRouter = Some r \<Longrightarrow> root_ok rs m (root_of m r)"
proof (induction rs arbitrary: r rule: rev_induct)
  case Nil
  then show ?case by (auto simp: root_ok_def)
next
  case (snoc x rs)
  obtain m' p h where x: "x = (m', p, h)" by (cases x)
  from snoc.prems obtain r1 where r1: "add_routes rs newRouter = Some r1" "addRoute m' p h r1 = Some r"
    unfolding x by (rule add_routes_snoc)
  from r1(2) obtain t where "trie_insert (parsePattern p) p (root_of m' r1) = Some t"
      "root_of m r = (if m = m' then t else root_of m r1)"
    by (rule addRoute_root)
  with snoc.IH [OF r1(1)] show ?case
    unfolding x by (auto intro: root_ok_insert root_ok_mono)
qed

text \<open>The handler of a key is the one registered last under it.\<close>

definition last_handler :: "'h route list \<Rightarrow> string \<Rightarrow> 'h option" where
  "last_handler rs key =
     (case find (\<lambda>(m, p, h). route_key m p = key) (rev rs) of None \<Rightarrow> None | Some (m, p, h) \<Rightarrow> h)"

lemma add_routes_handlers: "add_routes rs newRouter = Some r \<Longrightarrow> handlers r key = last_handler rs key"
proof (induction rs arbitrary: r rule: rev_induct)
  case Nil
  then show ?case by (auto simp: last_handler_def newRouter_def)
next
  case (snoc x rs)
  obtain m' p h where x: "x = (m', p, h)" by (cases x)
  from snoc.prems obtain r1 where r1: "add_routes rs newRouter = Some r1" "addRoute m' p h r1 = Some r"
    unfolding x by (rule add_routes_snoc)
  from r1(2) have "handlers r = (handlers r1)(route_key m' p := h)"
    by (rule addRoute_root) simp
  with snoc.IH [OF r1(1)] show ?case by (auto simp: x last_handler_def)
qed

section \<open>Parameters\<close>

lemma param_loop_total:
  "\<forall>part \<in> set parts. part \<noteq> [] \<Longrightarrow> i + length parts \<le> length sp \<Longrightarrow>
   \<exists>ps. param_loop parts i sp m = Some ps"
  by (induction parts i sp m rule: param_loop.induct) (auto simp: Let_def)

lemma found_length:
  assumes ok: "root_ok rs m t" and found: "trie_search sp t = Some n"
  shows "length (parsePattern (n_pattern n)) \<le> length sp" and "\<exists>h. (m, n_pattern n, h) \<in> set rs"
proof -
  have "map_option n_pattern (trie_search sp t) = first_match sp (entries t)"
    using search_first_match ok by (simp add: root_ok_def)
  with found have "first_match sp (entries t) = Some (n_pattern n)" by simp
  from first_match_Some [OF this] obtain ls where
    ls: "(ls, n_pattern n) \<in> set (entries t)" "route_matches ls sp" by blast
  with ok show "\<exists>h. (m, n_pattern n, h) \<in> set rs" by (simp add: root_ok_def)
  from ls ok have "length ls = length (parsePattern (n_pattern n))"
    by (auto simp: root_ok_def generalises_def dest: list_all2_lengthD)
  with route_matches_length [OF ls(2)] show "length (parsePattern (n_pattern n)) \<le> length sp" by simp
qed

lemma found_params:
  assumes "root_ok rs m t" and "trie_search sp t = Some n"
  shows "\<exists>params. param_loop (parsePattern (n_pattern n)) 0 sp Map.empty = Some params"
  using found_length(1) [OF assms] parts_nonempty by (intro param_loop_total) auto

text \<open>The names of the parameters of a route, and a pattern with its parameters filled in.\<close>

definition param_names :: "string list \<Rightarrow> string list" where
  "param_names parts = map tl (filter wild_part parts)"

definition fill_part :: "(string \<Rightarrow> string option) \<Rightarrow> string \<Rightarrow> string" where
  "fill_part params part =
     (if wild_part part then (case params (tl part) of Some v \<Rightarrow> v | None \<Rightarrow> []) else part)"

definition named_route :: "string list \<Rightarrow> bool" where
  "named_route parts \<longleftrightarrow> distinct (param_names parts) \<and> ''*'' \<notin> set parts"

lemma fill_cong:
  "(\<And>x. x \<in> set (param_names parts) \<Longrightarrow> f x = g x) \<Longrightarrow> map (fill_part f) parts = map (fill_part g) parts"
  by (auto simp: fill_part_def param_names_def)

lemma param_loop_frame:
  "param_loop parts i sp m = Some ps \<Longrightarrow> x \<notin> set (param_names parts) \<Longrightarrow> ps x = m x"
  by (induction parts i sp m rule: param_loop.induct)
    (auto simp: Let_def param_names_def wild_part_def split: if_splits)

lemma route_matches_Nil [simp]: "route_matches ls [] \<longleftrightarrow> ls = []" "route_matches [] ps \<longleftrightarrow> ps = []"
  by (cases ls; simp) (cases ps; simp)

lemma star_part_name: "star_part part \<Longrightarrow> part \<noteq> ''*'' \<Longrightarrow> 1 < length part"
  by (cases part; cases "tl part") (auto simp: star_part_def)

lemma param_loop_fill:
  "route_matches parts (drop i sp) \<Longrightarrow> named_route parts \<Longrightarrow> param_loop parts i sp m = Some ps \<Longrightarrow>
   strings_Join (map (fill_part ps) parts) ''/'' = strings_Join (drop i sp) ''/''"
proof (induction parts arbitrary: i m)
  case (Cons part parts)
  from Cons.prems(1) have "drop i sp \<noteq> []" by auto
  then have i: "i < length sp" by simp
  then have d: "drop i sp = sp ! i # drop (Suc i) sp" by (simp add: Cons_nth_drop_Suc)
  have ne: "part \<noteq> []" using Cons.prems(3) by (auto split: if_splits)
  show ?case
  proof (cases "star_part part")
    case True
    then have "1 < length part" "hd part = CHR ''*''" "wild_part part"
      using Cons.prems(2) star_part_name star_wild by (auto simp: named_route_def star_part_def)
    moreover have "parts = []" using Cons.prems(1) d True by simp
    ultimately show ?thesis using Cons.prems(3) i ne by (auto simp: Let_def fill_part_def)
  next
    case False
    then have hd: "hd part \<noteq> CHR ''*''" using ne by (simp add: star_part_def)
    have m: "part = sp ! i \<or> wild_part part" "route_matches parts (drop (Suc i) sp)"
      using Cons.prems(1) d False by auto
    have names: "named_route parts" "wild_part part \<Longrightarrow> tl part \<notin> set (param_names parts)"
      using Cons.prems(2) by (auto simp: named_route_def param_names_def split: if_splits)
    let ?m = "if hd part = CHR '':'' then m(tl part \<mapsto> sp ! i) else m"
    have loop: "param_loop parts (Suc i) sp ?m = Some ps"
      using Cons.prems(3) i ne hd by (simp add: Let_def)
    have "strings_Join (map (fill_part ps) parts) ''/'' = strings_Join (drop (Suc i) sp) ''/''"
      by (rule Cons.IH [OF m(2) names(1) loop])
    moreover have "fill_part ps part = sp ! i"
      using m(1) names(2) param_loop_frame [OF loop, of "tl part"] hd ne
      by (auto simp: fill_part_def wild_part_def)
    moreover have "parts = [] \<longleftrightarrow> drop (Suc i) sp = []" using m(2) by (cases parts) auto
    ultimately show ?thesis using d
      by (cases "parts = []") (simp_all add: Join_Cons)
  qed
qed simp

section \<open>Properties\<close>

text \<open>
  The backtracking search implements the declarative meaning of a trie: it finds the first
  route, in the order of the tree, that matches the parts of the path.
\<close>

theorem search_finds_first_match:
  assumes "add_routes rs newRouter = Some r"
  shows "map_option n_pattern (trie_search sp (root_of m r)) = first_match sp (entries (root_of m r))"
  using search_first_match add_routes_ok [OF assms] by (simp add: root_ok_def)

text \<open>The routes of the test of the package.\<close>

definition test_routes :: "nat route list" where
  "test_routes = map (\<lambda>(p, i). (''GET'', p, Some i))
     [(''/'', 0), (''/hello/:name'', 1), (''/hello/:name/getAge'', 2), (''/hello/b/c'', 3),
      (''/hi/:name'', 4), (''/assets/*filepath'', 5)]"

definition test_router :: "nat router" where
  "test_router = the (add_routes test_routes newRouter)"

lemma test_router_built: "add_routes test_routes newRouter = Some test_router"
  using add_routes_total [of test_routes newRouter] by (auto simp: test_router_def)

theorem search_finds_first_match_witness:
  "map_option n_pattern (trie_search [''hello'', ''alice''] (root_of ''GET'' test_router)) =
     first_match [''hello'', ''alice''] (entries (root_of ''GET'' test_router))"
  by (rule search_finds_first_match [OF test_router_built])



lemma found_after:
  assumes "add_routes rs r = Some r'" and "\<forall>(m', p, h) \<in> set rs. p \<noteq> []"
    and "trie_search sp (root_of m r) \<noteq> None"
  shows "trie_search sp (root_of m r') \<noteq> None"
  using assms
proof (induction rs r rule: add_routes.induct)
  case (2 m' p h rs r)
  from "2.prems"(1) obtain r1 where r1: "addRoute m' p h r = Some r1" "add_routes rs r1 = Some r'"
    by (auto split: option.splits)
  from r1(1) obtain t where t: "trie_insert (parsePattern p) p (root_of m' r) = Some t"
      "root_of m r1 = (if m = m' then t else root_of m r)"
    by (rule addRoute_root)
  have "trie_search sp (root_of m r1) \<noteq> None"
    using t "2.prems"(2,3) insert_keeps_found [OF t(1)] by auto
  with "2.IH" [OF r1(1)] r1 "2.prems"(2) show ?case by auto
qed simp



definition clash_free :: "string \<Rightarrow> 'h route list \<Rightarrow> bool" where
  "clash_free m rs \<longleftrightarrow>
     sorted_wrt (\<lambda>p q. \<not> clashes (parsePattern p) (parsePattern q))
       (map (\<lambda>(m', p, h). p) (filter (\<lambda>(m', p, h). m' = m) rs))"

definition root_exact :: "'h route list \<Rightarrow> string \<Rightarrow> trieNode \<Rightarrow> bool" where
  "root_exact rs m t \<longleftrightarrow>
     (\<forall>ls p. (ls, p) \<in> set (entries t) \<longrightarrow> ls = parsePattern p \<and> (\<exists>h. (m, p, h) \<in> set rs)) \<and>
     (\<forall>p h. (m, p, h) \<in> set rs \<longrightarrow> (\<exists>p'. (parsePattern p, p') \<in> set (entries t)))"

lemma root_exactD:
  assumes "root_exact rs m t"
  shows "(ls, p) \<in> set (entries t) \<Longrightarrow> ls = parsePattern p"
    and "(ls, p) \<in> set (entries t) \<Longrightarrow> \<exists>h. (m, p, h) \<in> set rs"
    and "(m, p, h) \<in> set rs \<Longrightarrow> \<exists>p'. (parsePattern p, p') \<in> set (entries t)"
  using assms by (auto simp: root_exact_def)

lemma root_exact_insert:
  assumes ex: "root_exact rs m t" and "trie_wf t" and "p \<noteq> []"
    and nc: "\<And>p' h'. (m, p', h') \<in> set rs \<Longrightarrow> \<not> clashes (parsePattern p') (parsePattern p)"
    and ins: "trie_insert (parsePattern p) p t = Some t'"
  shows "root_exact (rs @ [(m, p, h)]) m t'"
proof -
  have no_clash: "\<not> clashes ls (parsePattern p)" if "(ls, q) \<in> set (entries t)" for ls q
    using root_exactD(1,2) [OF ex that] nc by auto
  have "(parsePattern p, p) \<in> set (entries t') \<and>
    (\<forall>ls q. (ls, q) \<in> set (entries t') \<longrightarrow> (ls, q) \<in> set (entries t) \<or> (ls, q) = (parsePattern p, p)) \<and>
    (\<forall>ls q. (ls, q) \<in> set (entries t) \<longrightarrow> (\<exists>q'. (ls, q') \<in> set (entries t')))"
    by (rule insert_exact [OF ins assms(2,3)]) (rule no_clash)
  with ex show ?thesis unfolding root_exact_def by (auto; blast)
qed

lemma add_routes_exact:
  assumes "add_routes rs newRouter = Some r" and "\<forall>(m', p', h') \<in> set rs. p' \<noteq> []" and "clash_free m rs"
  shows "root_exact rs m (root_of m r)"
  using assms
proof (induction rs arbitrary: r rule: rev_induct)
  case Nil
  then show ?case by (auto simp: root_exact_def)
next
  case (snoc x rs)
  obtain m' p h where x: "x = (m', p, h)" by (cases x)
  from snoc.prems(1) obtain r1 where r1: "add_routes rs newRouter = Some r1" "addRoute m' p h r1 = Some r"
    unfolding x by (rule add_routes_snoc)
  from r1(2) obtain t where t: "trie_insert (parsePattern p) p (root_of m' r1) = Some t"
      "root_of m r = (if m = m' then t else root_of m r1)"
    by (rule addRoute_root)
  have "clash_free m rs" using snoc.prems(3) by (auto simp: clash_free_def sorted_wrt_append)
  then have IH: "root_exact rs m (root_of m r1)" using snoc.IH [OF r1(1)] snoc.prems(2) by simp
  show ?case
  proof (cases "m = m'")
    case True
    have "\<not> clashes (parsePattern p') (parsePattern p)" if "(m, p', h') \<in> set rs" for p' h'
      using snoc.prems(3) that True by (force simp: clash_free_def sorted_wrt_append x)
    moreover have "trie_wf (root_of m r1)" "p \<noteq> []"
      using add_routes_ok [OF r1(1), of m] snoc.prems(2) x by (auto simp: root_ok_def)
    ultimately show ?thesis
      using root_exact_insert [OF IH, of p t h] True t x by simp
  next
    case False
    with IH t(2) x show ?thesis by (auto simp: root_exact_def)
  qed
qed

text \<open>
  C8: without clashes the router does exactly what its patterns say.  A path finds a route just
  when a registered pattern matches it; the route found is a registered pattern that matches
  it, and filling the parameters into that pattern gives back the path.
\<close>

theorem clash_free_routing:
  assumes "add_routes rs newRouter = Some r" and "\<forall>(m', p', h') \<in> set rs. p' \<noteq> []" and "clash_free m rs"
  shows "(getRoute m path r = Returns None \<and>
      \<not> (\<exists>p h. (m, p, h) \<in> set rs \<and> route_matches (parsePattern p) (parsePattern path))) \<or>
    (\<exists>n params h. getRoute m path r = Returns (Some (n, params)) \<and> (m, n_pattern n, h) \<in> set rs \<and>
      route_matches (parsePattern (n_pattern n)) (parsePattern path) \<and>
      (\<not> named_route (parsePattern (n_pattern n)) \<or>
        strings_Join (map (fill_part params) (parsePattern (n_pattern n))) ''/'' =
        strings_Join (parsePattern path) ''/''))"
proof -
  note ok = add_routes_ok [OF assms(1), of m]
  note exact = add_routes_exact [OF assms]
  have fm: "map_option n_pattern (trie_search (parsePattern path) (root_of m r)) =
      first_match (parsePattern path) (entries (root_of m r))"
    using search_first_match ok by (simp add: root_ok_def)
  show ?thesis
  proof (cases "trie_search (parsePattern path) (root_of m r)")
    case None
    with fm have no: "\<forall>(ls, p) \<in> set (entries (root_of m r)). \<not> route_matches ls (parsePattern path)"
      unfolding first_match_None [symmetric] by simp
    have "\<not> route_matches (parsePattern p) (parsePattern path)" if "(m, p, h) \<in> set rs" for p h
      using root_exactD(3) [OF exact that] no by auto
    with None show ?thesis by (auto simp: getRoute_root)
  next
    case (Some n)
    with fm have "first_match (parsePattern path) (entries (root_of m r)) = Some (n_pattern n)" by simp
    from first_match_Some [OF this] obtain ls where
      ls: "(ls, n_pattern n) \<in> set (entries (root_of m r))" "route_matches ls (parsePattern path)" by blast
    have match: "route_matches (parsePattern (n_pattern n)) (parsePattern path)"
      using ls root_exactD(1) [OF exact ls(1)] by simp
    obtain params where
      params: "param_loop (parsePattern (n_pattern n)) 0 (parsePattern path) Map.empty = Some params"
      using found_params [OF ok Some] by blast
    then have "named_route (parsePattern (n_pattern n)) \<Longrightarrow>
        strings_Join (map (fill_part params) (parsePattern (n_pattern n))) ''/'' =
        strings_Join (parsePattern path) ''/''"
      using param_loop_fill [of "parsePattern (n_pattern n)" 0 "parsePattern path" Map.empty params] match
      by simp
    with match params Some root_exactD(2) [OF exact ls(1)] show ?thesis
      by (auto simp: getRoute_root)
  qed
qed

definition site_routes :: "nat route list" where
  "site_routes = map (\<lambda>(p, i). (''GET'', p, Some i))
     [(''/'', 0), (''/hello/b'', 1), (''/hello/:name'', 2), (''/assets/*filepath'', 3)]"

theorem clash_free_routing_witness:
  "\<exists>r n params. add_routes site_routes newRouter = Some r \<and>
     getRoute ''GET'' ''/assets/css/a.css'' r = Returns (Some (n, params)) \<and>
     route_matches (parsePattern (n_pattern n)) [''assets'', ''css'', ''a.css'']"
proof -
  obtain r where r: "add_routes site_routes newRouter = Some r" using add_routes_total by blast
  have m: "(''GET'', ''/assets/*filepath'', Some 3) \<in> set site_routes"
      "route_matches (parsePattern ''/assets/*filepath'') (parsePattern ''/assets/css/a.css'')"
      "parsePattern ''/assets/css/a.css'' = [''assets'', ''css'', ''a.css'']"
    by (simp_all add: site_routes_def parsePattern_def star_part_def)
  have "clash_free ''GET'' site_routes"
    by (simp add: site_routes_def clash_free_def parsePattern_def wild_part_def)
  with clash_free_routing [OF r, of "''GET''" "''/assets/css/a.css''"] m r show ?thesis
    by (auto simp: site_routes_def)
qed

text \<open>
  A static route that is registered after a parameter route of the same length takes its
  place: from then on every one-part path is answered with the static route, and the
  parameter route is gone.
\<close>

theorem static_route_replaces_param_route:
  assumes "valid_parts [CHR '':'' # x, s]" and "\<not> wild_part s" and "valid_parts [q]"
    and "add_routes [(m, ''/:'' @ x, h), (m, ''/'' @ s, h')] newRouter = Some r"
  shows "\<exists>n. getRoute m (''/'' @ q) r = Returns (Some (n, Map.empty)) \<and> n_pattern n = ''/'' @ s"
proof -
  have "parsePattern (strings_Join [CHR '':'' # x] ''/'') = [CHR '':'' # x]"
      "parsePattern (strings_Join [s] ''/'') = [s]" "parsePattern (strings_Join [q] ''/'') = [q]"
    using assms(1,3) by (intro parse_Join; auto simp: valid_parts_def)+
  then have p: "parsePattern (CHR '':'' # x) = [CHR '':'' # x]" "parsePattern s = [s]" "parsePattern q = [q]"
    by simp_all
  have "s \<noteq> []" "hd s \<noteq> CHR '':''" "hd s \<noteq> CHR ''*''"
    using assms(1,2) by (auto simp: valid_parts_def wild_part_def)
  with assms(4) p show ?thesis
    by (auto simp: addRoute_def Let_def newRouter_def new_root_def new_child_def set_pattern_def
        set_children_def child_matches_def wild_part_def getRoute_def matchChildren_def)
qed

definition shadowed_routes :: "nat route list" where
  "shadowed_routes = [(''GET'', ''/:name'', Some 1), (''GET'', ''/hello'', Some 2)]"

theorem static_route_replaces_param_route_witness:
  "\<exists>r n. add_routes shadowed_routes newRouter = Some r \<and>
     getRoute ''GET'' ''/alice'' r = Returns (Some (n, Map.empty)) \<and> n_pattern n = ''/hello''"
proof -
  obtain r where r: "add_routes shadowed_routes newRouter = Some r" using add_routes_total by blast
  have "\<exists>n. getRoute ''GET'' (''/'' @ ''alice'') r = Returns (Some (n, Map.empty)) \<and> n_pattern n = ''/'' @ ''hello''"
    by (rule static_route_replaces_param_route [of "''name''" _ _ _ "Some 1" "Some 2"])
      (use r in \<open>simp_all add: shadowed_routes_def valid_parts_def wild_part_def star_part_def\<close>)
  with r show ?thesis by auto
qed

end
