(* ===== verification/Context.thy ===== *)
theory Context
  imports NetUrl
begin

text \<open>
  Package \<^verbatim>\<open>gee\<close>, \<^verbatim>\<open>context.go\<close>, \<^verbatim>\<open>recovery.go\<close> and \<^verbatim>\<open>logger.go\<close>: the context of a request and the
  chain of handlers that \<^verbatim>\<open>Next\<close> drives.  A handler is client code that sees the context only
  through its methods (its index and its list of handlers are private), so a handler is a
  program over these methods: a tree of calls, in which the client's own computations are
  arbitrary functions on its state \<open>'w\<close>.
\<close>

section \<open>The response writer\<close>

text \<open>
  The part of \<^verbatim>\<open>net/http\<close> that the methods write to: the header is sent with the first
  \<^verbatim>\<open>WriteHeader\<close> or \<^verbatim>\<open>Write\<close>, later codes are ignored, an invalid code panics, an informational
  code does not count as the answer, and some codes allow no body.
\<close>

record response =
  w_header :: "string \<Rightarrow> string option"
  w_sent :: "(int \<times> (string \<Rightarrow> string option)) option"
  w_body :: bytes

definition WriteHeader :: "int \<Rightarrow> (unit, response) action" where
  "WriteHeader code w =
     (if w_sent w \<noteq> None then (Returns (), w)
      else if code < 100 \<or> 999 < code then (Panics ''invalid WriteHeader code'', w)
      else if code < 200 \<and> code \<noteq> 101 then (Returns (), w)
      else (Returns (), w\<lparr>w_sent := Some (code, w_header w)\<rparr>))"

definition body_allowed :: "int \<Rightarrow> bool" where
  "body_allowed code \<longleftrightarrow> 200 \<le> code \<and> code \<noteq> 204 \<and> code \<noteq> 304"

definition http_Write :: "bytes \<Rightarrow> response \<Rightarrow> response" where
  "http_Write data w =
     (let w' = snd (WriteHeader 200 w)
      in case w_sent w' of
           Some (code, h) \<Rightarrow> if body_allowed code then w'\<lparr>w_body := w_body w' @ data\<rparr> else w'
         | None \<Rightarrow> w')"

section \<open>The context and its methods\<close>

text \<open>
  A value of the type \<^verbatim>\<open>any\<close> that a handler hands to a template, and the templates of an engine: the
  template of a name writes pieces of text for the data, and may fail in between.
\<close>

datatype tmpl_data =
    ANil
  | ABool bool
  | AInt int64
  | AString string
  | AList "tmpl_data list"
  | AMap "(string \<times> tmpl_data) list"

type_synonym templates = "string \<Rightarrow> tmpl_data \<Rightarrow> bytes list \<times> error option"

text \<open>
  \<open>c_Form\<close> is the body of a request that sends a form (of the type
  \<^verbatim>\<open>application/x-www-form-urlencoded\<close>), empty for other requests; \<open>c_templates\<close> stands for the
  templates of the engine of the context.  \<open>c_log\<close> holds the lines of the logger, \<open>c_started\<close> is a
  ghost: the indices of the handlers that were started, in order.
\<close>

record 'w ctx =
  c_Path :: string
  c_Method :: string
  c_RequestURI :: string
  c_Form :: string
  c_templates :: "templates option"
  c_Params :: "string \<Rightarrow> string option"
  c_StatusCode :: int
  c_index :: int
  c_writer :: response
  c_world :: 'w
  c_log :: "(int \<times> string) list"
  c_started :: "nat list"

definition newContext :: "string \<Rightarrow> string \<Rightarrow> string \<Rightarrow> string \<Rightarrow> 'w \<Rightarrow> 'w ctx" where
  "newContext method path uri form w =
     \<lparr>c_Path = path, c_Method = method, c_RequestURI = uri, c_Form = form, c_templates = None, c_Params = Map.empty,
      c_StatusCode = 0, c_index = -1,
      c_writer = \<lparr>w_header = Map.empty, w_sent = None, w_body = []\<rparr>, c_world = w,
      c_log = [], c_started = []\<rparr>"

definition ctx_Status :: "int \<Rightarrow> (unit, 'w ctx) action" where
  "ctx_Status code c =
     (let (out, w) = WriteHeader code (c_writer c)
      in (out, c\<lparr>c_StatusCode := code, c_writer := w\<rparr>))"

definition ctx_SetHeader :: "string \<Rightarrow> string \<Rightarrow> 'w ctx \<Rightarrow> 'w ctx" where
  "ctx_SetHeader key value c =
     c\<lparr>c_writer := (c_writer c)\<lparr>w_header := (w_header (c_writer c))(key \<mapsto> value)\<rparr>\<rparr>"

definition ctx_Write :: "bytes \<Rightarrow> 'w ctx \<Rightarrow> 'w ctx" where
  "ctx_Write data c = c\<lparr>c_writer := http_Write data (c_writer c)\<rparr>"

text \<open>The text is the formatted one.\<close>

definition ctx_String :: "int \<Rightarrow> string \<Rightarrow> (unit, 'w ctx) action" where
  "ctx_String code text c =
     and_then (ctx_Status code (ctx_SetHeader ''Content-Type'' ''text/plain'' c))
       (\<lambda>_ c1. (Returns (), ctx_Write text c1))"

definition ctx_Data :: "int \<Rightarrow> bytes \<Rightarrow> (unit, 'w ctx) action" where
  "ctx_Data code data c = and_then (ctx_Status code c) (\<lambda>_ c1. (Returns (), ctx_Write data c1))"

text \<open>\<^verbatim>\<open>http.Error\<close> with code 500, as \<^verbatim>\<open>JSON\<close> calls it after the status was set.\<close>

definition ctx_http_Error :: "string \<Rightarrow> (unit, 'w ctx) action" where
  "ctx_http_Error msg c =
     (let c1 = ctx_SetHeader ''X-Content-Type-Options'' ''nosniff''
                 (ctx_SetHeader ''Content-Type'' ''text/plain; charset=utf-8'' c);
          (out, w) = WriteHeader 500 (c_writer c1)
      in (out, ctx_Write (msg @ [CHR 0x0A]) (c1\<lparr>c_writer := w\<rparr>)))"

text \<open>The encoding of the object is what \<^verbatim>\<open>encoding/json\<close> yields: an error or the text.\<close>

definition ctx_JSON :: "int \<Rightarrow> error + bytes \<Rightarrow> (unit, 'w ctx) action" where
  "ctx_JSON code encoded c =
     and_then (ctx_Status code (ctx_SetHeader ''Content-Type'' ''application/json'' c))
       (\<lambda>_ c1. case encoded of
          Inr text \<Rightarrow> (Returns (), ctx_Write text c1)
        | Inl err \<Rightarrow> ctx_http_Error err c1)"

definition ctx_Param :: "string \<Rightarrow> 'w ctx \<Rightarrow> string" where
  "ctx_Param key c = (case c_Params c key of None \<Rightarrow> [] | Some v \<Rightarrow> v)"

text \<open>The JSON text of \<^verbatim>\<open>H{"message": msg}\<close>, for ASCII messages.\<close>

definition json_char :: "char \<Rightarrow> string" where
  "json_char ch =
     (let n = of_char ch :: nat;
          u = [CHR 0x5C, CHR ''u'', CHR ''0'', CHR ''0'',
                ''0123456789abcdef'' ! (n div 16), ''0123456789abcdef'' ! (n mod 16)]
      in if ch = CHR 0x22 \<or> ch = CHR 0x5C then [CHR 0x5C, ch]
         else if ch = CHR 0x0A then [CHR 0x5C, CHR ''n''] else if ch = CHR 0x0D then [CHR 0x5C, CHR ''r'']
         else if ch = CHR 0x09 then [CHR 0x5C, CHR ''t'']
         else if n < 32 \<or> ch \<in> {CHR ''<'', CHR ''>'', CHR ''&''} then u else [ch])"

definition json_message :: "string \<Rightarrow> bytes" where
  "json_message msg =
     CHR ''{'' # CHR 0x22 # ''message'' @ CHR 0x22 # CHR '':'' # CHR 0x22 #
       concat (map json_char msg) @ [CHR 0x22, CHR ''}'', CHR 0x0A]"

text \<open>\<open>n\<close> is the length of the list of handlers.\<close>

definition ctx_Fail :: "nat \<Rightarrow> int \<Rightarrow> string \<Rightarrow> (unit, 'w ctx) action" where
  "ctx_Fail n code msg c = ctx_JSON code (Inr (json_message msg)) (c\<lparr>c_index := int n\<rparr>)"

text \<open>
  The values of a query, of a form, and templates.  \<^verbatim>\<open>FormValue\<close> takes the form before the query,
  and the form only for the methods that send one.
\<close>

definition ctx_Query :: "string \<Rightarrow> 'w ctx \<Rightarrow> string" where
  "ctx_Query key c = values_Get key (url_ParseQuery (raw_query (c_RequestURI c)))"

definition http_FormValue :: "string \<Rightarrow> 'w ctx \<Rightarrow> string" where
  "http_FormValue key c =
     values_Get key
       ((if c_Method c \<in> {''POST'', ''PUT'', ''PATCH''} then url_ParseQuery (c_Form c) else []) @
        url_ParseQuery (raw_query (c_RequestURI c)))"

definition ctx_PostForm :: "string \<Rightarrow> 'w ctx \<Rightarrow> string" where
  "ctx_PostForm key c = http_FormValue key c"

definition ctx_HTML :: "nat \<Rightarrow> int \<Rightarrow> string \<Rightarrow> tmpl_data \<Rightarrow> (unit, 'w ctx) action" where
  "ctx_HTML n code tmplName data c =
     and_then (ctx_Status code (ctx_SetHeader ''Content-Type'' ''text/html'' c))
       (\<lambda>_ c1. case c_templates c1 of
          None \<Rightarrow> (Panics ''nil pointer dereference'', c1)
        | Some tmpls \<Rightarrow>
            (case tmpls tmplName data of
               (pieces, None) \<Rightarrow> (Returns (), fold ctx_Write pieces c1)
             | (pieces, Some err) \<Rightarrow> ctx_Fail n 500 err (fold ctx_Write pieces c1)))"

section \<open>Handlers and the chain\<close>

text \<open>
  A handler is a program over the methods.  What is exported of a context (its writer, path,
  parameters and status code) is open to the handler: \<open>CallPublic\<close> is code that uses it, and that
  panics when it gives a text; \<open>public\<close> keeps what such code cannot reach.
\<close>

datatype 'w handler =
    Return
  | Panic string
  | Look "'w ctx \<Rightarrow> 'w handler"
  | Client "'w \<Rightarrow> 'w" "'w handler"
  | CallNext "'w handler"
  | CallFail int string "'w handler"
  | CallStatus int "'w handler"
  | CallSetHeader string string "'w handler"
  | CallString int string "'w handler"
  | CallJSON int "error + bytes" "'w handler"
  | CallData int bytes "'w handler"
  | CallHTML int string tmpl_data "'w handler"
  | CallPublic "'w ctx \<Rightarrow> error option \<times> 'w ctx" "'w handler"
  | CallLog "'w handler"
  | Recovering "'w handler" "string \<Rightarrow> 'w handler"

definition public :: "('w ctx \<Rightarrow> error option \<times> 'w ctx) \<Rightarrow> (unit, 'w ctx) action" where
  "public f c =
     (let (err, c') = f c
      in (case err of None \<Rightarrow> Returns () | Some e \<Rightarrow> Panics e,
          c'\<lparr>c_templates := c_templates c, c_index := c_index c, c_log := c_log c, c_started := c_started c\<rparr>))"

text \<open>
  The run of one handler, where \<open>nx\<close> is what \<^verbatim>\<open>Next\<close> does and \<open>n\<close> the number of handlers.
  \<open>Recovering p q\<close> is a function with the body \<open>p\<close> and a deferred \<^verbatim>\<open>recover\<close> that runs \<open>q\<close> on the
  value of a panic.
\<close>

primrec exec :: "(unit, 'w ctx) action \<Rightarrow> nat \<Rightarrow> 'w handler \<Rightarrow> (unit, 'w ctx) action" where
  "exec nx n Return = (\<lambda>c. (Returns (), c))"
| "exec nx n (Panic e) = (\<lambda>c. (Panics e, c))"
| "exec nx n (Look f) = (\<lambda>c. exec nx n (f c) c)"
| "exec nx n (Client f p) = (\<lambda>c. exec nx n p (c\<lparr>c_world := f (c_world c)\<rparr>))"
| "exec nx n (CallNext p) = (\<lambda>c. and_then (nx c) (\<lambda>_. exec nx n p))"
| "exec nx n (CallFail code msg p) = (\<lambda>c. and_then (ctx_Fail n code msg c) (\<lambda>_. exec nx n p))"
| "exec nx n (CallStatus code p) = (\<lambda>c. and_then (ctx_Status code c) (\<lambda>_. exec nx n p))"
| "exec nx n (CallSetHeader k v p) = (\<lambda>c. exec nx n p (ctx_SetHeader k v c))"
| "exec nx n (CallString code s p) = (\<lambda>c. and_then (ctx_String code s c) (\<lambda>_. exec nx n p))"
| "exec nx n (CallJSON code obj p) = (\<lambda>c. and_then (ctx_JSON code obj c) (\<lambda>_. exec nx n p))"
| "exec nx n (CallData code data p) = (\<lambda>c. and_then (ctx_Data code data c) (\<lambda>_. exec nx n p))"
| "exec nx n (CallHTML code name data p) =
     (\<lambda>c. and_then (ctx_HTML n code name data c) (\<lambda>_. exec nx n p))"
| "exec nx n (CallPublic f p) = (\<lambda>c. and_then (public f c) (\<lambda>_. exec nx n p))"
| "exec nx n (CallLog p) =
     (\<lambda>c. exec nx n p (c\<lparr>c_log := c_log c @ [(c_StatusCode c, c_RequestURI c)]\<rparr>))"
| "exec nx n (Recovering p q) =
     (\<lambda>c. case exec nx n p c of
        (Panics e, c') \<Rightarrow> exec nx n (q e) c'
      | r \<Rightarrow> r)"

text \<open>
  The loop of \<^verbatim>\<open>Next\<close>; every round and every nested call takes one unit of fuel, and a loop out
  of fuel counts as one that hangs.  A nil handler panics when it is called.
\<close>

definition call_handler ::
  "(unit, 'w ctx) action \<Rightarrow> 'w handler option list \<Rightarrow> (unit, 'w ctx) action" where
  "call_handler nx hs c =
     (let i = nat (c_index c); c' = c\<lparr>c_started := c_started c @ [i]\<rparr>
      in case hs ! i of
           None \<Rightarrow> (Panics ''nil pointer dereference'', c')
         | Some p \<Rightarrow> exec nx (length hs) p c')"

abbreviation next_index :: "'w ctx \<Rightarrow> 'w ctx" where
  "next_index c \<equiv> c\<lparr>c_index := c_index c + 1\<rparr>"

primrec next_loop :: "nat \<Rightarrow> 'w handler option list \<Rightarrow> (unit, 'w ctx) action" where
  "next_loop 0 hs = (\<lambda>c. (Hangs, c))"
| "next_loop (Suc fuel) hs = (\<lambda>c.
     if c_index c < int (length hs) then
       and_then (call_handler (\<lambda>c. next_loop fuel hs (next_index c)) hs c)
         (\<lambda>_ c. next_loop fuel hs (next_index c))
     else (Returns (), c))"

definition ctx_Next :: "nat \<Rightarrow> 'w handler option list \<Rightarrow> (unit, 'w ctx) action" where
  "ctx_Next fuel hs c = next_loop fuel hs (next_index c)"

section \<open>The middleware that comes with the package\<close>

definition Recovery :: "'w handler" where
  "Recovery = Recovering (CallNext Return) (\<lambda>err. CallFail 500 ''Internal Server Error'' Return)"

text \<open>
  The text that \<^verbatim>\<open>Recovery\<close> writes to the log, for the frames of the stack of which the runtime tells:
  the name of a file and a line for each of them, the function \<^verbatim>\<open>Callers\<close> itself first.
\<close>

definition runtime_Callers :: "nat \<Rightarrow> nat \<Rightarrow> 'f list \<Rightarrow> 'f list" where
  "runtime_Callers skip room stack = take room (drop skip stack)"

definition trace :: "(string \<times> int) list \<Rightarrow> string \<Rightarrow> string" where
  "trace stack msg =
     (msg @ CHR 0x0A # ''Traceback:'') @
     concat (map (\<lambda>(file, line). [CHR 0x0A, CHR 0x09] @ file @ '':'' @ strconv_Itoa line) (runtime_Callers 3 32 stack))"

lemma Itoa_one_line: "CHR 0x0A \<notin> set (strconv_Itoa n)"
proof -
  have digit: "CHR 0x0A \<noteq> char_of (48 + d :: nat)" if "d < 10" for d
  proof
    assume "CHR 0x0A = char_of (48 + d)"
    then have "of_char (CHR 0x0A) = (of_char (char_of (48 + d)) :: nat)" by simp
    with that show False by simp
  qed
  have "CHR 0x0A \<notin> set (digits_rev k)" for k
    by (induction k rule: digits_rev.induct) (subst digits_rev.simps, use digit in auto)
  then show ?thesis by (simp add: strconv_Itoa_def)
qed

text \<open>One line for each frame above the function itself, at most 32, behind the message and the title.\<close>

lemma Join_newlines: "strings_Join (x # xs) [c] = x @ concat (map (\<lambda>y. c # y) xs)"
  by (induction xs arbitrary: x) simp_all

lemma trace_lines:
  assumes "CHR 0x0A \<notin> set msg" and "\<forall>(file, line) \<in> set stack. CHR 0x0A \<notin> set file"
  shows "length (strings_Split (CHR 0x0A) (trace stack msg)) = 2 + min 32 (length stack - 3)"
proof -
  let ?row = "\<lambda>(file, line). CHR 0x09 # file @ '':'' @ strconv_Itoa line"
  let ?frames = "runtime_Callers 3 32 stack"
  have "trace stack msg = strings_Join (msg # ''Traceback:'' # map ?row ?frames) [CHR 0x0A]"
    unfolding Join_newlines by (simp add: trace_def comp_def case_prod_unfold)
  moreover have "set ?frames \<subseteq> set stack"
    by (metis runtime_Callers_def order_trans set_drop_subset set_take_subset)
  with assms(2) have "\<forall>f \<in> set ?frames. CHR 0x0A \<notin> set (?row f)"
    using Itoa_one_line by auto
  with assms(1) have "strings_Split (CHR 0x0A) (strings_Join (msg # ''Traceback:'' # map ?row ?frames) [CHR 0x0A]) =
      msg # ''Traceback:'' # map ?row ?frames"
    by (intro Split_Join) auto
  ultimately show ?thesis by (simp add: runtime_Callers_def)
qed

definition Logger :: "'w handler" where
  "Logger = CallNext (CallLog Return)"

section \<open>Invariants of the chain\<close>

text \<open>The methods that write a response change neither the index nor the started handlers.\<close>

definition same_chain :: "'w ctx \<Rightarrow> 'w ctx \<Rightarrow> bool" where
  "same_chain c c' \<longleftrightarrow> c_index c' = c_index c \<and> c_started c' = c_started c"

lemma chain_methods [simp]:
  "c_index (snd (ctx_Status code c)) = c_index c" "c_started (snd (ctx_Status code c)) = c_started c"
  "c_index (ctx_SetHeader k v c) = c_index c" "c_started (ctx_SetHeader k v c) = c_started c"
  "c_index (ctx_Write d c) = c_index c" "c_started (ctx_Write d c) = c_started c"
  by (simp_all add: ctx_Status_def ctx_SetHeader_def ctx_Write_def case_prod_unfold Let_def)

lemma snd_and_then:
  "snd (and_then r f) = (case fst r of Returns a \<Rightarrow> snd (f a (snd r)) | _ \<Rightarrow> snd r)"
  by (cases "(r, f)" rule: and_then.cases) auto

lemma fst_and_then:
  "fst (and_then r f) =
     (case fst r of Returns a \<Rightarrow> fst (f a (snd r)) | Panics e \<Rightarrow> Panics e | Hangs \<Rightarrow> Hangs)"
  by (cases "(r, f)" rule: and_then.cases) auto

lemma chain_http_Error [simp]:
  "c_index (snd (ctx_http_Error e c)) = c_index c" "c_started (snd (ctx_http_Error e c)) = c_started c"
  by (simp_all add: ctx_http_Error_def Let_def case_prod_unfold)

lemma chain_write_methods [simp]:
  "c_index (snd (ctx_String code s c)) = c_index c" "c_started (snd (ctx_String code s c)) = c_started c"
  "c_index (snd (ctx_JSON code j c)) = c_index c" "c_started (snd (ctx_JSON code j c)) = c_started c"
  "c_index (snd (ctx_Data code d c)) = c_index c" "c_started (snd (ctx_Data code d c)) = c_started c"
  by (simp_all add: ctx_String_def ctx_JSON_def ctx_Data_def snd_and_then split: outcome.split sum.split)

lemma chain_Fail [simp]:
  "c_index (snd (ctx_Fail n code msg c)) = int n" "c_started (snd (ctx_Fail n code msg c)) = c_started c"
  by (simp_all add: ctx_Fail_def)

lemma chain_public [simp]:
  "c_index (snd (public f c)) = c_index c" "c_started (snd (public f c)) = c_started c"
  by (simp_all add: public_def case_prod_unfold Let_def)

lemma chain_fold_Write [simp]:
  "c_index (fold ctx_Write ds c) = c_index c" "c_started (fold ctx_Write ds c) = c_started c"
  by (induction ds arbitrary: c) simp_all

lemma chain_HTML:
  "c_index (snd (ctx_HTML n code name data c)) \<in> {c_index c, int n}"
  "c_started (snd (ctx_HTML n code name data c)) = c_started c"
  by (auto simp: ctx_HTML_def snd_and_then case_prod_unfold split: outcome.split option.split)

lemma WriteHeader_returns: "fst (WriteHeader code w) \<noteq> Hangs"
  by (simp add: WriteHeader_def)

lemma methods_return [simp]:
  "fst (ctx_Status code c) \<noteq> Hangs" "fst (ctx_String code s c) \<noteq> Hangs"
  "fst (ctx_JSON code j c) \<noteq> Hangs" "fst (ctx_Data code d c) \<noteq> Hangs" "fst (ctx_Fail n code msg c) \<noteq> Hangs"
  using WriteHeader_returns
  by (auto simp: ctx_Status_def ctx_String_def ctx_JSON_def ctx_Data_def ctx_Fail_def ctx_http_Error_def
      fst_and_then case_prod_unfold Let_def split: outcome.split sum.split)

lemma HTML_returns [simp]: "fst (ctx_HTML n code name data c) \<noteq> Hangs"
proof -
  have "fst (ctx_Status code c') \<noteq> Hangs" for c' :: "'w ctx" by simp
  then show ?thesis
    by (cases "fst (ctx_Status code (ctx_SetHeader ''Content-Type'' ''text/html'' c))")
      (simp_all add: ctx_HTML_def fst_and_then case_prod_unfold split: option.split)
qed

lemma public_returns [simp]: "fst (public f c) \<noteq> Hangs"
  by (simp add: public_def case_prod_unfold Let_def split: option.split)

text \<open>
  An invariant \<open>I\<close> of the chain: it looks only at the index and the started handlers, a jump of
  the index to the end keeps it, and so does starting a handler at its index.  \<open>I\<close> speaks of the
  states while a handler runs; in the loop it holds of the state with the index before.
\<close>

definition holds_after :: "('w ctx \<Rightarrow> bool) \<Rightarrow> unit outcome \<times> 'w ctx \<Rightarrow> bool" where
  "holds_after I r \<longleftrightarrow> (fst r \<noteq> Hangs \<longrightarrow> I (snd r))"

lemma holds_after_and_then:
  "holds_after I r \<Longrightarrow> (\<And>a c. I c \<Longrightarrow> holds_after I (f a c)) \<Longrightarrow> holds_after I (and_then r f)"
  by (cases "(r, f)" rule: and_then.cases) (auto simp: holds_after_def)

locale chain_frame =
  fixes hs :: "'w handler option list" and I :: "'w ctx \<Rightarrow> bool"
  assumes frame: "I c \<Longrightarrow> c_index c' = c_index c \<Longrightarrow> c_started c' = c_started c \<Longrightarrow> I c'"
    and jump: "I c \<Longrightarrow> I (c\<lparr>c_index := int (length hs)\<rparr>)"
begin

lemma method_keeps:
  "I c \<Longrightarrow> c_index (snd r) = c_index c \<Longrightarrow> c_started (snd r) = c_started c \<Longrightarrow> holds_after I r"
  using frame by (auto simp: holds_after_def)

lemma method_then:
  fixes r :: "unit outcome \<times> 'w ctx"
  assumes "I c" and "c_index (snd r) = c_index c" and "c_started (snd r) = c_started c"
    and "\<And>c. I c \<Longrightarrow> holds_after I (f c)"
  shows "holds_after I (and_then r (\<lambda>_. f))"
  using method_keeps [OF assms(1-3)] assms(4) by (auto intro: holds_after_and_then)

lemma exec_keeps:
  assumes nx: "\<And>c. I c \<Longrightarrow> holds_after I (nx c)"
  shows "I c \<Longrightarrow> holds_after I (exec nx (length hs) p c)"
proof (induction p arbitrary: c)
  case (Client f p)
  then show ?case using frame [OF Client.prems, of "c\<lparr>c_world := f (c_world c)\<rparr>"] by simp
next
  case (CallNext p)
  then show ?case using holds_after_and_then [OF nx [OF CallNext.prems]] by simp
next
  case (CallFail code msg p)
  have "I (snd (ctx_Fail (length hs) code msg c))"
    by (rule frame [OF jump [OF CallFail.prems]]) simp_all
  then have "holds_after I (ctx_Fail (length hs) code msg c)" by (simp add: holds_after_def)
  with CallFail.IH show ?case by (simp add: holds_after_and_then)
next
  case (CallHTML code name data p)
  let ?r = "ctx_HTML (length hs) code name data c"
  have "I (snd ?r)"
    using chain_HTML [of "length hs" code name data c] frame [OF CallHTML.prems, of "snd ?r"]
      frame [OF jump [OF CallHTML.prems], of "snd ?r"] by auto
  then have "holds_after I ?r" by (simp add: holds_after_def)
  with CallHTML.IH show ?case by (simp add: holds_after_and_then)
next
  case (CallSetHeader k v p)
  then show ?case using frame [OF CallSetHeader.prems, of "ctx_SetHeader k v c"] by simp
next
  case (CallLog p)
  then show ?case
    using frame [OF CallLog.prems, of "c\<lparr>c_log := c_log c @ [(c_StatusCode c, c_RequestURI c)]\<rparr>"] by simp
next
  case (Recovering p q)
  then have b: "holds_after I (exec nx (length hs) p c)" by blast
  show ?case
  proof (cases "exec nx (length hs) p c")
    case (Pair out c')
    with b Recovering.IH(2) [OF rangeI] show ?thesis
      by (cases out) (auto simp: holds_after_def)
  qed
qed (auto intro: method_then simp: holds_after_def [of I "(_, _)"])

end

locale chain_invariant = chain_frame hs I
  for hs :: "'w handler option list" and I :: "'w ctx \<Rightarrow> bool" +
  assumes past_end: "I c \<Longrightarrow> int (length hs) \<le> c_index c + 1 \<Longrightarrow> I (next_index c)"
    and started: "I c \<Longrightarrow> c_index c + 1 < int (length hs) \<Longrightarrow>
      (\<And>c'. I c' \<Longrightarrow> holds_after I (nx c')) \<Longrightarrow> holds_after I (call_handler nx hs (next_index c))"
begin

lemma loop_keeps: "I c \<Longrightarrow> holds_after I (next_loop fuel hs (next_index c))"
proof (induction fuel arbitrary: c)
  case (Suc fuel)
  show ?case
  proof (cases "c_index c + 1 < int (length hs)")
    case True
    have "holds_after I (call_handler (\<lambda>c. next_loop fuel hs (next_index c)) hs (next_index c))"
      by (rule started [OF Suc.prems True]) (rule Suc.IH)
    with True Suc.IH show ?thesis by (simp add: holds_after_and_then)
  next
    case False
    with past_end [OF Suc.prems] show ?thesis by (simp add: holds_after_def)
  qed
qed (simp add: holds_after_def)

lemma Next_keeps: "I c \<Longrightarrow> holds_after I (ctx_Next fuel hs c)"
  unfolding ctx_Next_def by (rule loop_keeps)

end

section \<open>Fuel\<close>

text \<open>The loop returns with the index at the end, and a handler never lowers an index below it.\<close>

definition stays :: "int \<Rightarrow> unit outcome \<times> 'w ctx \<Rightarrow> bool" where
  "stays i r \<longleftrightarrow> fst r \<noteq> Hangs \<and> i \<le> c_index (snd r)"

lemma stays_and_then:
  "stays i r \<Longrightarrow> (\<And>a c. i \<le> c_index c \<Longrightarrow> stays i (f a c)) \<Longrightarrow> stays i (and_then r f)"
  by (cases "(r, f)" rule: and_then.cases) (auto simp: stays_def)

lemma stays_method:
  fixes r :: "unit outcome \<times> 'w ctx"
  assumes "fst r \<noteq> Hangs" and "i \<le> c_index (snd r)" and "\<And>c. i \<le> c_index c \<Longrightarrow> stays i (f c)"
  shows "stays i (and_then r (\<lambda>_. f))"
  by (rule stays_and_then) (use assms in \<open>auto simp: stays_def\<close>)

lemma exec_stays:
  assumes nx: "\<And>c. i \<le> c_index c \<Longrightarrow> stays i (nx c)" and "i \<le> int n"
  shows "i \<le> c_index c \<Longrightarrow> stays i (exec nx n p c)"
proof (induction p arbitrary: c)
  case (Recovering p q)
  then have b: "stays i (exec nx n p c)" by blast
  show ?case
  proof (cases "exec nx n p c")
    case (Pair out c')
    with b Recovering.IH(2) [OF rangeI] show ?thesis by (cases out) (auto simp: stays_def)
  qed
next
  case (CallFail code msg p)
  have "stays i (ctx_Fail n code msg c)" using assms(2) by (simp add: stays_def)
  with CallFail.IH show ?case by (simp add: stays_and_then)
next
  case (CallHTML code name data p)
  then have "stays i (ctx_HTML n code name data c)"
    using assms(2) chain_HTML(1) [of n code name data c] by (auto simp: stays_def)
  with CallHTML.IH show ?case by (simp add: stays_and_then)
next
  case (CallNext p)
  then show ?case using stays_and_then [OF nx [OF CallNext.prems]] by simp
qed (auto intro: stays_method simp: stays_def [of i "(_, _)"])

lemma call_handler_stays:
  assumes "\<And>c. i \<le> c_index c \<Longrightarrow> stays i (nx c)" and "i \<le> int (length hs)" and "i \<le> c_index c"
  shows "stays i (call_handler nx hs c)"
proof (cases "hs ! nat (c_index c)")
  case None
  then show ?thesis using assms(3) by (simp add: call_handler_def Let_def stays_def)
next
  case (Some p)
  then show ?thesis using exec_stays [OF assms(1,2)] assms(3) by (simp add: call_handler_def Let_def)
qed

lemma loop_stays:
  "0 < fuel \<Longrightarrow> int (length hs) - c_index c < int fuel \<Longrightarrow> i \<le> c_index c \<Longrightarrow> i \<le> int (length hs) \<Longrightarrow>
   stays i (next_loop fuel hs c)"
proof (induction fuel arbitrary: c i)
  case (Suc fuel)
  show ?case
  proof (cases "c_index c < int (length hs)")
    case True
    let ?j = "c_index c"
    have nx: "stays ?j (next_loop fuel hs (next_index c'))" if "?j \<le> c_index c'" for c'
      using Suc.prems(2) True that by (intro Suc.IH) auto
    have call: "stays ?j (call_handler (\<lambda>c. next_loop fuel hs (next_index c)) hs c)"
      by (rule call_handler_stays [OF nx]) (use True in auto)
    have "stays ?j (and_then (call_handler (\<lambda>c. next_loop fuel hs (next_index c)) hs c)
        (\<lambda>_ c. next_loop fuel hs (next_index c)))"
      by (rule stays_and_then [OF call]) (rule nx)
    with True Suc.prems(3) show ?thesis by (simp add: stays_def)
  next
    case False
    with Suc.prems show ?thesis by (simp add: stays_def)
  qed
qed simp

lemma Next_returns:
  "-1 \<le> c_index c \<Longrightarrow> length hs < fuel \<Longrightarrow> fst (ctx_Next fuel hs c) \<noteq> Hangs"
  using loop_stays [of fuel hs "next_index c" 0] by (simp add: ctx_Next_def stays_def)

text \<open>More fuel changes nothing.\<close>

lemma exec_mono:
  assumes "\<And>c. fst (nx c) \<noteq> Hangs \<Longrightarrow> nx' c = nx c"
  shows "fst (exec nx n p c) \<noteq> Hangs \<Longrightarrow> exec nx' n p c = exec nx n p c"
proof (induction p arbitrary: c)
  case (CallNext p)
  then show ?case
    using assms [of c] by (cases "nx c"; cases "fst (nx c)") auto
next
  case (CallFail code msg p)
  then show ?case by (cases "ctx_Fail n code msg c"; cases "fst (ctx_Fail n code msg c)") auto
next
  case (CallStatus code p)
  then show ?case by (cases "ctx_Status code c"; cases "fst (ctx_Status code c)") auto
next
  case (CallString code s p)
  then show ?case by (cases "ctx_String code s c"; cases "fst (ctx_String code s c)") auto
next
  case (CallJSON code j p)
  then show ?case by (cases "ctx_JSON code j c"; cases "fst (ctx_JSON code j c)") auto
next
  case (CallData code d p)
  then show ?case by (cases "ctx_Data code d c"; cases "fst (ctx_Data code d c)") auto
next
  case (CallHTML code name d p)
  then show ?case by (cases "ctx_HTML n code name d c"; cases "fst (ctx_HTML n code name d c)") auto
next
  case (CallPublic f p)
  then show ?case by (cases "public f c"; cases "fst (public f c)") auto
next
  case (Recovering p q)
  show ?case
  proof (cases "exec nx n p c")
    case (Pair out c')
    with Recovering show ?thesis by (cases out) auto
  qed
qed auto

lemma loop_mono:
  "fst (next_loop fuel hs c) \<noteq> Hangs \<Longrightarrow> next_loop (fuel + k) hs c = next_loop fuel hs c"
proof (induction fuel arbitrary: c)
  case (Suc fuel)
  show ?case
  proof (cases "c_index c < int (length hs)")
    case True
    let ?nx = "\<lambda>fuel c. next_loop fuel hs (next_index c)"
    let ?call = "\<lambda>fuel. call_handler (?nx fuel) hs c"
    have "fst (?call fuel) \<noteq> Hangs"
      using Suc.prems True by (cases "?call fuel"; cases "fst (?call fuel)") auto
    then have call: "?call (fuel + k) = ?call fuel"
      using exec_mono [of "?nx fuel" "?nx (fuel + k)"] Suc.IH
      by (auto simp: call_handler_def Let_def split: option.split)
    with Suc True show ?thesis
      by (cases "?call fuel"; cases "fst (?call fuel)") auto
  qed simp
qed simp

section \<open>Properties\<close>

text \<open>
  C37: the chain ends for every list of handlers, whatever they do: the fuel of one unit more
  than there are handlers is enough, and more fuel gives the same result.
\<close>

theorem chain_terminates:
  assumes "-1 \<le> c_index c"
  shows "fst (ctx_Next (length hs + 1) hs c) \<noteq> Hangs \<and>
    ctx_Next (length hs + 1 + k) hs c = ctx_Next (length hs + 1) hs c"
proof -
  have r: "fst (next_loop (length hs + 1) hs (next_index c)) \<noteq> Hangs"
    using Next_returns [OF assms, of hs "length hs + 1"] by (simp only: ctx_Next_def) simp
  from loop_mono [OF r, of k] r show ?thesis by (simp only: ctx_Next_def simp_thms)
qed

theorem chain_terminates_witness:
  "fst (ctx_Next 3 [Some Logger, Some (CallNext (CallNext Return))] (newContext ''GET'' ''/'' ''/'' [] ())) \<noteq> Hangs"
  using chain_terminates [of "newContext ''GET'' ''/'' ''/'' [] ()"
      "[Some Logger, Some (CallNext (CallNext Return))]" 0]
  by (simp add: newContext_def numeral_3_eq_3)

definition prefix_started :: "nat \<Rightarrow> 'w ctx \<Rightarrow> bool" where
  "prefix_started n c \<longleftrightarrow> (\<exists>m \<le> n. c_started c = [0..<m] \<and> (c_index c + 1 = int m \<or> int n \<le> c_index c))"

interpretation prefix_frame: chain_frame hs "prefix_started (length hs)" for hs
  by unfold_locales (auto simp: prefix_started_def)

interpretation prefix: chain_invariant hs "prefix_started (length hs)" for hs
proof unfold_locales
  fix c :: "'a ctx"
  assume c: "prefix_started (length hs) c"
  then show "int (length hs) \<le> c_index c + 1 \<Longrightarrow> prefix_started (length hs) (next_index c)"
    by (auto simp: prefix_started_def)
  fix nx :: "(unit, 'a ctx) action"
  assume lt: "c_index c + 1 < int (length hs)"
    and nx: "\<And>c'. prefix_started (length hs) c' \<Longrightarrow> holds_after (prefix_started (length hs)) (nx c')"
  let ?c = "next_index c\<lparr>c_started := c_started c @ [nat (c_index c + 1)]\<rparr>"
  obtain m where m: "c_started c = [0..<m]" "c_index c + 1 = int m" "m < length hs"
    using c lt by (auto simp: prefix_started_def)
  then have "prefix_started (length hs) ?c"
    by (auto simp: prefix_started_def intro!: exI [of _ "Suc m"])
  then show "holds_after (prefix_started (length hs)) (call_handler nx hs (next_index c))"
    using prefix_frame.exec_keeps [OF nx, where c = ?c]
    by (auto simp: call_handler_def Let_def holds_after_def split: option.split)
qed

text \<open>
  The handlers of a request start in their order, each at most once and without a gap: those
  that were started are the first ones of the list, however often they call \<^verbatim>\<open>Next\<close>, fail or
  recover from panics.
\<close>

theorem handlers_start_in_order:
  "\<exists>m \<le> length hs. c_started (snd (ctx_Next (length hs + 1) hs (newContext method path uri form w))) = [0..<m]"
proof -
  let ?c = "newContext method path uri form w"
  have "fst (ctx_Next (length hs + 1) hs ?c) \<noteq> Hangs"
    by (rule Next_returns) (simp_all add: newContext_def)
  moreover have "prefix_started (length hs) ?c" by (simp add: prefix_started_def newContext_def)
  ultimately show ?thesis
    using prefix.Next_keeps [of hs ?c "length hs + 1"] by (auto simp: holds_after_def prefix_started_def)
qed

definition stopped_at :: "nat \<Rightarrow> nat \<Rightarrow> 'w ctx \<Rightarrow> bool" where
  "stopped_at i n c \<longleftrightarrow> (\<exists>m \<le> n. c_started c = [0..<m] \<and> (c_index c + 1 = int m \<or> int n \<le> c_index c) \<and>
     (m \<le> i \<or> m = Suc i \<and> int n \<le> c_index c))"

interpretation stopped_frame: chain_frame hs "stopped_at i (length hs)" for hs i
  by unfold_locales (auto simp: stopped_at_def)

lemma stopped_invariant:
  fixes hs :: "'w handler option list"
  assumes fail: "hs ! i = Some (CallFail code msg p)" and "i < length hs"
  shows "chain_invariant hs (stopped_at i (length hs))"
proof unfold_locales
  fix c :: "'w ctx"
  assume c: "stopped_at i (length hs) c"
  then show "int (length hs) \<le> c_index c + 1 \<Longrightarrow> stopped_at i (length hs) (next_index c)"
    using assms(2) by (auto simp: stopped_at_def)
  fix nx :: "(unit, 'w ctx) action"
  assume lt: "c_index c + 1 < int (length hs)"
    and nx: "\<And>c'. stopped_at i (length hs) c' \<Longrightarrow> holds_after (stopped_at i (length hs)) (nx c')"
  let ?c = "next_index c\<lparr>c_started := c_started c @ [nat (c_index c + 1)]\<rparr>"
  obtain m where m: "c_started c = [0..<m]" "c_index c + 1 = int m" "m < length hs" "m \<le> i"
    using c lt by (auto simp: stopped_at_def)
  show "holds_after (stopped_at i (length hs)) (call_handler nx hs (next_index c))"
  proof (cases "m = i")
    case True
    have "stopped_at i (length hs) (snd (ctx_Fail (length hs) code msg ?c))"
      using m True assms(2) by (auto simp: stopped_at_def intro!: exI [of _ "Suc i"])
    then have "holds_after (stopped_at i (length hs)) (ctx_Fail (length hs) code msg ?c)"
      by (simp add: holds_after_def)
    then have "holds_after (stopped_at i (length hs))
        (and_then (ctx_Fail (length hs) code msg ?c) (\<lambda>_. exec nx (length hs) p))"
      by (rule holds_after_and_then) (rule stopped_frame.exec_keeps [OF nx])
    with True m fail show ?thesis by (simp add: call_handler_def Let_def)
  next
    case False
    then have "stopped_at i (length hs) ?c"
      using m by (auto simp: stopped_at_def intro!: exI [of _ "Suc m"])
    then show ?thesis
      using stopped_frame.exec_keeps [OF nx, where c = ?c]
      by (auto simp: call_handler_def Let_def holds_after_def split: option.split)
  qed
qed

text \<open>
  A handler that begins with \<^verbatim>\<open>Fail\<close> stops the chain: no handler behind it starts, whatever
  it, or any handler before it, does afterwards.
\<close>

theorem Fail_stops_chain:
  assumes "i < length hs" and "hs ! i = Some (CallFail code msg p)"
  shows "\<exists>m \<le> Suc i. c_started (snd (ctx_Next (length hs + 1) hs (newContext method path uri form w))) = [0..<m]"
proof -
  let ?c = "newContext method path uri form w"
  have chain: "chain_invariant hs (stopped_at i (length hs))"
    by (rule stopped_invariant [OF assms(2,1)])
  have "fst (ctx_Next (length hs + 1) hs ?c) \<noteq> Hangs"
    by (rule Next_returns) (simp_all add: newContext_def)
  moreover have "stopped_at i (length hs) ?c" by (simp add: stopped_at_def newContext_def)
  ultimately have "stopped_at i (length hs) (snd (ctx_Next (length hs + 1) hs ?c))"
    using chain_invariant.Next_keeps [OF chain, of ?c "length hs + 1"] by (simp add: holds_after_def)
  then show ?thesis unfolding stopped_at_def by (metis le_SucI order_refl)
qed

theorem Fail_stops_chain_witness:
  "\<exists>m \<le> 2. c_started (snd (ctx_Next 4 [Some Logger, Some (CallFail 401 ''no'' (CallNext Return)), Some Return]
     (newContext ''GET'' ''/'' ''/'' [] ()))) = [0..<m]"
  using Fail_stops_chain [of 1 "[Some Logger, Some (CallFail 401 ''no'' (CallNext Return)), Some Return]"
      401 "''no''" "CallNext Return" "''GET''" "''/''" "''/''" "[]" "()"]
  by (simp add: eval_nat_numeral)

definition around :: "('w \<Rightarrow> 'w) \<times> ('w \<Rightarrow> 'w) \<Rightarrow> 'w handler" where
  "around fg = Client (fst fg) (CallNext (Client (snd fg) Return))"

lemma loop_past_end: "0 < fuel \<Longrightarrow> int (length hs) \<le> c_index c \<Longrightarrow> next_loop fuel hs c = (Returns (), c)"
  by (cases fuel) simp_all

lemma onion_loop:
  assumes "hs = map (Some \<circ> around) fgs @ [Some (Client h Return)]"
    and "c_index c = int i" and "i < length hs" and "length hs - i < fuel"
  shows "\<exists>c'. next_loop fuel hs c = (Returns (), c') \<and> int (length hs) \<le> c_index c' \<and>
    c_world c' = foldr (\<lambda>(f, g) k. g \<circ> k \<circ> f) (drop i fgs) h (c_world c)"
  using assms(2-4)
proof (induction "length hs - i" arbitrary: i fuel c)
  case (Suc d)
  obtain fuel' where fuel: "fuel = Suc fuel'" "0 < fuel'" using Suc.prems(3) Suc.hyps(2) by (cases fuel) auto
  have len: "length hs = Suc (length fgs)" using assms(1) by simp
  show ?case
  proof (cases "i < length fgs")
    case True
    obtain f g where fg: "fgs ! i = (f, g)" by (cases "fgs ! i")
    have hsi: "hs ! i = Some (around (f, g))" using True assms(1) fg by (simp add: nth_append)
    have drop: "drop i fgs = (f, g) # drop (Suc i) fgs" using True fg by (simp add: Cons_nth_drop_Suc [symmetric])
    let ?c = "next_index (c\<lparr>c_started := c_started c @ [i], c_world := f (c_world c)\<rparr>)"
    have "\<exists>c'. next_loop fuel' hs ?c = (Returns (), c') \<and> int (length hs) \<le> c_index c' \<and>
        c_world c' = foldr (\<lambda>(f, g) k. g \<circ> k \<circ> f) (drop (Suc i) fgs) h (c_world ?c)"
      using Suc.hyps(2) Suc.prems fuel True len by (intro Suc.hyps(1)) auto
    then obtain c' where c': "next_loop fuel' hs ?c = (Returns (), c')" "int (length hs) \<le> c_index c'"
        "c_world c' = foldr (\<lambda>(f, g) k. g \<circ> k \<circ> f) (drop (Suc i) fgs) h (f (c_world c))" by auto
    have "next_loop fuel hs c = next_loop fuel' hs (next_index (c'\<lparr>c_world := g (c_world c')\<rparr>))"
      using c'(1) Suc.prems hsi by (simp add: fuel(1) call_handler_def Let_def around_def)
    also have "\<dots> = (Returns (), next_index (c'\<lparr>c_world := g (c_world c')\<rparr>))"
      using c'(2) fuel(2) by (intro loop_past_end) auto
    finally show ?thesis using c' drop by simp
  next
    case False
    then have i: "i = length fgs" using Suc.prems(2) len by simp
    then have hsi: "hs ! i = Some (Client h Return)" using assms(1) by (simp add: nth_append)
    have "next_loop fuel hs c =
        next_loop fuel' hs (next_index (c\<lparr>c_started := c_started c @ [i], c_world := h (c_world c)\<rparr>))"
      using Suc.prems hsi by (simp add: fuel(1) call_handler_def Let_def)
    also have "\<dots> = (Returns (), next_index (c\<lparr>c_started := c_started c @ [i], c_world := h (c_world c)\<rparr>))"
      using i len Suc.prems(1) fuel(2) by (intro loop_past_end) auto
    finally show ?thesis using i len Suc.prems(1) by simp
  qed
qed simp

text \<open>
  C30: middleware wraps around what follows: when every handler but the last one does something,
  calls \<^verbatim>\<open>Next\<close> and does something else, the first parts run in order, then the last handler,
  then the second parts in reverse order.
\<close>

theorem middleware_wraps:
  "\<exists>c'. ctx_Next (length fgs + 2) (map (Some \<circ> around) fgs @ [Some (Client h Return)])
      (newContext method path uri form w) = (Returns (), c') \<and>
    c_world c' = foldr (\<lambda>(f, g) k. g \<circ> k \<circ> f) fgs h w"
proof -
  let ?hs = "map (Some \<circ> around) fgs @ [Some (Client h Return)]"
  have "\<exists>c'. next_loop (length fgs + 2) ?hs (next_index (newContext method path uri form w)) = (Returns (), c') \<and>
      int (length ?hs) \<le> c_index c' \<and>
      c_world c' = foldr (\<lambda>(f, g) k. g \<circ> k \<circ> f) (drop 0 fgs) h
        (c_world (next_index (newContext method path uri form w)))"
    by (rule onion_loop [OF refl]) (simp_all add: newContext_def)
  then show ?thesis unfolding ctx_Next_def by (auto simp: newContext_def simp del: next_loop.simps)
qed

lemma Fail_500:
  "\<exists>c'. ctx_Fail n 500 msg c = (Returns (), c') \<and> c_index c' = int n \<and> c_StatusCode c' = 500 \<and>
     c_started c' = c_started c \<and>
     (case w_sent (c_writer c) of
        None \<Rightarrow> map_option fst (w_sent (c_writer c')) = Some 500 \<and>
          w_body (c_writer c') = w_body (c_writer c) @ json_message msg
      | Some s \<Rightarrow> w_sent (c_writer c') = Some s)"
  by (auto simp: ctx_Fail_def ctx_JSON_def ctx_Status_def ctx_SetHeader_def ctx_Write_def http_Write_def
      WriteHeader_def body_allowed_def Let_def split: option.split)

lemma loop_end: "next_loop fuel hs c = (Returns (), c') \<Longrightarrow> int (length hs) \<le> c_index c'"
  by (induction fuel arbitrary: c) (auto split: if_splits)

lemma loop_one:
  "c_index c < int (length hs) \<Longrightarrow> 0 < fuel \<Longrightarrow>
   call_handler (\<lambda>c. next_loop fuel hs (next_index c)) hs c = (Returns (), c2) \<Longrightarrow>
   int (length hs) \<le> c_index c2 \<Longrightarrow> next_loop (Suc fuel) hs c = (Returns (), next_index c2)"
  by (simp add: loop_past_end)

text \<open>The state \<open>c'\<close> that recovery leaves, by the result of the handlers behind it.\<close>

fun recovered :: "unit outcome \<times> 'w ctx \<Rightarrow> 'w ctx \<Rightarrow> bool" where
  "recovered (Panics e, c1) c' \<longleftrightarrow> c_StatusCode c' = 500 \<and> c_started c' = c_started c1 \<and>
     (case w_sent (c_writer c1) of
        None \<Rightarrow> map_option fst (w_sent (c_writer c')) = Some 500 \<and>
          w_body (c_writer c') = w_body (c_writer c1) @ json_message ''Internal Server Error''
      | Some s \<Rightarrow> w_sent (c_writer c') = Some s)"
| "recovered (_, c1) c' \<longleftrightarrow> c_writer c' = c_writer c1 \<and> c_StatusCode c' = c_StatusCode c1"

lemma recovered_cong:
  "c_StatusCode c = c_StatusCode c' \<Longrightarrow> c_started c = c_started c' \<Longrightarrow> c_writer c = c_writer c' \<Longrightarrow>
   recovered r c = recovered r c'"
  by (cases "(r, c)" rule: recovered.cases) (simp_all split: option.split)

lemma Recovery_exec:
  assumes "nx = (\<lambda>c. next_loop fuel hs (next_index c))" and "fst (nx c) \<noteq> Hangs"
  shows "\<exists>c'. exec nx (length hs) Recovery c = (Returns (), c') \<and> int (length hs) \<le> c_index c' \<and>
    recovered (nx c) c'"
proof (cases "nx c")
  case (Pair out c1)
  show ?thesis
  proof (cases out)
    case (Returns u)
    then show ?thesis using Pair assms(1) loop_end by (auto simp: Recovery_def)
  next
    case (Panics e)
    with Pair Fail_500 [of "length hs" "''Internal Server Error''" c1] show ?thesis
      by (auto simp: Recovery_def)
  qed (use Pair assms(2) in simp)
qed

text \<open>The chain behind the default middleware and the state in which recovery calls \<^verbatim>\<open>Next\<close>.\<close>

definition default_chain :: "'w handler option list \<Rightarrow> 'w handler option list" where
  "default_chain rest = Some Logger # Some Recovery # rest"

definition inner_ctx :: "'w ctx \<Rightarrow> 'w ctx" where
  "inner_ctx c = c\<lparr>c_index := 1, c_started := [0, 1]\<rparr>"

lemma Default_recovers_from:
  assumes idx: "c_index c = -1" "c_started c = []"
  shows "\<exists>c'. ctx_Next (length rest + 3) (default_chain rest) c = (Returns (), c') \<and>
    recovered (ctx_Next (length rest + 1) (default_chain rest) (inner_ctx c)) c'"
proof -
  let ?hs = "default_chain rest" and ?inner = "inner_ctx c"
  let ?nx = "\<lambda>c. next_loop (Suc (length rest)) ?hs (next_index c)"
  have "stays 1 (next_loop (Suc (length rest)) ?hs (next_index ?inner))"
    by (rule loop_stays) (simp_all add: default_chain_def inner_ctx_def)
  then have "fst (?nx ?inner) \<noteq> Hangs" by (simp add: stays_def)
  from Recovery_exec [OF refl this] obtain c' where
    c': "exec ?nx (length ?hs) Recovery ?inner = (Returns (), c')" "int (length ?hs) \<le> c_index c'"
      "recovered (?nx ?inner) c'" by blast
  let ?log = "c'\<lparr>c_index := c_index c' + 2, c_log := c_log c' @ [(c_StatusCode c', c_RequestURI c')]\<rparr>"
  have three: "length rest + 3 = Suc (Suc (Suc (length rest)))" by simp
  have hs: "?hs ! 0 = Some Logger" "?hs ! 1 = Some Recovery" "length ?hs = Suc (Suc (length rest))"
    by (simp_all add: default_chain_def)
  let ?c0 = "next_index c"
  let ?c1 = "next_index (?c0\<lparr>c_started := [0]\<rparr>)"
  have r1: "call_handler ?nx ?hs ?c1 = (Returns (), c')"
    using c'(1) hs(2) idx by (simp add: call_handler_def Let_def inner_ctx_def del: next_loop.simps)
  have "next_loop (Suc (Suc (length rest))) ?hs ?c1 = (Returns (), next_index c')"
    by (rule loop_one [OF _ _ r1 c'(2)]) (use hs(3) idx in auto)
  then have r0: "call_handler (\<lambda>c. next_loop (Suc (Suc (length rest))) ?hs (next_index c)) ?hs ?c0 =
      (Returns (), (next_index c')\<lparr>c_log := c_log c' @ [(c_StatusCode c', c_RequestURI c')]\<rparr>)"
    using hs(1) idx by (simp add: call_handler_def Let_def Logger_def del: next_loop.simps)
  have "next_loop (Suc (Suc (Suc (length rest)))) ?hs ?c0 =
      (Returns (), next_index ((next_index c')\<lparr>c_log := c_log c' @ [(c_StatusCode c', c_RequestURI c')]\<rparr>))"
    by (rule loop_one [OF _ _ r0]) (use c'(2) hs(3) idx in auto)
  then have "ctx_Next (length rest + 3) ?hs c = (Returns (), ?log)"
    unfolding ctx_Next_def three by simp
  moreover have "recovered (?nx ?inner) ?log" using c'(3) recovered_cong [of c' ?log] by simp
  ultimately show ?thesis by (auto simp: ctx_Next_def simp del: next_loop.simps)
qed

text \<open>
  Behind the default middleware a request never panics: after a panic of any handler the
  status of the context is 500, and 500 is what the client gets unless an answer had been
  sent before the panic.
\<close>

theorem Default_recovers:
  "\<exists>c'. ctx_Next (length rest + 3) (default_chain rest) (newContext method path uri form w) = (Returns (), c') \<and>
    recovered (ctx_Next (length rest + 1) (default_chain rest) (inner_ctx (newContext method path uri form w))) c'"
  by (rule Default_recovers_from) (simp_all add: newContext_def)

text \<open>
  A template that fails comes too late for the status: when \<^verbatim>\<open>HTML\<close> is called with a code that
  allows a body and nothing has been sent before, the client gets that code with what the template
  wrote so far and the text of the error behind it, although the context says 500.  The chain ends.
\<close>

lemma fold_Write_sent:
  assumes "w_sent (c_writer c) = Some (code, h)" and "body_allowed code"
  shows "fold ctx_Write ds c = c\<lparr>c_writer := (c_writer c)\<lparr>w_body := w_body (c_writer c) @ concat ds\<rparr>\<rparr>"
  using assms
proof (induction ds arbitrary: c)
  case (Cons d ds)
  let ?c = "ctx_Write d c"
  have "?c = c\<lparr>c_writer := (c_writer c)\<lparr>w_body := w_body (c_writer c) @ d\<rparr>\<rparr>"
    using Cons.prems by (simp add: ctx_Write_def http_Write_def WriteHeader_def Let_def)
  with Cons.prems Cons.IH [of ?c] show ?case by simp
qed simp

theorem failed_template_keeps_status:
  assumes "w_sent (c_writer c) = None" and "body_allowed code" and "code \<le> 999"
    and "c_templates c = Some tmpls" and "tmpls name data = (pieces, Some err)"
  shows "\<exists>c'. ctx_HTML n code name data c = (Returns (), c') \<and> c_StatusCode c' = 500 \<and> c_index c' = int n \<and>
    map_option fst (w_sent (c_writer c')) = Some code \<and>
    w_body (c_writer c') = w_body (c_writer c) @ concat pieces @ json_message err"
proof -
  have "200 \<le> code" "code \<noteq> 204" "code \<noteq> 304" using assms(2) by (simp_all add: body_allowed_def)
  then obtain c1 h where st: "ctx_Status code (ctx_SetHeader ''Content-Type'' ''text/html'' c) = (Returns (), c1)"
    and c1: "w_sent (c_writer c1) = Some (code, h)" "w_body (c_writer c1) = w_body (c_writer c)"
      "c_templates c1 = Some tmpls"
    using assms(1,3,4) by (simp add: ctx_Status_def ctx_SetHeader_def WriteHeader_def Let_def)
  let ?c2 = "c1\<lparr>c_writer := (c_writer c1)\<lparr>w_body := w_body (c_writer c1) @ concat pieces\<rparr>\<rparr>"
  have "ctx_HTML n code name data c = ctx_Fail n 500 err ?c2"
    using c1(3) assms(5) fold_Write_sent [OF c1(1) assms(2)] by (simp add: ctx_HTML_def st)
  then show ?thesis
    using c1(1,2) assms(2)
    by (simp add: ctx_Fail_def ctx_JSON_def ctx_Status_def ctx_SetHeader_def ctx_Write_def http_Write_def
        WriteHeader_def Let_def)
qed

theorem failed_template_keeps_status_witness:
  "\<exists>c'. ctx_HTML 2 200 ''page'' ANil
      ((newContext ''GET'' ''/'' ''/'' [] ())\<lparr>c_templates := Some (\<lambda>name data. ([''<p>''], Some ''no field''))\<rparr>) =
    (Returns (), c') \<and> c_StatusCode c' = 500 \<and> map_option fst (w_sent (c_writer c')) = Some 200"
  using failed_template_keeps_status [of "(newContext ''GET'' ''/'' ''/'' [] ())\<lparr>c_templates :=
      Some (\<lambda>name data. ([''<p>''], Some ''no field''))\<rparr>" 200 "\<lambda>name data. ([''<p>''], Some ''no field'')"
      "''page''" ANil "[''<p>'']" "''no field''" 2]
  by (auto simp: newContext_def body_allowed_def)

text \<open>
  A value that a client escapes into the query of its request is read back by \<^verbatim>\<open>Query\<close>, and also by
  \<^verbatim>\<open>PostForm\<close> when the form does not have the key.
\<close>

definition form_value :: "string \<Rightarrow> string \<Rightarrow> string" where
  "form_value key val = url_QueryEscape key @ ''='' @ url_QueryEscape val"

theorem escaped_query_value_read:
  assumes "key \<noteq> []" and "CHR ''?'' \<notin> set path" and "c_RequestURI c = path @ ''?'' @ form_value key val"
  shows "ctx_Query key c = val"
    and "map_of (url_ParseQuery (c_Form c)) key = None \<Longrightarrow> ctx_PostForm key c = val"
proof -
  have "url_ParseQuery (raw_query (c_RequestURI c)) = [(key, val)]"
  proof -
    have q: "raw_query (c_RequestURI c) = form_value key val"
      using SplitN2_append_sep [OF assms(2), of "form_value key val"] by (simp add: raw_query_def assms(3))
    have "CHR ''&'' \<notin> set (form_value key val)"
      using QueryEscape_safe [of "CHR ''&''"] by (simp add: form_value_def separators_def)
    then have "url_ParseQuery (form_value key val) = [(key, val)]"
      using query_pair_escaped [OF assms(1), of val] Split_no_sep
      by (simp add: url_ParseQuery_def form_value_def map_filter_def)
    with q show ?thesis by simp
  qed
  then show "ctx_Query key c = val"
    and "map_of (url_ParseQuery (c_Form c)) key = None \<Longrightarrow> ctx_PostForm key c = val"
    by (simp_all add: ctx_Query_def ctx_PostForm_def http_FormValue_def values_Get_def map_add_def)
qed

end
