(* ===== verification/Engine.thy ===== *)
theory Engine
  imports Router Context
begin

text \<open>
  Package \<^verbatim>\<open>gee\<close>, \<^verbatim>\<open>router_group.go\<close>, \<^verbatim>\<open>gee.go\<close> and the method \<^verbatim>\<open>handle\<close> of \<^verbatim>\<open>router.go\<close>: groups of
  routes with a common prefix and common middleware, and the engine that serves a request.
  Every group is in the engine's list, so the pointer to a group is its position there; the
  root group, which the engine embeds, is at position 0.
\<close>

section \<open>Groups and the engine\<close>

record 'w RouterGroup =
  g_prefix :: string
  g_middlewares :: "'w handler option list"
  g_parent :: "nat option"

text \<open>The functions that templates may call, by their names.\<close>

type_synonym funcMap = "string \<Rightarrow> (tmpl_data list \<Rightarrow> error + tmpl_data) option"

record 'w Engine =
  e_groups :: "'w RouterGroup list"
  e_router :: "'w handler router"
  e_templates :: "templates option"
  e_funcMap :: funcMap

definition engine_New :: "'w Engine" where
  "engine_New =
     \<lparr>e_groups = [\<lparr>g_prefix = [], g_middlewares = [], g_parent = None\<rparr>], e_router = newRouter,
      e_templates = None, e_funcMap = Map.empty\<rparr>"

definition group_Use :: "nat \<Rightarrow> 'w handler option list \<Rightarrow> 'w Engine \<Rightarrow> 'w Engine" where
  "group_Use i mws e =
     (let g = e_groups e ! i
      in e\<lparr>e_groups := (e_groups e)[i := g\<lparr>g_middlewares := g_middlewares g @ mws\<rparr>]\<rparr>)"

definition engine_Default :: "'w Engine" where
  "engine_Default = group_Use 0 [Some Logger, Some Recovery] engine_New"

text \<open>The new group is the last one of the list.\<close>

definition group_Group :: "nat \<Rightarrow> string \<Rightarrow> 'w Engine \<Rightarrow> nat \<times> 'w Engine" where
  "group_Group i pre e =
     (length (e_groups e),
      e\<lparr>e_groups := e_groups e @
        [\<lparr>g_prefix = g_prefix (e_groups e ! i) @ pre, g_middlewares = [], g_parent = Some i\<rparr>]\<rparr>)"

definition group_addRoute ::
  "nat \<Rightarrow> string \<Rightarrow> string \<Rightarrow> 'w handler option \<Rightarrow> 'w Engine \<Rightarrow> 'w Engine option" where
  "group_addRoute i method path handler e =
     (let pattern = g_prefix (e_groups e ! i) @ path
      in map_option (\<lambda>r. e\<lparr>e_router := r\<rparr>) (addRoute method pattern handler (e_router e)))"

definition group_GET :: "nat \<Rightarrow> string \<Rightarrow> 'w handler option \<Rightarrow> 'w Engine \<Rightarrow> 'w Engine option" where
  "group_GET i pattern handler e = group_addRoute i ''GET'' pattern handler e"

definition group_POST :: "nat \<Rightarrow> string \<Rightarrow> 'w handler option \<Rightarrow> 'w Engine \<Rightarrow> 'w Engine option" where
  "group_POST i pattern handler e = group_addRoute i ''POST'' pattern handler e"

definition engine_SetFuncMap :: "funcMap \<Rightarrow> 'w Engine \<Rightarrow> 'w Engine" where
  "engine_SetFuncMap funcMap e = e\<lparr>e_funcMap := funcMap\<rparr>"

text \<open>
  \<open>ParseGlob\<close> is the template parser: for the functions and the pattern of the files it gives the
  templates or an error, on which \<^verbatim>\<open>template.Must\<close> panics.
\<close>

definition engine_LoadHTMLGlob ::
  "(funcMap \<Rightarrow> string \<Rightarrow> error + templates) \<Rightarrow> string \<Rightarrow> (unit, 'w Engine) action" where
  "engine_LoadHTMLGlob ParseGlob pattern e =
     (case ParseGlob (e_funcMap e) pattern of
        Inl err \<Rightarrow> (Panics err, e)
      | Inr tmpls \<Rightarrow> (Returns (), e\<lparr>e_templates := Some tmpls\<rparr>))"

section \<open>Serving a request\<close>

definition not_found :: "'w handler" where
  "not_found = Look (\<lambda>c. CallString 404 (''404 NOT FOUND: '' @ c_Path c @ [CHR 0x0A]) Return)"

text \<open>The fuel is one unit more than there are handlers, which is enough for any of them.\<close>

definition router_handle ::
  "'w handler router \<Rightarrow> 'w handler option list \<Rightarrow> (unit, 'w ctx) action" where
  "router_handle r mws c =
     (case getRoute (c_Method c) (c_Path c) r of
        Returns None \<Rightarrow> ctx_Next (length mws + 2) (mws @ [Some not_found]) c
      | Returns (Some (n, params)) \<Rightarrow>
          ctx_Next (length mws + 2) (mws @ [handlers r (route_key (c_Method c) (n_pattern n))])
            (c\<lparr>c_Params := params\<rparr>)
      | Panics e \<Rightarrow> (Panics e, c)
      | Hangs \<Rightarrow> (Hangs, c))"

definition engine_middlewares :: "string \<Rightarrow> 'w Engine \<Rightarrow> 'w handler option list" where
  "engine_middlewares path e =
     concat (map g_middlewares (filter (\<lambda>g. strings_HasPrefix path (g_prefix g)) (e_groups e)))"

definition engine_ServeHTTP ::
  "'w Engine \<Rightarrow> string \<Rightarrow> string \<Rightarrow> string \<Rightarrow> string \<Rightarrow> 'w \<Rightarrow> unit outcome \<times> 'w ctx" where
  "engine_ServeHTTP e method path uri form w =
     router_handle (e_router e) (engine_middlewares path e)
       ((newContext method path uri form w)\<lparr>c_templates := e_templates e\<rparr>)"

section \<open>Setting up an engine\<close>

text \<open>A sequence of calls on groups that exist; \<^term>\<open>None\<close> is a call on no group or a panic.\<close>

datatype 'w group_call =
    SUse nat "'w handler option list"
  | SGroup nat string
  | SRoute nat string string "'w handler option"
  | SFuncMap funcMap
  | SLoad "funcMap \<Rightarrow> string \<Rightarrow> error + templates" string

fun apply_call :: "'w group_call \<Rightarrow> 'w Engine \<Rightarrow> 'w Engine option" where
  "apply_call (SUse i mws) e =
     (if i < length (e_groups e) then Some (group_Use i mws e) else None)"
| "apply_call (SGroup i pre) e =
     (if i < length (e_groups e) then Some (snd (group_Group i pre e)) else None)"
| "apply_call (SRoute i m path h) e =
     (if i < length (e_groups e) then group_addRoute i m path h e else None)"
| "apply_call (SFuncMap funcMap) e = Some (engine_SetFuncMap funcMap e)"
| "apply_call (SLoad ParseGlob pattern) e =
     (case engine_LoadHTMLGlob ParseGlob pattern e of (Returns _, e') \<Rightarrow> Some e' | _ \<Rightarrow> None)"

fun run_calls :: "'w group_call list \<Rightarrow> 'w Engine \<Rightarrow> 'w Engine option" where
  "run_calls [] e = Some e"
| "run_calls (s # ss) e = (case apply_call s e of None \<Rightarrow> None | Some e' \<Rightarrow> run_calls ss e')"

text \<open>
  The invariant: the root has no prefix; every other group comes after its parent and extends the
  parent's prefix; the router is the result of registrations.
\<close>

definition engine_inv :: "'w Engine \<Rightarrow> bool" where
  "engine_inv e \<longleftrightarrow> e_groups e \<noteq> [] \<and> g_prefix (e_groups e ! 0) = [] \<and>
     (\<forall>i < length (e_groups e). \<forall>j. g_parent (e_groups e ! i) = Some j \<longrightarrow>
        j < i \<and> (\<exists>s. g_prefix (e_groups e ! i) = g_prefix (e_groups e ! j) @ s)) \<and>
     (\<exists>rs. add_routes rs newRouter = Some (e_router e))"

lemma engine_inv_New: "engine_inv engine_New"
  by (auto simp: engine_inv_def engine_New_def intro: exI [of _ "[]"])

lemma engine_inv_Use: "engine_inv e \<Longrightarrow> i < length (e_groups e) \<Longrightarrow> engine_inv (group_Use i mws e)"
  by (auto simp: engine_inv_def group_Use_def Let_def nth_list_update)

lemma engine_inv_templates:
  "apply_call (SFuncMap fm) e = Some e' \<Longrightarrow> e_groups e' = e_groups e \<and> e_router e' = e_router e"
  "apply_call (SLoad ParseGlob pattern) e = Some e' \<Longrightarrow> e_groups e' = e_groups e \<and> e_router e' = e_router e"
  by (auto simp: engine_SetFuncMap_def engine_LoadHTMLGlob_def split: sum.splits)

lemma engine_inv_cong: "e_groups e' = e_groups e \<Longrightarrow> e_router e' = e_router e \<Longrightarrow> engine_inv e' = engine_inv e"
  by (simp add: engine_inv_def)

lemma engine_inv_Group:
  assumes "engine_inv e" and "i < length (e_groups e)"
  shows "engine_inv (snd (group_Group i pre e))"
proof -
  have "j < length (e_groups e)" if "k < length (e_groups e)" "g_parent (e_groups e ! k) = Some j" for k j
    using assms(1) that unfolding engine_inv_def by (meson less_trans)
  with assms show ?thesis
    by (auto simp: engine_inv_def group_Group_def nth_append less_Suc_eq) 
qed

lemma engine_inv_addRoute:
  assumes "engine_inv e" and "group_addRoute i m path h e = Some e'"
  shows "engine_inv e'"
proof -
  obtain rs where rs: "add_routes rs newRouter = Some (e_router e)" using assms(1) by (auto simp: engine_inv_def)
  obtain r where r: "addRoute m (g_prefix (e_groups e ! i) @ path) h (e_router e) = Some r" "e' = e\<lparr>e_router := r\<rparr>"
    using assms(2) by (auto simp: group_addRoute_def Let_def)
  then have "add_routes (rs @ [(m, g_prefix (e_groups e ! i) @ path, h)]) newRouter = Some r"
    by (simp add: add_routes_append rs)
  with assms(1) r(2) show ?thesis by (auto simp: engine_inv_def)
qed

lemma engine_inv_run: "run_calls ss e = Some e' \<Longrightarrow> engine_inv e \<Longrightarrow> engine_inv e'"
proof (induction ss e rule: run_calls.induct)
  case (2 s ss e)
  then obtain e1 where e1: "apply_call s e = Some e1" "run_calls ss e1 = Some e'"
    by (auto split: option.splits)
  have "engine_inv e1"
  proof (cases s)
    case (SFuncMap fm)
    with e1(1) "2.prems"(2) engine_inv_templates(1) engine_inv_cong show ?thesis by metis
  next
    case (SLoad ParseGlob pattern)
    with e1(1) "2.prems"(2) engine_inv_templates(2) engine_inv_cong show ?thesis by metis
  qed (use e1(1) "2.prems"(2) engine_inv_Use engine_inv_Group engine_inv_addRoute in \<open>auto split: if_splits\<close>)
  with "2.IH" [OF e1(1,2)] show ?case by blast
qed simp

inductive ancestor :: "'w Engine \<Rightarrow> nat \<Rightarrow> nat \<Rightarrow> bool" for e where
  parent: "g_parent (e_groups e ! i) = Some j \<Longrightarrow> ancestor e j i"
| further: "g_parent (e_groups e ! i) = Some k \<Longrightarrow> ancestor e j k \<Longrightarrow> ancestor e j i"

lemma ancestor_prefix:
  "ancestor e j i \<Longrightarrow> engine_inv e \<Longrightarrow> i < length (e_groups e) \<Longrightarrow>
   j < i \<and> (\<exists>s. g_prefix (e_groups e ! i) = g_prefix (e_groups e ! j) @ s)"
proof (induction rule: ancestor.induct)
  case (parent i j)
  then show ?case by (auto simp: engine_inv_def)
next
  case (further i k j)
  then have "k < i" "\<exists>s. g_prefix (e_groups e ! i) = g_prefix (e_groups e ! k) @ s"
    by (auto simp: engine_inv_def)
  with further show ?case by fastforce
qed

lemma split_two:
  assumes "j < i" and "i < length xs"
  shows "xs = take j xs @ xs ! j # take (i - Suc j) (drop (Suc j) xs) @ xs ! i # drop (Suc i) xs"
proof -
  have "xs = take j xs @ xs ! j # drop (Suc j) xs" using assms by (simp add: id_take_nth_drop)
  moreover have "drop (Suc j) xs = take (i - Suc j) (drop (Suc j) xs) @ xs ! i # drop (Suc i) xs"
    using id_take_nth_drop [of "i - Suc j" "drop (Suc j) xs"] assms by simp
  ultimately show ?thesis by metis
qed

section \<open>Properties\<close>

text \<open>
  C17: middleware is inherited: when a request's path begins with the prefix of a group, the
  middleware of the group runs, and that of every group above it runs before.
\<close>

theorem group_middleware_inherited:
  assumes "run_calls ss engine_New = Some e" and "ancestor e j i" and "i < length (e_groups e)"
    and "strings_HasPrefix path (g_prefix (e_groups e ! i))"
  shows "\<exists>xs ys zs. engine_middlewares path e =
    xs @ g_middlewares (e_groups e ! j) @ ys @ g_middlewares (e_groups e ! i) @ zs"
proof -
  have inv: "engine_inv e" by (rule engine_inv_run [OF assms(1) engine_inv_New])
  from ancestor_prefix [OF assms(2) inv assms(3)] obtain s where
    ji: "j < i" "g_prefix (e_groups e ! i) = g_prefix (e_groups e ! j) @ s" by blast
  then have "strings_HasPrefix path (g_prefix (e_groups e ! j))"
    using assms(4) HasPrefix_trans by metis
  then show ?thesis
    unfolding engine_middlewares_def
    by (subst split_two [OF ji(1) assms(3)]) (use assms(4) in auto)
qed

definition api_calls :: "nat group_call list" where
  "api_calls = [SGroup 0 ''/api'', SUse 1 [Some Logger], SGroup 1 ''/v1'', SUse 2 [Some Return],
     SRoute 2 ''GET'' ''/users'' (Some Return)]"

lemma api_calls_run: "\<exists>e. run_calls api_calls engine_New = Some e \<and> length (e_groups e) = 3 \<and>
    map g_prefix (e_groups e) = [[], ''/api'', ''/api/v1''] \<and> g_parent (e_groups e ! 2) = Some 1 \<and>
    g_middlewares (e_groups e ! 0) = [] \<and>
    g_middlewares (e_groups e ! 1) = [Some Logger] \<and> g_middlewares (e_groups e ! 2) = [Some Return]"
proof -
  obtain r where "addRoute ''GET'' ''/api/v1/users'' (Some Return :: nat handler option) newRouter = Some r"
    using addRoute_total by blast
  then show ?thesis
    by (simp add: api_calls_def engine_New_def group_Group_def group_Use_def group_addRoute_def Let_def
        numeral_eq_Suc)
qed

theorem group_middleware_inherited_witness:
  "\<exists>e xs ys zs. run_calls api_calls engine_New = Some e \<and>
     engine_middlewares ''/api/v1/users'' e = xs @ [Some Logger] @ ys @ [Some Return] @ zs"
proof -
  obtain e where e: "run_calls api_calls engine_New = Some e" "length (e_groups e) = 3"
      "map g_prefix (e_groups e) = [[], ''/api'', ''/api/v1'']" "g_parent (e_groups e ! 2) = Some 1"
      "g_middlewares (e_groups e ! 1) = [Some Logger]" "g_middlewares (e_groups e ! 2) = [Some Return]"
    using api_calls_run by (elim exE conjE) (rule that)
  have "map g_prefix (e_groups e) ! 2 = ''/api/v1''" by (simp add: e(3))
  then have "g_prefix (e_groups e ! 2) = ''/api/v1''" using e(2) by simp
  then have "strings_HasPrefix ''/api/v1/users'' (g_prefix (e_groups e ! 2))"
    by (simp add: strings_HasPrefix_def)
  from group_middleware_inherited [OF e(1) ancestor.parent [of e 2 1, OF e(4)] _ this] e(2)
  obtain xs ys zs where "engine_middlewares ''/api/v1/users'' e = xs @ [Some Logger] @ ys @ [Some Return] @ zs"
    unfolding e(5,6) by auto
  with e(1) show ?thesis by blast
qed

lemma getRoute_slash: "getRoute m (CHR ''/'' # path) r = getRoute m path r"
  by (simp only: getRoute_root parse_slash)

text \<open>
  The routes and the middleware disagree about slashes.  Doubling the slash at the beginning
  of a path finds the same route with the same parameters, but of the middleware only that of
  groups with an empty prefix runs, if every other prefix starts with a single slash.
\<close>

theorem double_slash_skips_middleware:
  assumes "\<forall>g \<in> set (e_groups e). g_prefix g = [] \<or> (\<exists>s. g_prefix g = CHR ''/'' # s \<and> s \<noteq> [] \<and> hd s \<noteq> CHR ''/'')"
  shows "getRoute m (''/'' @ ''/'' @ path) (e_router e) = getRoute m (''/'' @ path) (e_router e) \<and>
    engine_middlewares (''/'' @ ''/'' @ path) e =
      concat (map g_middlewares (filter (\<lambda>g. g_prefix g = []) (e_groups e)))"
proof -
  have "strings_HasPrefix (''/'' @ ''/'' @ path) (g_prefix g) \<longleftrightarrow> g_prefix g = []"
    if "g \<in> set (e_groups e)" for g
    using assms that by (fastforce simp: HasPrefix_iff neq_Nil_conv)
  then show ?thesis
    by (simp add: getRoute_slash engine_middlewares_def cong: filter_cong)
qed

theorem double_slash_skips_middleware_witness:
  "\<exists>e. run_calls api_calls engine_New = Some e \<and> engine_middlewares ''//api/v1/users'' e = []"
proof -
  obtain e where e: "run_calls api_calls engine_New = Some e"
      "map g_prefix (e_groups e) = [[], ''/api'', ''/api/v1'']" "g_middlewares (e_groups e ! 0) = []"
    using api_calls_run by (elim exE conjE) (rule that)
  have prefixes: "set (map g_prefix (e_groups e)) = {[], ''/api'', ''/api/v1''}" unfolding e(2) by simp
  have "\<forall>g \<in> set (e_groups e). g_prefix g = [] \<or> (\<exists>s. g_prefix g = CHR ''/'' # s \<and> s \<noteq> [] \<and> hd s \<noteq> CHR ''/'')"
  proof
    fix g assume "g \<in> set (e_groups e)"
    then have "g_prefix g \<in> {[], ''/api'', ''/api/v1''}" using prefixes by auto
    then show "g_prefix g = [] \<or> (\<exists>s. g_prefix g = CHR ''/'' # s \<and> s \<noteq> [] \<and> hd s \<noteq> CHR ''/'')" by auto
  qed
  note skip = double_slash_skips_middleware [OF this, of "''GET''" "''api/v1/users''"]
  obtain g0 g1 g2 where g: "e_groups e = [g0, g1, g2]" using e(2) by (auto simp: map_eq_Cons_conv)
  then have "g_prefix g0 = []" "g_prefix g1 \<noteq> []" "g_prefix g2 \<noteq> []" "g_middlewares g0 = []"
    using e(2,3) by auto
  with skip g e(1) show ?thesis by auto
qed

lemma getRoute_returns:
  assumes "add_routes rs newRouter = Some r"
  shows "\<exists>res. getRoute m path r = Returns res"
  using found_params [OF add_routes_ok [OF assms]] by (fastforce simp: getRoute_root split: option.split)

definition has_default :: "'w Engine \<Rightarrow> bool" where
  "has_default e \<longleftrightarrow> (\<exists>mws. g_middlewares (e_groups e ! 0) = Some Logger # Some Recovery # mws)"

lemma has_default_run:
  "run_calls ss e = Some e' \<Longrightarrow> e_groups e \<noteq> [] \<Longrightarrow> has_default e \<Longrightarrow> has_default e'"
proof (induction ss e rule: run_calls.induct)
  case (2 s ss e)
  then obtain e1 where e1: "apply_call s e = Some e1" "run_calls ss e1 = Some e'"
    by (auto split: option.splits)
  have "e_groups e1 \<noteq> [] \<and> has_default e1"
  proof (cases s)
    case (SUse i mws)
    with e1(1) "2.prems" show ?thesis
      by (cases "i = 0") (auto simp: has_default_def group_Use_def Let_def nth_list_update split: if_splits)
  next
    case (SGroup i pre)
    with e1(1) "2.prems" show ?thesis
      by (auto simp: has_default_def group_Group_def nth_append split: if_splits)
  next
    case (SRoute i m path h)
    with e1(1) "2.prems" show ?thesis
      by (auto simp: has_default_def group_addRoute_def Let_def split: if_splits)
  next
    case (SFuncMap fm)
    with e1(1) "2.prems" engine_inv_templates(1) show ?thesis unfolding has_default_def by metis
  next
    case (SLoad ParseGlob pattern)
    with e1(1) "2.prems" engine_inv_templates(2) show ?thesis unfolding has_default_def by metis
  qed
  with "2.IH" [OF e1(1,2)] show ?case by blast
qed simp

lemma recovers_with_params:
  "\<exists>c'. ctx_Next (length rest + 3) (default_chain rest) ((newContext m path uri form w)\<lparr>c_templates := t, c_Params := ps\<rparr>) = (Returns (), c')"
  using Default_recovers_from [of "(newContext m path uri form w)\<lparr>c_templates := t, c_Params := ps\<rparr>" rest]
  by (auto simp: newContext_def)

text \<open>
  C38: an engine made by \<^verbatim>\<open>Default\<close> answers every request: whatever is set up on it afterwards and
  whatever its handlers and middleware do, no panic escapes from \<^verbatim>\<open>ServeHTTP\<close> and it returns.
\<close>

theorem Default_always_answers:
  assumes "run_calls ss engine_Default = Some e"
  shows "\<exists>c'. engine_ServeHTTP e method path uri form w = (Returns (), c')"
proof -
  have "engine_inv (engine_Default :: 'a Engine)"
    unfolding engine_Default_def by (rule engine_inv_Use [OF engine_inv_New]) (simp add: engine_New_def)
  then have inv: "engine_inv e" by (rule engine_inv_run [OF assms])
  have "has_default e"
    by (rule has_default_run [OF assms])
      (simp_all add: engine_Default_def has_default_def group_Use_def engine_New_def)
  then obtain mws where mws: "g_middlewares (e_groups e ! 0) = Some Logger # Some Recovery # mws"
    by (auto simp: has_default_def)
  have "e_groups e = e_groups e ! 0 # tl (e_groups e)"
    using inv by (cases "e_groups e") (auto simp: engine_inv_def)
  then obtain rest where rest: "engine_middlewares path e = Some Logger # Some Recovery # rest"
    using inv mws unfolding engine_middlewares_def engine_inv_def
    by (metis (no_types, lifting) HasPrefix_Nil append_Cons concat.simps(2) filter.simps(2) list.simps(9))
  obtain res where "getRoute method path (e_router e) = Returns res"
    using inv getRoute_returns by (fastforce simp: engine_inv_def)
  then show ?thesis
    using recovers_with_params [of "rest @ [h]" ps t "method" "path" uri form w for h ps t]
      recovers_with_params [of "rest @ [h]" Map.empty t "method" "path" uri form w for h t]
    by (cases res) (auto simp: engine_ServeHTTP_def router_handle_def newContext_def rest default_chain_def
        numeral_eq_Suc)
qed

theorem Default_always_answers_witness:
  "\<exists>e c'. run_calls [SRoute 0 ''GET'' ''/panic'' (Some (Panic ''index out of range''))] engine_Default = Some e \<and>
     engine_ServeHTTP e ''GET'' ''/panic'' ''/panic'' [] () = (Returns (), c')"
proof -
  obtain r where "addRoute ''GET'' ''/panic'' (Some (Panic ''index out of range'' :: unit handler)) newRouter = Some r"
    using addRoute_total by blast
  then obtain e where e: "run_calls [SRoute 0 ''GET'' ''/panic'' (Some (Panic ''index out of range''))]
      (engine_Default :: unit Engine) = Some e"
    by (auto simp: engine_Default_def engine_New_def group_Use_def group_addRoute_def Let_def)
  with Default_always_answers [OF e, of "''GET''" "''/panic''" "''/panic''" "[]" "()"] show ?thesis by blast
qed

end
