(* ===== verification/NetFile.thy ===== *)
theory NetFile
  imports Context
begin

text \<open>
  The parts of the packages \<^verbatim>\<open>path\<close> and \<^verbatim>\<open>net/http\<close> that serve files: clean paths, the file system
  \<^verbatim>\<open>http.Dir\<close>, the file server and \<^verbatim>\<open>http.StripPrefix\<close>.  The disk is a parameter, and so are the
  content type of a file and the listing of a directory.
\<close>

section \<open>Clean paths\<close>

text \<open>\<^verbatim>\<open>path.Clean\<close>, segment by segment; \<open>rooted\<close> tells whether the path begins with a slash.\<close>

definition clean_step :: "bool \<Rightarrow> string \<Rightarrow> string list \<Rightarrow> string list" where
  "clean_step rooted seg st =
     (if seg = [] \<or> seg = ''.'' then st
      else if seg = ''..'' then
        (if st \<noteq> [] \<and> last st \<noteq> ''..'' then butlast st else if rooted then st else st @ [''..''])
      else st @ [seg])"

definition clean_segments :: "bool \<Rightarrow> string \<Rightarrow> string list" where
  "clean_segments rooted p = fold (clean_step rooted) (strings_Split (CHR ''/'') p) []"

definition path_Clean :: "string \<Rightarrow> string" where
  "path_Clean p =
     (let rooted = strings_HasPrefix p ''/''; segs = clean_segments rooted p
      in if rooted then ''/'' @ strings_Join segs ''/''
         else if segs = [] then ''.'' else strings_Join segs ''/'')"

definition path_Join :: "string list \<Rightarrow> string" where
  "path_Join elems =
     (case dropWhile (\<lambda>e. e = []) elems of
        [] \<Rightarrow> []
      | es \<Rightarrow> path_Clean (strings_Join es ''/''))"

text \<open>The last segment of a path, without the slashes behind it.\<close>

definition path_Base :: "string \<Rightarrow> string" where
  "path_Base p =
     (if p = [] then ''.''
      else (let q = rev (dropWhile (\<lambda>c. c = CHR ''/'') (rev p))
            in if q = [] then ''/'' else rev (takeWhile (\<lambda>c. c \<noteq> CHR ''/'') (rev q))))"

definition strings_HasSuffix :: "string \<Rightarrow> string \<Rightarrow> bool" where
  "strings_HasSuffix s t \<longleftrightarrow> drop (length s - length t) s = t"

definition strings_TrimPrefix :: "string \<Rightarrow> string \<Rightarrow> string" where
  "strings_TrimPrefix s p = (if strings_HasPrefix s p then drop (length p) s else s)"

section \<open>Files\<close>

datatype open_error = NotExist | Permission | OtherError

datatype fs_entry = File bytes | Directory

type_synonym file_system = "string \<Rightarrow> open_error + fs_entry"

text \<open>\<^verbatim>\<open>http.Dir(root).Open\<close>: \<open>disk\<close> opens a file by its full name.\<close>

definition http_Dir :: "file_system \<Rightarrow> string \<Rightarrow> file_system" where
  "http_Dir disk root name =
     disk (path_Join [if root = [] then ''.'' else root, tl (path_Clean (''/'' @ name))])"

definition set_header :: "string \<Rightarrow> string \<Rightarrow> response \<Rightarrow> response" where
  "set_header key v w = w\<lparr>w_header := (w_header w)(key \<mapsto> v)\<rparr>"

definition resp_Error :: "string \<Rightarrow> int \<Rightarrow> (unit, response) action" where
  "resp_Error msg code w =
     and_then (WriteHeader code (set_header ''X-Content-Type-Options'' ''nosniff''
         (set_header ''Content-Type'' ''text/plain; charset=utf-8'' w)))
       (\<lambda>_ w1. (Returns (), http_Write (msg @ [CHR 0x0A]) w1))"

definition resp_NotFound :: "(unit, response) action" where
  "resp_NotFound = resp_Error ''404 page not found'' 404"

definition toHTTPError :: "open_error \<Rightarrow> string \<times> int" where
  "toHTTPError e =
     (case e of
        NotExist \<Rightarrow> (''404 page not found'', 404)
      | Permission \<Rightarrow> (''403 Forbidden'', 403)
      | OtherError \<Rightarrow> (''500 Internal Server Error'', 500))"

definition localRedirect :: "string \<Rightarrow> string \<Rightarrow> (unit, response) action" where
  "localRedirect uri newPath w =
     (let q = raw_query uri
      in WriteHeader 301 (set_header ''Location'' (newPath @ (if q = [] then [] else ''?'' @ q)) w))"

text \<open>
  What the library decides for itself: the content type of a file, by its name and content, and
  the page that lists a directory.
\<close>

record file_types =
  mime_type :: "string \<Rightarrow> bytes \<Rightarrow> string"
  dir_listing :: "string \<Rightarrow> bytes"

text \<open>A request without conditions and ranges: the answer is the whole content.\<close>

definition serveContent :: "file_types \<Rightarrow> string \<Rightarrow> bytes \<Rightarrow> (unit, response) action" where
  "serveContent ft name data w =
     and_then (WriteHeader 200
         (if w_header w ''Content-Type'' = None then set_header ''Content-Type'' (mime_type ft name data) w else w))
       (\<lambda>_ w1. (Returns (), http_Write data w1))"

definition index_page :: string where
  "index_page = ''/index.html''"

definition list_dir :: "file_types \<Rightarrow> string \<Rightarrow> (unit, response) action" where
  "list_dir ft name w =
     and_then (WriteHeader 200 (set_header ''Content-Type'' ''text/html; charset=utf-8'' w))
       (\<lambda>_ w1. (Returns (), http_Write (dir_listing ft name) w1))"

definition serve_dir :: "file_types \<Rightarrow> file_system \<Rightarrow> string \<Rightarrow> (unit, response) action" where
  "serve_dir ft fs name w =
     (let index = (if strings_HasSuffix name ''/'' then butlast name else name) @ index_page
      in case fs index of
           Inr (File data) \<Rightarrow> serveContent ft index data w
         | Inr Directory \<Rightarrow> list_dir ft index w
         | Inl _ \<Rightarrow> list_dir ft name w)"

text \<open>\<open>url\<close> is the path of the request, \<open>uri\<close> its request URI and \<open>name\<close> the clean path.\<close>

definition serveFile :: "file_types \<Rightarrow> file_system \<Rightarrow> string \<Rightarrow> string \<Rightarrow> string \<Rightarrow> (unit, response) action" where
  "serveFile ft fs url uri name w =
     (if strings_HasSuffix url index_page then localRedirect uri ''./'' w
      else case fs name of
        Inl err \<Rightarrow> (case toHTTPError err of (msg, code) \<Rightarrow> resp_Error msg code w)
      | Inr Directory \<Rightarrow>
          if strings_HasSuffix url ''/'' then serve_dir ft fs name w
          else localRedirect uri (path_Base url @ ''/'') w
      | Inr (File data) \<Rightarrow>
          if strings_HasSuffix url ''/'' then
            (if path_Base url = ''/'' \<or> path_Base url = ''.''
             then resp_Error ''500 Internal Server Error'' 500 w
             else localRedirect uri (''../'' @ path_Base url) w)
          else serveContent ft name data w)"

definition FileServer :: "file_types \<Rightarrow> file_system \<Rightarrow> string \<Rightarrow> string \<Rightarrow> (unit, response) action" where
  "FileServer ft fs path uri w =
     (let upath = (if strings_HasPrefix path ''/'' then path else ''/'' @ path)
      in serveFile ft fs upath uri (path_Clean upath) w)"

text \<open>The path of the request has the default encoding, so that its raw path is empty.\<close>

definition StripPrefix ::
  "string \<Rightarrow> (string \<Rightarrow> string \<Rightarrow> (unit, response) action) \<Rightarrow> string \<Rightarrow> string \<Rightarrow> (unit, response) action" where
  "StripPrefix pre h path uri w =
     (if pre = [] then h path uri w
      else (let p = strings_TrimPrefix path pre
            in if length p < length path then h p uri w else resp_NotFound w))"

section \<open>Facts\<close>

text \<open>A segment that a clean path keeps, and the path of such segments.\<close>

definition plain_segment :: "string \<Rightarrow> bool" where
  "plain_segment s \<longleftrightarrow> s \<noteq> [] \<and> s \<noteq> ''.'' \<and> s \<noteq> ''..'' \<and> CHR ''/'' \<notin> set s"

definition abs_path :: "string list \<Rightarrow> string" where
  "abs_path segs = concat (map (\<lambda>s. ''/'' @ s) segs)"

lemma abs_path_simps [simp]:
  "abs_path [] = []" "abs_path (s # segs) = CHR ''/'' # s @ abs_path segs" "abs_path (xs @ ys) = abs_path xs @ abs_path ys"
  by (simp_all add: abs_path_def)

lemma abs_path_Join: "segs \<noteq> [] \<Longrightarrow> abs_path segs = ''/'' @ strings_Join segs ''/''"
  by (induction segs "''/'' :: string" rule: strings_Join.induct) simp_all

lemma Split_abs_path:
  "\<forall>s \<in> set segs. CHR ''/'' \<notin> set s \<Longrightarrow> strings_Split (CHR ''/'') (p @ abs_path segs) = strings_Split (CHR ''/'') p @ segs"
proof (induction segs arbitrary: p)
  case (Cons s segs)
  have "strings_Split (CHR ''/'') (q @ CHR ''/'' # t) = strings_Split (CHR ''/'') q @ strings_Split (CHR ''/'') t" for q t
    by (induction q) (auto split: list.split)
  from this [of p "s @ abs_path segs"] Cons show ?case by (simp add: Split_no_sep)
qed simp

lemma fold_plain:
  "\<forall>s \<in> set segs. plain_segment s \<Longrightarrow> fold (clean_step r) segs st = st @ segs"
  by (induction segs arbitrary: st) (auto simp: clean_step_def plain_segment_def)

lemma Clean_abs_path:
  assumes "\<forall>s \<in> set segs. plain_segment s" and "segs \<noteq> []"
  shows "path_Clean (abs_path segs) = abs_path segs"
proof -
  have "strings_Split (CHR ''/'') (abs_path segs) = [] # segs"
    using Split_abs_path [of segs "[]"] assms(1) by (auto simp: plain_segment_def)
  moreover have "clean_step True [] [] = []" by (simp add: clean_step_def)
  ultimately have "clean_segments True (abs_path segs) = segs"
    using fold_plain [OF assms(1), of True "[]"] by (simp add: clean_segments_def)
  moreover have "strings_HasPrefix (abs_path segs) ''/''" using assms(2) by (cases segs) simp_all
  ultimately show ?thesis using abs_path_Join [OF assms(2)] by (simp add: path_Clean_def)
qed

lemma Clean_abs_path_slash:
  assumes "\<forall>s \<in> set segs. plain_segment s" and "segs \<noteq> []"
  shows "path_Clean (''/'' @ abs_path segs) = abs_path segs"
proof -
  have "\<forall>s \<in> set ([] # segs). CHR ''/'' \<notin> set s" using assms(1) by (auto simp: plain_segment_def)
  then have "strings_Split (CHR ''/'') ([] @ abs_path ([] # segs)) = [[]] @ [] # segs"
    by (subst Split_abs_path) auto
  then have "strings_Split (CHR ''/'') (''/'' @ abs_path segs) = [] # [] # segs" by simp
  moreover have "clean_step True [] [] = []" by (simp add: clean_step_def)
  ultimately have "clean_segments True (''/'' @ abs_path segs) = segs"
    using fold_plain [OF assms(1), of True "[]"] by (simp add: clean_segments_def)
  then show ?thesis using abs_path_Join [OF assms(2)] by (simp add: path_Clean_def)
qed

text \<open>A rooted clean path never leaves its root.\<close>

lemma clean_rooted:
  "\<forall>s \<in> set segs. CHR ''/'' \<notin> set s \<Longrightarrow> \<forall>s \<in> set st. plain_segment s \<Longrightarrow>
   \<forall>s \<in> set (fold (clean_step True) segs st). plain_segment s"
proof (induction segs arbitrary: st)
  case (Cons s segs)
  have "\<forall>x \<in> set (clean_step True s st). plain_segment x"
    using Cons.prems by (auto simp: clean_step_def plain_segment_def dest: in_set_butlastD)
  with Cons show ?case by simp
qed simp

lemma Clean_rooted:
  obtains segs where "path_Clean (''/'' @ name) = ''/'' @ strings_Join segs ''/''" and "\<forall>s \<in> set segs. plain_segment s"
proof
  show "path_Clean (''/'' @ name) = ''/'' @ strings_Join (clean_segments True (''/'' @ name)) ''/''"
    by (simp add: path_Clean_def Let_def)
  show "\<forall>s \<in> set (clean_segments True (''/'' @ name)). plain_segment s"
    unfolding clean_segments_def using Split_pieces by (intro clean_rooted) auto
qed

lemma Join_abs_path:
  assumes "\<forall>s \<in> set (gs @ ps). plain_segment s" and "ps \<noteq> []"
  shows "path_Join [abs_path gs, abs_path ps] = abs_path (gs @ ps)"
proof (cases "gs = []")
  case True
  moreover have "abs_path ps \<noteq> []" using assms(2) by (cases ps) simp_all
  ultimately show ?thesis using Clean_abs_path [of ps] assms by (cases "abs_path ps") (auto simp: path_Join_def)
next
  case False
  let ?p = "abs_path gs @ CHR ''/'' # abs_path ps"
  have "?p = (abs_path gs @ ''/'') @ abs_path ps" by simp
  then have "strings_Split (CHR ''/'') ?p = strings_Split (CHR ''/'') (abs_path gs @ ''/'') @ ps"
    using Split_abs_path [of ps "abs_path gs @ ''/''"] assms(1) by (auto simp: plain_segment_def)
  moreover have "abs_path gs @ ''/'' = abs_path (gs @ [[]])" by simp
  then have "strings_Split (CHR ''/'') (abs_path gs @ ''/'') = [] # gs @ [[]]"
    using Split_abs_path [of "gs @ [[]]" "[]"] assms(1) by (auto simp: plain_segment_def)
  moreover have "clean_step True [] st = st" for st by (simp add: clean_step_def)
  moreover have "\<forall>s \<in> set gs. plain_segment s" "\<forall>s \<in> set ps. plain_segment s" using assms(1) by auto
  ultimately have "clean_segments True ?p = gs @ ps"
    using fold_plain by (simp add: clean_segments_def)
  moreover have "strings_HasPrefix ?p ''/''" using False by (cases gs) simp_all
  moreover have "abs_path gs \<noteq> []" using False by (cases gs) simp_all
  ultimately show ?thesis
    using abs_path_Join [of "gs @ ps"] False by (cases "abs_path gs") (auto simp: path_Join_def path_Clean_def)
qed

lemma HasSuffix_iff: "strings_HasSuffix s t \<longleftrightarrow> (\<exists>r. s = r @ t)"
  unfolding strings_HasSuffix_def
  by (metis append_eq_conv_conj append_take_drop_id diff_le_self length_append length_drop add_diff_cancel_right')

lemma suffix_last_segment:
  assumes "\<forall>s \<in> set segs. plain_segment s" and "segs \<noteq> []" and "CHR ''/'' \<notin> set t"
    and "strings_HasSuffix (abs_path segs) (''/'' @ t)"
  shows "last segs = t"
proof -
  obtain r where r: "abs_path segs = r @ abs_path [t]" using assms(4) by (auto simp: HasSuffix_iff)
  have "[] # segs = strings_Split (CHR ''/'') ([] @ abs_path segs)"
    using Split_abs_path [of segs "[]"] assms(1) by (auto simp: plain_segment_def)
  also have "\<dots> = strings_Split (CHR ''/'') r @ [t]"
    using Split_abs_path [of "[t]" r] assms(3) by (simp add: r del: abs_path_simps)
  finally have "last ([] # segs) = last (strings_Split (CHR ''/'') r @ [t])" by (rule arg_cong)
  then show ?thesis using assms(2) by simp
qed

lemma Base_abs_path:
  assumes "\<forall>s \<in> set segs. plain_segment s" and "segs \<noteq> []"
  shows "path_Base (abs_path segs) = last segs"
proof -
  obtain xs s where segs: "segs = xs @ [s]" using assms(2) by (metis append_butlast_last_id)
  then have s: "s \<noteq> []" "CHR ''/'' \<notin> set s" using assms(1) by (auto simp: plain_segment_def)
  have p: "rev (abs_path segs) = rev s @ CHR ''/'' # rev (abs_path xs)" by (simp add: segs)
  have "dropWhile (\<lambda>c. c = CHR ''/'') (rev (abs_path segs)) = rev (abs_path segs)"
    using s unfolding p by (cases "rev s") auto
  moreover have "takeWhile (\<lambda>c. c \<noteq> CHR ''/'') (rev (abs_path segs)) = rev s"
    unfolding p using s(2) by (auto simp: takeWhile_append)
  moreover have "abs_path segs \<noteq> []" by (simp add: segs)
  ultimately show ?thesis by (simp add: path_Base_def segs del: abs_path_simps)
qed

text \<open>What the file server answers to a request for a path of plain segments.\<close>

lemma serveFile_segments:
  assumes "\<forall>s \<in> set segs. plain_segment s" and "segs \<noteq> []" and "last segs \<noteq> ''index.html''"
  shows "serveFile ft fs (abs_path segs) uri (path_Clean (abs_path segs)) w =
    (case fs (abs_path segs) of
       Inl err \<Rightarrow> resp_Error (fst (toHTTPError err)) (snd (toHTTPError err)) w
     | Inr Directory \<Rightarrow> localRedirect uri (last segs @ ''/'') w
     | Inr (File data) \<Rightarrow> serveContent ft (abs_path segs) data w)"
proof -
  have "last segs \<noteq> []" using assms(1,2) by (auto simp: plain_segment_def)
  then have "\<not> strings_HasSuffix (abs_path segs) index_page" "\<not> strings_HasSuffix (abs_path segs) ''/''"
    using suffix_last_segment [OF assms(1,2), of "''index.html''"] suffix_last_segment [OF assms(1,2), of "[]"] assms(3)
    by (auto simp: index_page_def)
  then show ?thesis
    by (simp add: serveFile_def Clean_abs_path [OF assms(1,2)] Base_abs_path [OF assms(1,2)] case_prod_unfold
        split: sum.split fs_entry.split)
qed

text \<open>The segments of a clean path are a number of steps upwards and plain segments; cleaning keeps them.\<close>

definition normal_segments :: "bool \<Rightarrow> string list \<Rightarrow> bool" where
  "normal_segments r segs \<longleftrightarrow>
     (\<exists>n xs. segs = replicate n ''..'' @ xs \<and> (\<forall>s \<in> set xs. plain_segment s) \<and> (r \<longrightarrow> n = 0))"

lemma normal_step:
  assumes "normal_segments r st" and "CHR ''/'' \<notin> set s"
  shows "normal_segments r (clean_step r s st)"
proof -
  obtain n xs where st: "st = replicate n ''..'' @ xs" "\<forall>s \<in> set xs. plain_segment s" "r \<longrightarrow> n = 0"
    using assms(1) by (auto simp: normal_segments_def)
  consider "s = [] \<or> s = ''.''" | "s = ''..''" "xs = []" | "s = ''..''" "xs \<noteq> []" | "plain_segment s"
    using assms(2) by (auto simp: plain_segment_def)
  then show ?thesis
  proof cases
    case 1
    with assms(1) show ?thesis by (auto simp: clean_step_def)
  next
    case 2
    then have "clean_step r s st = (if r then st else replicate (Suc n) ''..'')"
      using st by (auto simp: clean_step_def replicate_append_same)
    moreover have "\<not> r \<Longrightarrow> normal_segments r (replicate (Suc n) ''..'' @ [])"
      unfolding normal_segments_def by (intro exI [of _ "Suc n"] exI [of _ "[]"]) simp
    ultimately show ?thesis using assms(1) by (cases r) simp_all
  next
    case 3
    then have "last xs \<noteq> ''..''" using st(2) by (auto simp: plain_segment_def)
    with 3 st have "clean_step r s st = replicate n ''..'' @ butlast xs"
      by (simp add: clean_step_def butlast_append)
    with st(2,3) show ?thesis by (auto simp: normal_segments_def dest: in_set_butlastD)
  next
    case 4
    then have "clean_step r s st = replicate n ''..'' @ (xs @ [s])" using st by (simp add: clean_step_def plain_segment_def)
    with 4 st(2,3) show ?thesis unfolding normal_segments_def by fastforce
  qed
qed

lemma normal_clean: "normal_segments r (clean_segments r p)"
proof -
  have "normal_segments r (fold (clean_step r) segs st)"
    if "normal_segments r st" "\<forall>s \<in> set segs. CHR ''/'' \<notin> set s" for segs st
    using that by (induction segs arbitrary: st) (auto intro: normal_step)
  moreover have "normal_segments r []" unfolding normal_segments_def by (intro exI [of _ 0] exI [of _ "[]"]) simp
  ultimately show ?thesis unfolding clean_segments_def using Split_pieces by blast
qed

lemma fold_normal:
  assumes "normal_segments r segs"
  shows "fold (clean_step r) segs [] = segs"
proof -
  obtain n xs where segs: "segs = replicate n ''..'' @ xs" "\<forall>s \<in> set xs. plain_segment s" "r \<longrightarrow> n = 0"
    using assms by (auto simp: normal_segments_def)
  have "fold (clean_step False) (replicate n ''..'') (replicate k ''..'') = replicate (k + n) ''..''" for k
  proof (induction n arbitrary: k)
    case (Suc n)
    have "clean_step False ''..'' (replicate k ''..'') = replicate (Suc k) ''..''"
      by (cases k) (simp_all add: clean_step_def replicate_append_same)
    with Suc [of "Suc k"] show ?case by simp
  qed simp
  from this [of 0] have up: "fold (clean_step False) (replicate n ''..'') [] = replicate n ''..''"
    by (simp only: replicate_0 add_0)
  have "fold (clean_step r) (replicate n ''..'') [] = replicate n ''..''"
  proof (cases r)
    case True
    with segs(3) show ?thesis by simp
  next
    case False
    with up show ?thesis by (simp only:)
  qed
  then show ?thesis unfolding segs(1) using fold_plain [OF segs(2)] by simp
qed

lemma normal_member:
  assumes "normal_segments r segs" and "s \<in> set segs"
  shows "s \<noteq> []" and "CHR ''/'' \<notin> set s"
proof -
  obtain n xs where "segs = replicate n ''..'' @ xs" "\<forall>s \<in> set xs. plain_segment s"
    using assms(1) by (auto simp: normal_segments_def)
  with assms(2) have "s = ''..'' \<or> plain_segment s" by (auto dest: in_set_replicate [THEN iffD1])
  then show "s \<noteq> []" and "CHR ''/'' \<notin> set s" by (auto simp: plain_segment_def)
qed

lemma Clean_unrooted:
  assumes "\<not> strings_HasPrefix p ''/''"
  shows "path_Clean p \<noteq> []" and "\<not> strings_HasPrefix (path_Clean p) ''/''"
proof -
  have "path_Clean p \<noteq> [] \<and> hd (path_Clean p) \<noteq> CHR ''/''"
  proof (cases "clean_segments False p")
    case Nil
    then show ?thesis unfolding path_Clean_def Let_def using assms by (simp only: if_False if_True) simp
  next
    case (Cons s segs)
    have normal: "normal_segments False (s # segs)" unfolding Cons [symmetric] by (rule normal_clean)
    then have "s \<noteq> []" "CHR ''/'' \<notin> set s" by (rule normal_member; simp)+
    moreover have "path_Clean p = strings_Join (s # segs) ''/''"
      unfolding path_Clean_def Let_def using assms Cons by (simp only: if_False) simp
    ultimately show ?thesis by (cases segs; cases s) auto
  qed
  then show "path_Clean p \<noteq> []" and "\<not> strings_HasPrefix (path_Clean p) ''/''" by simp_all
qed

lemma clean_segments_Clean:
  assumes "r = strings_HasPrefix p ''/''"
  shows "clean_segments r (path_Clean p) = clean_segments r p"
proof -
  let ?segs = "clean_segments r p"
  have normal: "normal_segments r ?segs" by (rule normal_clean)
  have empty: "clean_step r [] st = st" "clean_step r ''.'' st = st" for st by (simp_all add: clean_step_def)
  have "clean_segments r (strings_Join ?segs ''/'') = ?segs"
  proof (cases "?segs = []")
    case True
    then show ?thesis by (simp add: clean_segments_def empty)
  next
    case False
    have "strings_Split (CHR ''/'') (strings_Join ?segs ''/'') = ?segs"
      by (rule Split_Join [OF False]) (use normal_member(2) [OF normal] in auto)
    with fold_normal [OF normal] show ?thesis by (simp add: clean_segments_def)
  qed
  moreover have "clean_segments r (''/'' @ q) = clean_segments r q" for q by (simp add: clean_segments_def empty)
  moreover have "clean_segments r ''.'' = []" by (simp add: clean_segments_def empty)
  ultimately show ?thesis unfolding path_Clean_def assms [symmetric] Let_def by (simp only: split: if_split) argo
qed

lemma Split_append: "strings_Split c (q @ c # t) = strings_Split c q @ strings_Split c t"
  by (induction q) (auto split: list.split)

end
