(* ===== verification/Static.thy ===== *)
theory Static
  imports Engine NetFile
begin

text \<open>
  Package \<^verbatim>\<open>gee\<close>, the static files of \<^verbatim>\<open>router_group.go\<close>: a route whose handler serves the files
  below a root directory.
\<close>

section \<open>The handler and its route\<close>

text \<open>\<open>fs\<close> is the file system that the handler is given, and \<open>ft\<close> what the library knows of file types.\<close>

definition createStaticHandler ::
  "file_types \<Rightarrow> nat \<Rightarrow> string \<Rightarrow> file_system \<Rightarrow> 'w Engine \<Rightarrow> 'w handler" where
  "createStaticHandler ft i relPath fs e =
     (let absPath = path_Join [g_prefix (e_groups e ! i), relPath];
          fileServer = StripPrefix absPath (FileServer ft fs)
      in Look (\<lambda>c.
           case fs (ctx_Param ''filepath'' c) of
             Inl _ \<Rightarrow> CallStatus 404 Return
           | Inr _ \<Rightarrow>
               CallPublic (\<lambda>c.
                 case fileServer (c_Path c) (c_RequestURI c) (c_writer c) of
                   (out, w) \<Rightarrow> (case out of Panics e \<Rightarrow> Some e | _ \<Rightarrow> None, c\<lparr>c_writer := w\<rparr>))
               Return))"

definition group_Static ::
  "file_types \<Rightarrow> file_system \<Rightarrow> nat \<Rightarrow> string \<Rightarrow> string \<Rightarrow> 'w Engine \<Rightarrow> 'w Engine option" where
  "group_Static ft disk i relPath root e =
     (let handler = createStaticHandler ft i relPath (http_Dir disk root) e;
          urlPattern = path_Join [relPath, ''/*filepath'']
      in group_GET i urlPattern (Some handler) e)"

section \<open>Finding the route\<close>

lemma single_route:
  assumes r: "addRoute m p h newRouter = Some r" and "p \<noteq> []"
    and match: "route_matches (parsePattern p) (parsePattern path)"
    and ps: "param_loop (parsePattern p) 0 (parsePattern path) Map.empty = Some ps"
  shows "\<exists>n. getRoute m path r = Returns (Some (n, ps)) \<and> n_pattern n = p" "handlers r (route_key m p) = h"
proof -
  have rs: "add_routes [(m, p, h)] newRouter = Some r" using r by simp
  have exact: "root_exact [(m, p, h)] m (root_of m r)"
    by (rule add_routes_exact [OF rs]) (use assms(2) in \<open>simp_all add: clash_free_def\<close>)
  have fm: "map_option n_pattern (trie_search (parsePattern path) (root_of m r)) =
      first_match (parsePattern path) (entries (root_of m r))"
    using search_first_match add_routes_ok [OF rs, of m] by (simp add: root_ok_def)
  obtain p' where "(parsePattern p, p') \<in> set (entries (root_of m r))"
    using root_exactD(3) [OF exact] by auto
  with match have "first_match (parsePattern path) (entries (root_of m r)) \<noteq> None"
    unfolding first_match_None by blast
  with fm obtain n where n: "trie_search (parsePattern path) (root_of m r) = Some n" by auto
  with fm have "first_match (parsePattern path) (entries (root_of m r)) = Some (n_pattern n)" by simp
  from first_match_Some [OF this] obtain ls where "(ls, n_pattern n) \<in> set (entries (root_of m r))" by blast
  from root_exactD(2) [OF exact this] have "n_pattern n = p" by simp
  with n ps show "\<exists>n. getRoute m path r = Returns (Some (n, ps)) \<and> n_pattern n = p" by (simp add: getRoute_root)
  show "handlers r (route_key m p) = h"
    using add_routes_handlers [OF rs, of "route_key m p"] by (simp add: last_handler_def)
qed

text \<open>A segment that is a static part of a pattern.\<close>

definition static_segment :: "string \<Rightarrow> bool" where
  "static_segment s \<longleftrightarrow> plain_segment s \<and> \<not> wild_part s"

abbreviation catch_all :: string where
  "catch_all \<equiv> ''*filepath''"

lemma static_params:
  "\<forall>s \<in> set ss. static_segment s \<Longrightarrow>
   param_loop (ss @ [catch_all]) i sp m =
     (if length sp < i + length ss then None else Some (m(''filepath'' \<mapsto> strings_Join (drop (i + length ss) sp) ''/'')))"
proof (induction ss arbitrary: i)
  case (Cons s ss)
  then obtain x xs where "s = x # xs" "x \<noteq> CHR '':''" "x \<noteq> CHR ''*''"
    by (cases s) (auto simp: static_segment_def plain_segment_def wild_part_def)
  then have "param_loop ((s # ss) @ [catch_all]) i sp m = param_loop (ss @ [catch_all]) (i + 1) sp m"
    by (simp add: Let_def del: One_nat_def)
  with Cons.IH [of "i + 1"] Cons.prems show ?case by (simp add: fun_upd_def del: param_loop.simps)
qed simp

lemma static_matches:
  "\<forall>s \<in> set ss. static_segment s \<Longrightarrow> route_matches (ss @ [catch_all]) (ss @ fs) \<longleftrightarrow> fs \<noteq> []"
proof (induction ss)
  case Nil
  then show ?case by (cases fs) (auto simp: star_part_def)
next
  case (Cons s ss)
  then have "\<not> star_part s" by (auto simp: static_segment_def wild_part_def star_part_def)
  with Cons show ?case by simp
qed

lemma parse_abs_path: "valid_parts segs \<Longrightarrow> parsePattern (abs_path segs) = segs"
  using parse_Join [of segs] abs_path_Join [of segs] by (cases "segs = []") (auto simp: parsePattern_def)

lemma star_last_static:
  "\<forall>s \<in> set ss. static_segment s \<Longrightarrow> star_last (ss @ xs) = star_last xs"
  by (induction ss) (auto simp: static_segment_def wild_part_def star_part_def)

section \<open>Properties\<close>

text \<open>The names that a request may ask for below a static route.\<close>

definition file_segments :: "string list \<Rightarrow> bool" where
  "file_segments fs \<longleftrightarrow> fs \<noteq> [] \<and> star_last fs \<and> (\<forall>s \<in> set fs. plain_segment s) \<and> last fs \<noteq> ''index.html''"

lemma static_pattern:
  assumes "\<forall>s \<in> set ps. static_segment s"  and "ps \<noteq> []"
  shows "path_Join [abs_path ps, ''/*filepath''] = abs_path (ps @ [catch_all])"
proof -
  have "plain_segment catch_all" by (simp add: plain_segment_def)
  with assms(1) have "\<forall>s \<in> set (ps @ [catch_all]). plain_segment s" by (auto simp: static_segment_def)
  then show ?thesis using Join_abs_path [of ps "[catch_all]"] by simp
qed

lemma parse_static:
  assumes "\<forall>s \<in> set ss. static_segment s" and "star_last fs" and "\<forall>s \<in> set fs. plain_segment s"
  shows "parsePattern (abs_path (ss @ fs)) = ss @ fs"
  using assms by (intro parse_abs_path) (auto simp: valid_parts_def star_last_static static_segment_def plain_segment_def)

lemma Open_segments:
  assumes "\<forall>s \<in> set fs. plain_segment s" and "fs \<noteq> []"
  shows "http_Dir disk root (abs_path fs) = disk (path_Join [if root = [] then ''.'' else root, strings_Join fs ''/''])"
    and "http_Dir disk root (strings_Join fs ''/'') = disk (path_Join [if root = [] then ''.'' else root, strings_Join fs ''/''])"
proof -
  have "path_Clean (''/'' @ strings_Join fs ''/'') = ''/'' @ strings_Join fs ''/''"
    using Clean_abs_path [OF assms] abs_path_Join [OF assms(2)] by simp
  moreover have "path_Clean (''/'' @ abs_path fs) = ''/'' @ strings_Join fs ''/''"
    using Clean_abs_path_slash [OF assms] abs_path_Join [OF assms(2)] by simp
  ultimately show "http_Dir disk root (abs_path fs) = disk (path_Join [if root = [] then ''.'' else root, strings_Join fs ''/''])"
    and "http_Dir disk root (strings_Join fs ''/'') = disk (path_Join [if root = [] then ''.'' else root, strings_Join fs ''/''])"
    by (simp_all add: http_Dir_def)
qed

lemma static_file_found:
  assumes gs: "\<forall>s \<in> set (gs @ ps). static_segment s" and "ps \<noteq> []" and fs: "file_segments fs"
    and "g_prefix (e_groups e ! i) = abs_path gs" and "e_router e = newRouter"
    and e': "group_Static ft disk i (abs_path ps) root e = Some e'"
  shows "\<exists>n. getRoute ''GET'' (abs_path (gs @ ps @ fs)) (e_router e') =
      Returns (Some (n, [''filepath'' \<mapsto> strings_Join fs ''/''])) \<and>
    handlers (e_router e') (route_key ''GET'' (n_pattern n)) =
      Some (createStaticHandler ft i (abs_path ps) (http_Dir disk root) e)"
proof -
  let ?h = "createStaticHandler ft i (abs_path ps) (http_Dir disk root) e"
  let ?p = "abs_path (gs @ ps @ [catch_all])"
  have ps: "\<forall>s \<in> set ps. static_segment s" using gs by simp
  have "g_prefix (e_groups e ! i) @ path_Join [abs_path ps, ''/*filepath''] = ?p"
    unfolding static_pattern [OF ps \<open>ps \<noteq> []\<close>] assms(4) by simp
  then obtain r where r: "addRoute ''GET'' ?p (Some ?h) newRouter = Some r" "e_router e' = r"
    using e' unfolding group_Static_def group_GET_def group_addRoute_def Let_def assms(5)
    by (auto simp del: abs_path_simps)
  have fs': "fs \<noteq> []" "star_last fs" "\<forall>s \<in> set fs. plain_segment s" using fs by (auto simp: file_segments_def)
  have parts: "parsePattern ?p = (gs @ ps) @ [catch_all]" "parsePattern (abs_path ((gs @ ps) @ fs)) = (gs @ ps) @ fs"
    using parse_static [OF gs, of "[catch_all]"] parse_static [OF gs fs'(2,3)]
    by (simp_all add: plain_segment_def star_part_def del: abs_path_simps)
  have "?p \<noteq> []" by simp
  from single_route [OF r(1) this, of "abs_path ((gs @ ps) @ fs)"]
  show ?thesis
    unfolding parts static_matches [OF gs] static_params [OF gs] r(2)
    using fs'(1) by (auto simp del: abs_path_simps)
qed

text \<open>The answer of a static route, by what the file system has under the name.\<close>

definition static_answer :: "string \<Rightarrow> string \<Rightarrow> open_error + fs_entry \<Rightarrow> 'w ctx \<Rightarrow> bool" where
  "static_answer uri name found c \<longleftrightarrow>
     (case found of
        Inl _ \<Rightarrow> c_StatusCode c = 404 \<and> map_option fst (w_sent (c_writer c)) = Some 404 \<and> w_body (c_writer c) = []
      | Inr (File data) \<Rightarrow>
          c_StatusCode c = 0 \<and> map_option fst (w_sent (c_writer c)) = Some 200 \<and> w_body (c_writer c) = data
      | Inr Directory \<Rightarrow>
          c_StatusCode c = 0 \<and> w_body (c_writer c) = [] \<and>
          (\<exists>h. w_sent (c_writer c) = Some (301, h) \<and>
             h ''Location'' = Some (name @ ''/'' @ (if raw_query uri = [] then [] else ''?'' @ raw_query uri))))"

lemma static_answer_index: "static_answer uri name found (c\<lparr>c_index := k\<rparr>) = static_answer uri name found c"
  by (simp add: static_answer_def split: sum.split fs_entry.split)

lemma static_handler_answers:
  assumes gs: "\<forall>s \<in> set (gs @ ps). plain_segment s" and "ps \<noteq> []" and fs: "file_segments fs"
    and "g_prefix (e_groups e ! i) = abs_path gs"
    and c: "c_Params c ''filepath'' = Some (strings_Join fs ''/'')" "c_Path c = abs_path (gs @ ps @ fs)"
      "c_RequestURI c = uri" "c_StatusCode c = 0" "c_writer c = \<lparr>w_header = Map.empty, w_sent = None, w_body = []\<rparr>"
  shows "\<exists>c'. exec nx n (createStaticHandler ft i (abs_path ps) (http_Dir disk root) e) c = (Returns (), c') \<and>
    c_index c' = c_index c \<and>
    static_answer uri (last fs) (disk (path_Join [if root = [] then ''.'' else root, strings_Join fs ''/''])) c'"
proof -
  have fs': "fs \<noteq> []" "\<forall>s \<in> set fs. plain_segment s" "last fs \<noteq> ''index.html''" using fs by (auto simp: file_segments_def)
  note open_fs = Open_segments [OF fs'(2,1), of disk root]
  let ?file = "disk (path_Join [if root = [] then ''.'' else root, strings_Join fs ''/''])"
  have abs: "path_Join [g_prefix (e_groups e ! i), abs_path ps] = abs_path (gs @ ps)"
    unfolding assms(4) by (rule Join_abs_path [OF gs \<open>ps \<noteq> []\<close>])
  have ne: "abs_path (gs @ ps) \<noteq> []" using \<open>ps \<noteq> []\<close> by (cases ps) auto
  have trim: "strings_TrimPrefix (abs_path (gs @ ps @ fs)) (abs_path (gs @ ps)) = abs_path fs"
  proof -
    have "abs_path (gs @ ps @ fs) = abs_path (gs @ ps) @ abs_path fs" by simp
    then show ?thesis by (simp add: strings_TrimPrefix_def del: abs_path_simps)
  qed
  have shorter: "length (abs_path fs) < length (abs_path (gs @ ps @ fs))"
    using ne by (simp only: abs_path_simps append_assoc [symmetric] length_append) simp
  have slash: "strings_HasPrefix (abs_path fs) ''/''" using fs'(1) by (cases fs) simp_all
  have serve: "StripPrefix (abs_path (gs @ ps)) (FileServer ft (http_Dir disk root)) (abs_path (gs @ ps @ fs)) uri w =
      (case ?file of
         Inl err \<Rightarrow> resp_Error (fst (toHTTPError err)) (snd (toHTTPError err)) w
       | Inr Directory \<Rightarrow> localRedirect uri (last fs @ ''/'') w
       | Inr (File data) \<Rightarrow> serveContent ft (abs_path fs) data w)" for w
    using ne shorter slash serveFile_segments [OF fs'(2,1,3)]
    by (simp add: StripPrefix_def trim FileServer_def open_fs Let_def del: abs_path_simps)
  show ?thesis
    unfolding createStaticHandler_def abs Let_def
    using c open_fs
    by (cases ?file)
      (auto simp: ctx_Param_def public_def serve static_answer_def ctx_Status_def WriteHeader_def localRedirect_def
        serveContent_def set_header_def http_Write_def body_allowed_def Let_def simp del: abs_path_simps split: fs_entry.split)
qed


text \<open>An engine with a static route, and its disk.\<close>

definition site_disk :: file_system where
  "site_disk name = (if name = ''www/css/a.css'' then Inr (File ''body {}'') else Inl NotExist)"

definition plain_types :: file_types where
  "plain_types = \<lparr>mime_type = (\<lambda>name data. ''text/plain''), dir_listing = (\<lambda>name. [])\<rparr>"


text \<open>
  C2: a static route gives away nothing outside its root: what its handler does for a request, with
  whatever path and parameters, is settled by the part of the disk below the root, so that
  segments \<^verbatim>\<open>..\<close> in the path lead nowhere.
\<close>

definition below :: "string \<Rightarrow> string \<Rightarrow> bool" where
  "below root name \<longleftrightarrow>
     (\<exists>segs. (\<forall>s \<in> set segs. plain_segment s) \<and>
        clean_segments (strings_HasPrefix root ''/'') name = clean_segments (strings_HasPrefix root ''/'') root @ segs)"

lemma Join_below:
  assumes "\<forall>s \<in> set segs. plain_segment s"
  shows "below root (path_Join [if root = [] then ''.'' else root, strings_Join segs ''/''])"
proof -
  let ?r = "strings_HasPrefix root ''/''" and ?root = "if root = [] then ''.'' else root"
  let ?p = "?root @ ''/'' @ strings_Join segs ''/''"
  have r: "?r = strings_HasPrefix ?p ''/''" by (cases root) simp_all
  have empty: "clean_step ?r [] st = st" "clean_step ?r ''.'' st = st" for st by (simp_all add: clean_step_def)
  have "fold (clean_step ?r) (strings_Split (CHR ''/'') (strings_Join segs ''/'')) st = st @ segs" for st
  proof (cases "segs = []")
    case False
    then have "strings_Split (CHR ''/'') (strings_Join segs ''/'') = segs"
      by (rule Split_Join) (use assms in \<open>auto simp: plain_segment_def\<close>)
    with fold_plain [OF assms] show ?thesis by simp
  qed (simp add: clean_step_def)
  moreover have "clean_segments ?r ?root = clean_segments ?r root"
    by (cases "root = []") (simp_all add: clean_segments_def clean_step_def)
  ultimately have "clean_segments ?r ?p = clean_segments ?r root @ segs"
    by (simp add: clean_segments_def Split_append)
  moreover have "path_Join [?root, strings_Join segs ''/''] = path_Clean ?p" by (simp add: path_Join_def)
  ultimately show ?thesis
    using clean_segments_Clean [OF r] assms by (auto simp: below_def)
qed

theorem static_route_stays_below_root:
  assumes "\<forall>name. below root name \<longrightarrow> disk name = disk' name"
  shows "exec nx n (createStaticHandler ft i relPath (http_Dir disk root) e) c =
    exec nx n (createStaticHandler ft i relPath (http_Dir disk' root) e) c"
proof -
  have "http_Dir disk root name = http_Dir disk' root name" for name
  proof -
    obtain segs where "path_Clean (''/'' @ name) = ''/'' @ strings_Join segs ''/''" "\<forall>s \<in> set segs. plain_segment s"
      by (rule Clean_rooted)
    then have "below root (path_Join [if root = [] then ''.'' else root, tl (path_Clean (''/'' @ name))])"
      using Join_below by simp
    with assms show ?thesis by (simp add: http_Dir_def)
  qed
  then have "http_Dir disk root = http_Dir disk' root" by blast
  then show ?thesis by simp
qed

definition secret_disk :: file_system where
  "secret_disk name = (if name = ''/etc/passwd'' then Inr (File ''root'') else site_disk name)"

theorem static_route_stays_below_root_witness:
  "exec (\<lambda>c. (Returns (), c)) 1 (createStaticHandler plain_types 0 ''/assets'' (http_Dir site_disk ''www'') engine_New)
     (newContext ''GET'' ''/assets/../../etc/passwd'' ''/'' [] ()) =
   exec (\<lambda>c. (Returns (), c)) 1 (createStaticHandler plain_types 0 ''/assets'' (http_Dir secret_disk ''www'') engine_New)
     (newContext ''GET'' ''/assets/../../etc/passwd'' ''/'' [] ())"
proof (rule static_route_stays_below_root)
  have "clean_segments False ''/etc/passwd'' = [''etc'', ''passwd'']" "clean_segments False ''www'' = [''www'']"
    by (simp_all add: clean_segments_def clean_step_def)
  then have "\<not> below ''www'' ''/etc/passwd''" by (simp add: below_def)
  then show "\<forall>name. below ''www'' name \<longrightarrow> site_disk name = secret_disk name" by (auto simp: secret_disk_def)
qed

text \<open>
  A static route needs a slash at the beginning of its path: without it, the route is registered and
  found, but the prefix that is stripped does not begin the path of any request, so that every
  request gets 404.
\<close>

theorem static_without_slash_serves_nothing:
  assumes "g_prefix (e_groups e ! i) = []" and "\<not> strings_HasPrefix relPath ''/''" and "relPath \<noteq> []"
    and "strings_HasPrefix (c_Path c) ''/''" and "w_sent (c_writer c) = None"
  shows "\<exists>c'. exec nx n (createStaticHandler ft i relPath fs e) c = (Returns (), c') \<and>
    map_option fst (w_sent (c_writer c')) = Some 404"
proof -
  have abs: "path_Join [[], relPath] = path_Clean relPath" using assms(3) by (cases relPath) (simp_all add: path_Join_def)
  have "\<not> strings_HasPrefix (c_Path c) (path_Clean relPath)"
    using Clean_unrooted [OF assms(2)] assms(4) by (cases "path_Clean relPath") (auto simp: HasPrefix_iff)
  then have strip: "StripPrefix (path_Clean relPath) h (c_Path c) uri w = resp_NotFound w" for h uri w
    using Clean_unrooted(1) [OF assms(2)] by (simp add: StripPrefix_def strings_TrimPrefix_def)
  show ?thesis
    unfolding createStaticHandler_def assms(1) abs Let_def
    using assms(5)
    by (cases "fs (ctx_Param ''filepath'' c)")
      (auto simp: strip public_def resp_NotFound_def resp_Error_def set_header_def ctx_Status_def WriteHeader_def
        http_Write_def body_allowed_def Let_def)
qed

theorem static_without_slash_serves_nothing_witness:
  "\<exists>c'. exec (\<lambda>c. (Returns (), c)) 1 (createStaticHandler plain_types 0 ''assets'' (http_Dir site_disk ''www'') engine_New)
     (newContext ''GET'' ''/assets/css/a.css'' ''/assets/css/a.css'' [] ()) = (Returns (), c') \<and>
     map_option fst (w_sent (c_writer c')) = Some 404"
  by (rule static_without_slash_serves_nothing) (simp_all add: engine_New_def newContext_def)

end
