(* ===== verification/GeeMain.thy ===== *)
theory GeeMain
  imports Engine
begin

text \<open>
  The program \<^verbatim>\<open>Gee/main.go\<close>: an engine with the default middleware and two routes.
\<close>

definition welcome_page :: "'w handler" where
  "welcome_page = CallString 200 ''Welcome'' Return"

text \<open>The second handler reads behind the end of an empty slice before it calls \<^verbatim>\<open>String\<close>.\<close>

definition panic_page :: "'w handler" where
  "panic_page =
     (let names = [] :: string list
      in if 1 < length names then CallString 200 (names ! 1) Return
         else Panic ''runtime error: index out of range [1] with length 0'')"

definition gee_main :: "'w Engine option" where
  "gee_main =
     (case group_GET 0 ''/'' (Some welcome_page) engine_Default of
        None \<Rightarrow> None
      | Some r \<Rightarrow> group_GET 0 ''/panic'' (Some panic_page) r)"

text \<open>The answer to a request: the result, the status and body that were sent, and the log.\<close>

definition answer_of :: "unit outcome \<times> 'w ctx \<Rightarrow> unit outcome \<times> int option \<times> bytes \<times> (int \<times> string) list" where
  "answer_of = (\<lambda>(out, c). (out, map_option fst (w_sent (c_writer c)), w_body (c_writer c), c_log c))"

text \<open>
  The demo serves its two routes: the panic of the second one becomes an answer with the status 500,
  the log has a line for each request, and other paths and methods get 404.
\<close>

lemma demo_middlewares:
  "gee_main = Some e \<Longrightarrow> engine_middlewares path e = [Some Logger, Some Recovery]"
  by (auto simp: gee_main_def group_GET_def group_addRoute_def engine_Default_def group_Use_def engine_New_def
      engine_middlewares_def Let_def split: option.splits)

lemmas trie_defs = addRoute_def newRouter_def parsePattern_def new_root_def new_child_def set_pattern_def
  set_children_def child_matches_def wild_part_def getRoute_def matchChildren_def route_key_def

lemma demo_routes:
  "\<exists>(e :: 'w Engine) n1 n2. gee_main = Some e \<and>
     getRoute ''GET'' ''/'' (e_router e) = Returns (Some (n1, Map.empty)) \<and>
     handlers (e_router e) (route_key ''GET'' (n_pattern n1)) = Some welcome_page \<and>
     getRoute ''GET'' ''/panic'' (e_router e) = Returns (Some (n2, Map.empty)) \<and>
     handlers (e_router e) (route_key ''GET'' (n_pattern n2)) = Some panic_page \<and>
     getRoute ''POST'' ''/'' (e_router e) = Returns None"
  by (simp add: gee_main_def group_GET_def group_addRoute_def engine_Default_def group_Use_def engine_New_def
      Let_def trie_defs)

theorem demo_serves:
  "\<exists>e :: 'w Engine. gee_main = Some e \<and>
     answer_of (engine_ServeHTTP e ''GET'' ''/'' ''/'' [] w) = (Returns (), Some 200, ''Welcome'', [(200, ''/'')]) \<and>
     answer_of (engine_ServeHTTP e ''GET'' ''/panic'' ''/panic'' [] w) =
       (Returns (), Some 500, json_message ''Internal Server Error'', [(500, ''/panic'')]) \<and>
     answer_of (engine_ServeHTTP e ''POST'' ''/'' ''/'' [] w) =
       (Returns (), Some 404, ''404 NOT FOUND: /'' @ [CHR 0x0A], [(404, ''/'')])"
proof -
  obtain e :: "'w Engine" and n1 n2 where e: "gee_main = Some e"
    and r: "getRoute ''GET'' ''/'' (e_router e) = Returns (Some (n1, Map.empty))"
      "handlers (e_router e) (route_key ''GET'' (n_pattern n1)) = Some welcome_page"
      "getRoute ''GET'' ''/panic'' (e_router e) = Returns (Some (n2, Map.empty))"
      "handlers (e_router e) (route_key ''GET'' (n_pattern n2)) = Some panic_page"
      "getRoute ''POST'' ''/'' (e_router e) = Returns None"
    using demo_routes by (elim exE conjE) (rule that)
  note mws = demo_middlewares [OF e]
  note serve = engine_ServeHTTP_def router_handle_def newContext_def mws r answer_of_def ctx_Next_def call_handler_def
    Let_def Logger_def Recovery_def numeral_eq_Suc ctx_Status_def ctx_SetHeader_def ctx_Write_def http_Write_def
    WriteHeader_def body_allowed_def
  have "answer_of (engine_ServeHTTP e ''GET'' ''/'' ''/'' [] w) = (Returns (), Some 200, ''Welcome'', [(200, ''/'')])"
    by (simp add: serve welcome_page_def ctx_String_def)
  moreover have "answer_of (engine_ServeHTTP e ''GET'' ''/panic'' ''/panic'' [] w) =
      (Returns (), Some 500, json_message ''Internal Server Error'', [(500, ''/panic'')])"
    by (simp add: serve panic_page_def ctx_Fail_def ctx_JSON_def)
  moreover have "answer_of (engine_ServeHTTP e ''POST'' ''/'' ''/'' [] w) =
      (Returns (), Some 404, ''404 NOT FOUND: /'' @ [CHR 0x0A], [(404, ''/'')])"
    by (simp add: serve not_found_def ctx_String_def)
  ultimately show ?thesis using e by blast
qed

end
