(* ===== verification/RpcDial.thy ===== *)
theory RpcDial
  imports RpcServer XClient
begin

text \<open>
  Package \<^verbatim>\<open>geerpc\<close>, \<^verbatim>\<open>client.go\<close>: how a client gets its connection.  The network is behind the
  operations of \<open>net_ops\<close> on the world \<open>'w\<close>; a new client is its connection and its options.
\<close>

record ('conn, 'w) net_ops =
  net_DialTimeout :: "string \<Rightarrow> string \<Rightarrow> int \<Rightarrow> (error + 'conn, 'w) action"
  net_Close :: "'conn \<Rightarrow> 'w \<Rightarrow> 'w"
  net_EncodeOption :: "'conn \<Rightarrow> Option \<Rightarrow> (error option, 'w) action"
  net_WriteString :: "'conn \<Rightarrow> string \<Rightarrow> 'w \<Rightarrow> 'w"
  net_ReadResponse :: "'conn \<Rightarrow> (error + string, 'w) action"

type_synonym 'conn new_client = "'conn \<times> Option"

definition NewClient ::
  "('conn, 'w) net_ops \<Rightarrow> 'conn \<Rightarrow> Option \<Rightarrow> (error + 'conn new_client, 'w) action" where
  "NewClient net conn opt w =
     (if \<not> has_codec (opt_CodecType opt)
      then (Returns (Inl (''invalid codec type '' @ opt_CodecType opt)), w)
      else
        and_then (net_EncodeOption net conn opt w) (\<lambda>res w1.
          case res of
            Some err \<Rightarrow> (Returns (Inl err), net_Close net conn w1)
          | None \<Rightarrow> (Returns (Inr (conn, opt)), w1)))"

definition connect_request :: string where
  "connect_request = ''CONNECT '' @ defaultRPCPath @ '' HTTP/1.0'' @ [CHR 0x0A, CHR 0x0A]"

definition NewHTTPClient ::
  "('conn, 'w) net_ops \<Rightarrow> 'conn \<Rightarrow> Option \<Rightarrow> (error + 'conn new_client, 'w) action" where
  "NewHTTPClient net conn opt w =
     (let w1 = net_WriteString net conn connect_request w
      in and_then (net_ReadResponse net conn w1) (\<lambda>res w2.
           case res of
             Inl err \<Rightarrow> (Returns (Inl err), w2)
           | Inr status \<Rightarrow>
               if status = connected then NewClient net conn opt w2
               else (Returns (Inl (''unexpected HTTP response: '' @ status)), w2)))"

text \<open>
  \<open>late\<close>: the time limit strikes before the goroutine that runs \<open>f\<close> is done; the goroutine still
  runs to its end.  The deferred function closes the connection only if the outer \<^verbatim>\<open>err\<close> is set,
  but behind the dial no return statement sets it.
\<close>

definition dialTimeout ::
  "('conn, 'w) net_ops \<Rightarrow> (int \<Rightarrow> string) \<Rightarrow> bool \<Rightarrow>
   ('conn \<Rightarrow> Option \<Rightarrow> (error + 'conn new_client, 'w) action) \<Rightarrow> string \<Rightarrow> string \<Rightarrow>
   Option option list \<Rightarrow> (error + 'conn new_client, 'w) action"
where
  "dialTimeout net show_duration late f network address opts w =
     (case parseOptions opts of
        Inl err \<Rightarrow> (Returns (Inl err), w)
      | Inr opt \<Rightarrow>
          and_then (net_DialTimeout net network address (opt_ConnectTimeout opt) w) (\<lambda>dialled w1.
            case dialled of
              Inl err \<Rightarrow> (Returns (Inl err), w1)
            | Inr conn \<Rightarrow>
                if opt_ConnectTimeout opt \<noteq> 0 \<and> late then
                  (Returns (Inl (''rpc client: connect timeout: expect within '' @
                     show_duration (opt_ConnectTimeout opt))), snd (f conn opt w1))
                else f conn opt w1))"

definition Dial where
  "Dial net show_duration late = dialTimeout net show_duration late (NewClient net)"

definition DialHTTP where
  "DialHTTP net show_duration late = dialTimeout net show_duration late (NewHTTPClient net)"

text \<open>The function \<^verbatim>\<open>XDial\<close> of this package, which has the text of the one in \<^verbatim>\<open>xclient\<close>.\<close>

definition geerpc_XDial ::
  "('conn, 'w) net_ops \<Rightarrow> (int \<Rightarrow> string) \<Rightarrow> bool \<Rightarrow> string \<Rightarrow> Option option list \<Rightarrow>
   (error + 'conn new_client, 'w) action"
where
  "geerpc_XDial net show_duration late rpcAddr opts w =
     (case strings_Split (CHR ''@'') rpcAddr of
        [protocol, addr] \<Rightarrow>
          (if protocol = ''http'' then DialHTTP net show_duration late ''tcp'' addr opts w
           else Dial net show_duration late protocol addr opts w)
      | _ \<Rightarrow>
          (Returns (Inl (''rpc client err: wrong format '' @ [CHR 0x27] @ rpcAddr @ [CHR 0x27] @
             '', expect protocol@addr'')), w))"

definition geerpc_ops ::
  "('conn, 'w) net_ops \<Rightarrow> (int \<Rightarrow> string) \<Rightarrow> bool \<Rightarrow> ('conn new_client \<Rightarrow> 'w \<Rightarrow> bool) \<Rightarrow>
   ('conn new_client \<Rightarrow> 'w \<Rightarrow> 'w) \<Rightarrow> ('conn new_client, Option option list, 'w) client_ops"
where
  "geerpc_ops net show_duration late available close =
     \<lparr>op_IsAvailable = available, op_Close = close, op_Dial = Dial net show_duration late,
      op_DialHTTP = DialHTTP net show_duration late\<rparr>"

lemma XDial_same: "geerpc_XDial net sd late a opts w = XDial (geerpc_ops net sd late av cl) a opts w"
  by (simp add: geerpc_XDial_def XDial_def geerpc_ops_def split: list.split)

section \<open>What a dial leaves behind\<close>

text \<open>
  A client that a dial returns has options which a server accepts.
\<close>

lemma NewClient_options: "NewClient net conn opt w = (Returns (Inr cl), w') \<Longrightarrow> cl = (conn, opt) \<and> has_codec (opt_CodecType opt)"
  by (auto simp: NewClient_def split: option.splits if_splits)

lemma case_error_succeeds:
  "(case r of Inl err \<Rightarrow> (Returns (Inl (h err)), w) | Inr y \<Rightarrow> g y) = (Returns (Inr z), w') \<longleftrightarrow>
     (\<exists>y. r = Inr y \<and> g y = (Returns (Inr z), w'))"
  by (cases r) auto

lemma dialled_options:
  assumes "geerpc_XDial net sd late a opts w = (Returns (Inr (conn, opt)), w')"
  shows "opt_MagicNumber opt = MagicNumber \<and> has_codec (opt_CodecType opt)"
proof -
  have dial: "opt_MagicNumber opt = MagicNumber \<and> has_codec (opt_CodecType opt)"
    if dialled: "dialTimeout net sd late f n addr opts w = (Returns (Inr (conn, opt)), w')"
      and f: "f = NewClient net \<or> f = NewHTTPClient net" for f n addr
  proof -
    obtain opt0 where o1: "parseOptions opts = Inr opt0"
      using dialled by (cases "parseOptions opts") (auto simp: dialTimeout_def)
    obtain conn0 w1 where o2: "f conn0 opt0 w1 = (Returns (Inr (conn, opt)), w')"
      using dialled o1 by (auto simp: dialTimeout_def case_error_succeeds split: if_splits)
    have "\<exists>w2. NewClient net conn0 opt0 w2 = (Returns (Inr (conn, opt)), w')"
      using o2 f by (auto simp: NewHTTPClient_def Let_def case_error_succeeds split: if_splits)
    with parseOptions_result [OF o1] show ?thesis by (auto dest: NewClient_options)
  qed
  then show ?thesis
    using assms by (auto simp: geerpc_XDial_def Dial_def DialHTTP_def split: list.splits if_splits)
qed

text \<open>
  A world that knows which connections are open, for a server that answers an HTTP dial with
  another status: the dial fails and the connection stays open.
\<close>

definition open_conns :: "string \<Rightarrow> (nat, nat set) net_ops" where
  "open_conns status =
     \<lparr>net_DialTimeout = (\<lambda>n a t w. (Returns (Inr 0), insert 0 w)), net_Close = (\<lambda>c w. w - {c}),
      net_EncodeOption = (\<lambda>c opt w. (Returns None, w)), net_WriteString = (\<lambda>c s w. w),
      net_ReadResponse = (\<lambda>c w. (Returns (Inr status), w))\<rparr>"

lemma failed_dial_leaves_connection_open:
  "status \<noteq> connected \<Longrightarrow> geerpc_XDial (open_conns status) sd late ''http@a'' [] {} =
     (Returns (Inl (if late then ''rpc client: connect timeout: expect within '' @ sd (10 * 1000000000)
        else ''unexpected HTTP response: '' @ status)), {0})"
  by (simp add: geerpc_XDial_def DialHTTP_def dialTimeout_def parseOptions_def DefaultOption_def open_conns_def
      NewHTTPClient_def Let_def)

section \<open>Both ends of a connection\<close>

text \<open>
  The status that \<^verbatim>\<open>http.ReadResponse\<close> reads: the first line behind its first space, without further
  spaces in front.
\<close>

definition http_read_status :: "bytes \<Rightarrow> error + string" where
  "http_read_status reply =
     (case strings_SplitN2 (CHR '' '') (takeWhile (\<lambda>c. c \<noteq> CHR 0x0A) reply) of
        [proto, status] \<Rightarrow> Inr (dropWhile (\<lambda>c. c = CHR '' '') status)
      | _ \<Rightarrow> Inl ''malformed HTTP response'')"

lemma takeWhile_connected:
  "takeWhile (\<lambda>c. c \<noteq> CHR 0x0A) (''HTTP/1.0 '' @ connected @ [CHR 0x0A, CHR 0x0A]) = ''HTTP/1.0'' @ CHR '' '' # connected"
  by (simp add: connected_def)

lemma handshake_status: "http_read_status connect_reply = Inr connected"
  unfolding http_read_status_def connect_reply_def takeWhile_connected
  by (subst SplitN2_append_sep) (simp_all add: connected_def)

text \<open>
  C40: the two ends understand each other.  A client that a dial returns, over HTTP or not, has an option
  that the server takes, and its bytes behind the option are left to the codec when they come in chunks
  of their own; over HTTP the server answers \<^verbatim>\<open>CONNECT\<close> with the very status that the client waits for,
  so that \<^verbatim>\<open>NewHTTPClient\<close> goes on as \<^verbatim>\<open>NewClient\<close>.
\<close>

theorem dialled_client_is_served:
  assumes "geerpc_XDial net sd late a opts w = (Returns (Inr (conn, opt)), w')"
    and "\<And>rest. decode (encode opt @ rest) = Some (opt, rest)"
    and "net_ReadResponse net conn (net_WriteString net conn connect_request w0) = (Returns (http_read_status connect_reply), w1)"
  shows "rpc_ServeHTTP decode ''CONNECT'' None (encode opt # chunks) = Http_hijacked connect_reply (Inr (opt, chunks)) \<and>
    NewHTTPClient net conn opt w0 = NewClient net conn opt w1 \<and>
    ServeConn decode (encode opt # chunks) = Inr (opt, chunks)"
proof -
  have opt: "opt_MagicNumber opt = MagicNumber" "has_codec (opt_CodecType opt)"
    using dialled_options [OF assms(1)] by auto
  have "ServeConn decode (encode opt # chunks) = Inr (opt, chunks)"
    using opt assms(2) [of "[]"] by (simp add: ServeConn_def)
  then show ?thesis
    using assms(3) by (simp add: rpc_ServeHTTP_def handshake_status NewHTTPClient_def)
qed

text \<open>A network on which everything succeeds.\<close>

definition open_net :: "(nat, nat set) net_ops" where
  "open_net = open_conns connected"

theorem dialled_client_is_served_witness:
  "geerpc_XDial open_net (\<lambda>_. []) False ''http@a'' [] {} = (Returns (Inr (0, DefaultOption)), {0}) \<and>
   NewHTTPClient open_net 0 DefaultOption {0} = NewClient open_net 0 DefaultOption {0} \<and>
   ServeConn (\<lambda>b. Some (DefaultOption, tl b)) [''O'', ''request''] = Inr (DefaultOption, [''request''])"
proof -
  have dial: "geerpc_XDial open_net (\<lambda>_. []) False ''http@a'' [] {} = (Returns (Inr (0, DefaultOption)), {0})"
    by (simp add: open_net_def geerpc_XDial_def DialHTTP_def dialTimeout_def parseOptions_def open_conns_def
        NewHTTPClient_def NewClient_def Let_def DefaultOption_def has_codec_def)
  have reply: "net_ReadResponse open_net 0 (net_WriteString open_net 0 connect_request {0}) =
      (Returns (http_read_status connect_reply), {0})"
    by (simp add: open_net_def open_conns_def handshake_status)
  from dialled_client_is_served [OF dial _ reply, of "\<lambda>b. Some (DefaultOption, tl b)" "\<lambda>_. ''O''" "[''request'']"]
  show ?thesis using dial by simp
qed

end
