(* ===== verification/Clause.thy ===== *)
theory Clause
  imports Prelude "HOL-Library.Multiset"
begin

text \<open>
  Package \<^verbatim>\<open>clause\<close> of GeeORM: the parts of an SQL statement, each generated with its variables by
  \<^verbatim>\<open>Set\<close>, and \<^verbatim>\<open>Build\<close>, which puts the parts that are there into a given order.
\<close>

section \<open>Values\<close>

text \<open>
  The values that pass as \<^verbatim>\<open>any\<close>: the data of columns, and what the generators expect (names of
  fields, the row of a record, a map).  \<open>GoFloat\<close> has the bits of a float, \<open>GoTime\<close> an instant.  A
  map has its entries in the order in which the next loop over it visits them.
\<close>

datatype any =
    GoString string
  | GoInt int
  | GoBool bool
  | GoFloat uint64
  | GoBytes bytes
  | GoTime int
  | GoStrings "string list"
  | GoSlice "any list"
  | GoMap "(string \<times> any) list"

text \<open>The verb \<^verbatim>\<open>%s\<close>; \<open>fmt\<close> is the text that the library prints for values that are no strings.\<close>

definition sprint :: "(any \<Rightarrow> string) \<Rightarrow> any \<Rightarrow> string" where
  "sprint fmt v = (case v of GoString s \<Rightarrow> s | _ \<Rightarrow> fmt v)"

lemma sprint_GoString [simp]: "sprint fmt (GoString s) = s"
  by (simp add: sprint_def)

abbreviation bad_index :: "'a outcome" where
  "bad_index \<equiv> Panics ''index out of range''"

abbreviation bad_conversion :: "'a outcome" where
  "bad_conversion \<equiv> Panics ''interface conversion''"

section \<open>Generators\<close>

datatype ctype = INSERT | VALUES | SELECT | LIMIT | WHERE | ORDERBY | UPDATE | DELETE | COUNT

type_synonym generated = "(string \<times> any list) outcome"

definition genBindVars :: "nat \<Rightarrow> string" where
  "genBindVars num = strings_Join (replicate num ''?'') '', ''"

fun gen_insert :: "(any \<Rightarrow> string) \<Rightarrow> any list \<Rightarrow> generated" where
  "gen_insert fmt (tableName # GoStrings fields # vals) =
     Returns (''INSERT INTO '' @ sprint fmt tableName @ '' ('' @ strings_Join fields '','' @ '')'', [])"
| "gen_insert fmt (tableName # v # vals) = bad_conversion"
| "gen_insert fmt vals = bad_index"

text \<open>The loop of \<^verbatim>\<open>_values\<close>: the placeholders are those of the first row that is not empty.\<close>

fun values_loop :: "string \<Rightarrow> any list \<Rightarrow> generated" where
  "values_loop bindStr [] = Returns ([], [])"
| "values_loop bindStr (GoSlice v # vals) =
     (let b = (if bindStr = [] then genBindVars (length v) else bindStr)
      in case values_loop b vals of
           Returns (sql, vars) \<Rightarrow>
             Returns (''('' @ b @ '')'' @ (if vals = [] then [] else '', '') @ sql, v @ vars)
         | Panics e \<Rightarrow> Panics e
         | Hangs \<Rightarrow> Hangs)"
| "values_loop bindStr (v # vals) = bad_conversion"

definition gen_values :: "any list \<Rightarrow> generated" where
  "gen_values vals =
     (case values_loop [] vals of
        Returns (sql, vars) \<Rightarrow> Returns (''VALUES '' @ sql, vars)
      | Panics e \<Rightarrow> Panics e
      | Hangs \<Rightarrow> Hangs)"

fun gen_select :: "(any \<Rightarrow> string) \<Rightarrow> any list \<Rightarrow> generated" where
  "gen_select fmt (tableName # GoStrings fields # vals) =
     Returns (''SELECT '' @ strings_Join fields '','' @ '' FROM '' @ sprint fmt tableName, [])"
| "gen_select fmt (tableName # v # vals) = bad_conversion"
| "gen_select fmt vals = bad_index"

definition gen_limit :: "any list \<Rightarrow> generated" where
  "gen_limit vals = Returns (''LIMIT ?'', vals)"

fun gen_where :: "(any \<Rightarrow> string) \<Rightarrow> any list \<Rightarrow> generated" where
  "gen_where fmt (desc # vars) = Returns (''WHERE '' @ sprint fmt desc, vars)"
| "gen_where fmt [] = bad_index"

fun gen_orderBy :: "(any \<Rightarrow> string) \<Rightarrow> any list \<Rightarrow> generated" where
  "gen_orderBy fmt (desc # vals) = Returns (''ORDER BY '' @ sprint fmt desc, [])"
| "gen_orderBy fmt [] = bad_index"

fun gen_update :: "(any \<Rightarrow> string) \<Rightarrow> any list \<Rightarrow> generated" where
  "gen_update fmt (tableName # GoMap m # vals) =
     Returns (''UPDATE '' @ sprint fmt tableName @ '' SET '' @
       strings_Join (map (\<lambda>(k, v). k @ '' = ?'') m) '', '', map snd m)"
| "gen_update fmt (tableName # v # vals) = bad_conversion"
| "gen_update fmt vals = bad_index"

fun gen_delete :: "(any \<Rightarrow> string) \<Rightarrow> any list \<Rightarrow> generated" where
  "gen_delete fmt (tableName # vals) = Returns (''DELETE FROM '' @ sprint fmt tableName, [])"
| "gen_delete fmt [] = bad_index"

fun gen_count :: "(any \<Rightarrow> string) \<Rightarrow> any list \<Rightarrow> generated" where
  "gen_count fmt (tableName # vals) = gen_select fmt [tableName, GoStrings [''count(*)'']]"
| "gen_count fmt [] = bad_index"

fun generators :: "(any \<Rightarrow> string) \<Rightarrow> ctype \<Rightarrow> any list \<Rightarrow> generated" where
  "generators fmt INSERT = gen_insert fmt"
| "generators fmt VALUES = gen_values"
| "generators fmt SELECT = gen_select fmt"
| "generators fmt LIMIT = gen_limit"
| "generators fmt WHERE = gen_where fmt"
| "generators fmt ORDERBY = gen_orderBy fmt"
| "generators fmt UPDATE = gen_update fmt"
| "generators fmt DELETE = gen_delete fmt"
| "generators fmt COUNT = gen_count fmt"

section \<open>Clauses\<close>

text \<open>A missing entry of \<^verbatim>\<open>sqlVars\<close> is the empty list; the nil maps of a new clause are empty.\<close>

record Clause =
  cl_sql :: "ctype \<Rightarrow> string option"
  cl_sqlVars :: "ctype \<Rightarrow> any list"

definition new_Clause :: Clause where
  "new_Clause = \<lparr>cl_sql = Map.empty, cl_sqlVars = (\<lambda>_. [])\<rparr>"

definition clause_Set :: "(any \<Rightarrow> string) \<Rightarrow> ctype \<Rightarrow> any list \<Rightarrow> (unit, Clause) action" where
  "clause_Set fmt name vals c =
     (case generators fmt name vals of
        Returns (sql, vars) \<Rightarrow>
          (Returns (), c\<lparr>cl_sql := (cl_sql c)(name \<mapsto> sql), cl_sqlVars := (cl_sqlVars c)(name := vars)\<rparr>)
      | Panics e \<Rightarrow> (Panics e, c)
      | Hangs \<Rightarrow> (Hangs, c))"

fun build_loop :: "ctype list \<Rightarrow> Clause \<Rightarrow> string list \<times> any list" where
  "build_loop [] c = ([], [])"
| "build_loop (order # orders) c =
     (case cl_sql c order of
        Some sql \<Rightarrow>
          (let (sqls, vars) = build_loop orders c in (sql # sqls, cl_sqlVars c order @ vars))
      | None \<Rightarrow> build_loop orders c)"

definition clause_Build :: "ctype list \<Rightarrow> Clause \<Rightarrow> string \<times> any list" where
  "clause_Build orders c = (let (sqls, vars) = build_loop orders c in (strings_Join sqls '' '', vars))"

section \<open>Placeholders and variables\<close>

definition marks :: "string \<Rightarrow> nat" where
  "marks s = count_list s (CHR ''?'')"

lemma marks_append [simp]: "marks (s @ t) = marks s + marks t"
  by (simp add: marks_def)

lemma marks_Cons [simp]: "marks (c # s) = (if c = CHR ''?'' then 1 else 0) + marks s"
  by (simp add: marks_def)

lemma marks_Nil [simp]: "marks [] = 0"
  by (simp add: marks_def)

lemma marks_Join: "marks sep = 0 \<Longrightarrow> marks (strings_Join ps sep) = sum_list (map marks ps)"
  by (induction ps sep rule: strings_Join.induct) auto

lemma marks_Join_0: "marks sep = 0 \<Longrightarrow> \<forall>p \<in> set ps. marks p = 0 \<Longrightarrow> marks (strings_Join ps sep) = 0"
  by (simp add: marks_Join sum_list_eq_0_iff)

lemma marks_genBindVars [simp]: "marks (genBindVars n) = n"
  by (simp add: genBindVars_def marks_Join sum_list_replicate)

lemma genBindVars_Nil [simp]: "genBindVars n = [] \<longleftrightarrow> n = 0"
proof (cases n)
  case (Suc m)
  then have "marks (genBindVars n) \<noteq> marks []" by simp
  with Suc show ?thesis by (metis marks_Nil nat.distinct(2))
qed (simp add: genBindVars_def)

text \<open>Arguments with which a generator makes as many placeholders as variables.\<close>

fun good_table :: "any list \<Rightarrow> bool" where
  "good_table [GoString t] \<longleftrightarrow> marks t = 0"
| "good_table _ \<longleftrightarrow> False"

fun good_fields :: "any list \<Rightarrow> bool" where
  "good_fields [GoString t, GoStrings fs] \<longleftrightarrow> marks t = 0 \<and> (\<forall>f \<in> set fs. marks f = 0)"
| "good_fields _ \<longleftrightarrow> False"

fun good_where :: "any list \<Rightarrow> bool" where
  "good_where (GoString d # args) \<longleftrightarrow> marks d = length args"
| "good_where _ \<longleftrightarrow> False"

fun good_update :: "any list \<Rightarrow> bool" where
  "good_update [GoString t, GoMap m] \<longleftrightarrow> marks t = 0 \<and> (\<forall>k \<in> fst ` set m. marks k = 0)"
| "good_update _ \<longleftrightarrow> False"

fun good_rows :: "any list \<Rightarrow> bool" where
  "good_rows [] \<longleftrightarrow> True"
| "good_rows (GoSlice r # vals) \<longleftrightarrow> (\<forall>v \<in> set vals. \<exists>r'. v = GoSlice r' \<and> length r' = length r)"
| "good_rows _ \<longleftrightarrow> False"

fun good_vals :: "ctype \<Rightarrow> any list \<Rightarrow> bool" where
  "good_vals INSERT vals \<longleftrightarrow> good_fields vals"
| "good_vals VALUES vals \<longleftrightarrow> good_rows vals"
| "good_vals SELECT vals \<longleftrightarrow> good_fields vals"
| "good_vals LIMIT vals \<longleftrightarrow> length vals = 1"
| "good_vals WHERE vals \<longleftrightarrow> good_where vals"
| "good_vals ORDERBY vals \<longleftrightarrow> good_table vals"
| "good_vals UPDATE vals \<longleftrightarrow> good_update vals"
| "good_vals DELETE vals \<longleftrightarrow> good_table vals"
| "good_vals COUNT vals \<longleftrightarrow> good_table vals"

lemmas good_elims = good_table.elims(2) good_fields.elims(2) good_where.elims(2) good_update.elims(2)

lemma values_loop_good:
  assumes "\<forall>v \<in> set vals. \<exists>r. v = GoSlice r \<and> length r = n" and "bindStr = [] \<or> bindStr = genBindVars n"
  shows "\<exists>sql vars. values_loop bindStr vals = Returns (sql, vars) \<and> marks sql = length vars"
  using assms
proof (induction vals arbitrary: bindStr)
  case (Cons v vals)
  then obtain r where r: "v = GoSlice r" "length r = n" by auto
  define b where "b = (if bindStr = [] then genBindVars n else bindStr)"
  have b: "b = [] \<or> b = genBindVars n" "marks b = n" using Cons.prems(2) by (auto simp: b_def)
  obtain sql vars where "values_loop b vals = Returns (sql, vars)" "marks sql = length vars"
    using Cons.IH [OF _ b(1)] Cons.prems(1) by auto
  then show ?case using r b(2) by (cases "bindStr = []") (auto simp: b_def Let_def)
qed simp

lemma marks_assignments:
  "\<forall>k \<in> fst ` set m. marks k = 0 \<Longrightarrow> sum_list (map (marks \<circ> (\<lambda>(k, v). k @ '' = ?'')) m) = length m"
  by (induction m) auto

lemma generators_good:
  assumes "good_vals t vals"
  shows "\<exists>sql vars. generators fmt t vals = Returns (sql, vars) \<and> marks sql = length vars"
proof (cases t)
  case VALUES
  with assms have "good_rows vals" by simp
  then obtain n where "\<forall>v \<in> set vals. \<exists>r. v = GoSlice r \<and> length r = n"
    by (cases vals rule: good_rows.cases) auto
  from values_loop_good [OF this, of "[]"] VALUES show ?thesis by (auto simp: gen_values_def)
next
  case UPDATE
  with assms show ?thesis by (auto elim!: good_elims simp: marks_Join marks_assignments)
qed (use assms in \<open>auto elim!: good_elims simp: marks_Join_0 gen_limit_def\<close>)

definition balanced :: "Clause \<Rightarrow> bool" where
  "balanced c \<longleftrightarrow> (\<forall>t sql. cl_sql c t = Some sql \<longrightarrow> marks sql = length (cl_sqlVars c t))"

lemma balanced_new [simp]: "balanced new_Clause"
  by (simp add: balanced_def new_Clause_def)

lemma balanced_Set:
  assumes "balanced c" and "good_vals t vals"
  shows "\<exists>c'. clause_Set fmt t vals c = (Returns (), c') \<and> balanced c'"
  using assms(1) generators_good [OF assms(2), of fmt] by (auto simp: clause_Set_def balanced_def)

lemma balanced_build_loop:
  "balanced c \<Longrightarrow> build_loop orders c = (sqls, vars) \<Longrightarrow> sum_list (map marks sqls) = length vars"
  by (induction orders arbitrary: sqls vars) (auto simp: balanced_def split: option.splits prod.splits)

lemma balanced_Build:
  "balanced c \<Longrightarrow> clause_Build orders c = (sql, vars) \<Longrightarrow> marks sql = length vars"
  by (auto simp: clause_Build_def marks_Join balanced_build_loop split: prod.splits)

section \<open>What is built\<close>

fun clause_Sets :: "(any \<Rightarrow> string) \<Rightarrow> (ctype \<times> any list) list \<Rightarrow> (unit, Clause) action" where
  "clause_Sets fmt [] c = (Returns (), c)"
| "clause_Sets fmt ((t, vals) # sets) c = and_then (clause_Set fmt t vals c) (\<lambda>_. clause_Sets fmt sets)"

text \<open>The part of each kind is generated from the last arguments that were set for it.\<close>

fun last_set :: "(ctype \<times> any list) list \<Rightarrow> ctype \<Rightarrow> any list option" where
  "last_set [] t = None"
| "last_set ((t', vals) # sets) t =
     (case last_set sets t of Some v \<Rightarrow> Some v | None \<Rightarrow> (if t' = t then Some vals else None))"

definition part :: "(any \<Rightarrow> string) \<Rightarrow> (ctype \<times> any list) list \<Rightarrow> ctype \<Rightarrow> (string \<times> any list) option" where
  "part fmt sets t =
     (case last_set sets t of
        None \<Rightarrow> None
      | Some vals \<Rightarrow> (case generators fmt t vals of Returns g \<Rightarrow> Some g | _ \<Rightarrow> None))"

lemma last_set_mem: "last_set sets t = Some vals \<Longrightarrow> (t, vals) \<in> set sets"
  by (induction sets) (auto split: option.splits if_splits)

lemma clause_Sets_parts:
  assumes "\<forall>(t, vals) \<in> set sets. good_vals t vals"
  shows "\<exists>c'. clause_Sets fmt sets c = (Returns (), c') \<and>
    (\<forall>t. case part fmt sets t of
           Some (sql, vars) \<Rightarrow> cl_sql c' t = Some sql \<and> cl_sqlVars c' t = vars
         | None \<Rightarrow> cl_sql c' t = cl_sql c t \<and> cl_sqlVars c' t = cl_sqlVars c t)"
  using assms
proof (induction sets arbitrary: c)
  case (Cons x sets)
  obtain t vals where x: "x = (t, vals)" by fastforce
  obtain sql vars where g: "generators fmt t vals = Returns (sql, vars)"
    using Cons.prems generators_good x by fastforce
  define c1 where "c1 = c\<lparr>cl_sql := (cl_sql c)(t \<mapsto> sql), cl_sqlVars := (cl_sqlVars c)(t := vars)\<rparr>"
  obtain c' where c': "clause_Sets fmt sets c1 = (Returns (), c')"
    and parts: "\<forall>t. case part fmt sets t of
           Some (sql, vars) \<Rightarrow> cl_sql c' t = Some sql \<and> cl_sqlVars c' t = vars
         | None \<Rightarrow> cl_sql c' t = cl_sql c1 t \<and> cl_sqlVars c' t = cl_sqlVars c1 t"
    using Cons.IH [of c1] Cons.prems by auto
  have some: "generators fmt u vs \<noteq> Panics e \<and> generators fmt u vs \<noteq> Hangs" if "last_set sets u = Some vs" for u vs e
    using Cons.prems generators_good [of u vs fmt] last_set_mem [OF that] by fastforce
  have "case part fmt (x # sets) u of
           Some (sql, vars) \<Rightarrow> cl_sql c' u = Some sql \<and> cl_sqlVars c' u = vars
         | None \<Rightarrow> cl_sql c' u = cl_sql c u \<and> cl_sqlVars c' u = cl_sqlVars c u" for u
    using spec [OF parts, of u] some [of u] g
    by (auto simp: part_def x c1_def split: option.splits outcome.splits)
  then show ?case using c' g by (auto simp: x clause_Set_def c1_def)
qed (simp add: part_def)

text \<open>
  C34: a statement is what its parts are.  After any calls of \<^verbatim>\<open>Set\<close> with arguments that fit their
  kinds, \<^verbatim>\<open>Build\<close> joins, in the order asked for, the parts that were set, each generated from
  its last arguments, whatever the order of the calls; and the statement has exactly one
  placeholder for each variable.
\<close>

theorem built_statement:
  assumes "\<forall>(t, vals) \<in> set sets. good_vals t vals"
  shows "\<exists>c. clause_Sets fmt sets new_Clause = (Returns (), c) \<and>
    (\<forall>orders. clause_Build orders c =
       (strings_Join (map fst (List.map_filter (part fmt sets) orders)) '' '',
        concat (map snd (List.map_filter (part fmt sets) orders))) \<and>
       marks (fst (clause_Build orders c)) = length (snd (clause_Build orders c)))"
proof -
  obtain c where c: "clause_Sets fmt sets new_Clause = (Returns (), c)"
    and all: "\<forall>t. case part fmt sets t of
           Some (sql, vars) \<Rightarrow> cl_sql c t = Some sql \<and> cl_sqlVars c t = vars
         | None \<Rightarrow> cl_sql c t = cl_sql new_Clause t \<and> cl_sqlVars c t = cl_sqlVars new_Clause t"
    using clause_Sets_parts [OF assms, of fmt new_Clause] by blast
  have parts: "case part fmt sets t of
           Some (sql, vars) \<Rightarrow> cl_sql c t = Some sql \<and> cl_sqlVars c t = vars
         | None \<Rightarrow> cl_sql c t = None \<and> cl_sqlVars c t = []" for t
    using spec [OF all, of t] by (auto simp: new_Clause_def split: option.splits)
  have loop: "build_loop orders c =
      (map fst (List.map_filter (part fmt sets) orders), concat (map snd (List.map_filter (part fmt sets) orders)))"
    for orders
  proof (induction orders)
    case (Cons t orders)
    then show ?case using parts [of t] by (auto simp: map_filter_simps split: option.splits)
  qed (simp add: map_filter_simps)
  have "marks sql = length vars" if "cl_sql c t = Some sql" "cl_sqlVars c t = vars" for t sql vars
    using parts [of t] that generators_good [of t _ fmt] assms last_set_mem [of sets t]
    by (fastforce simp: part_def split: option.splits outcome.splits)
  then have "balanced c" by (simp add: balanced_def)
  with c loop show ?thesis
    by (fastforce simp: clause_Build_def intro: balanced_Build)
qed

theorem built_statement_witness:
  "\<exists>c. clause_Sets (\<lambda>_. [])
      [(LIMIT, [GoInt 3]), (SELECT, [GoString ''User'', GoStrings [''*'']]),
       (WHERE, [GoString ''Name = ?'', GoString ''Tom'']), (ORDERBY, [GoString ''Age ASC''])] new_Clause = (Returns (), c) \<and>
    clause_Build [SELECT, WHERE, ORDERBY, LIMIT] c =
      (''SELECT * FROM User WHERE Name = ? ORDER BY Age ASC LIMIT ?'', [GoString ''Tom'', GoInt 3])"
  using built_statement [of "[(LIMIT, [GoInt 3]), (SELECT, [GoString ''User'', GoStrings [''*'']]),
       (WHERE, [GoString ''Name = ?'', GoString ''Tom'']), (ORDERBY, [GoString ''Age ASC''])]" "\<lambda>_. []"]
  by (auto simp: part_def map_filter_simps gen_limit_def)

end
