(* ===== verification/Schema.thy ===== *)
theory Schema
  imports Clause
begin

text \<open>
  Packages \<^verbatim>\<open>dialect\<close> and \<^verbatim>\<open>schema\<close> of GeeORM: the column types of a database, and the table that
  belongs to a Go struct.
\<close>

section \<open>What reflection tells of a type\<close>

datatype kind =
    KBool | KInt | KInt8 | KInt16 | KInt32 | KInt64
  | KUint | KUint8 | KUint16 | KUint32 | KUint64 | KUintptr
  | KFloat32 | KFloat64 | KComplex64 | KComplex128
  | KArray | KChan | KFunc | KInterface | KMap | KPtr | KSlice | KString | KStruct | KUnsafePointer

text \<open>\<open>ft_time\<close>: the type is \<^verbatim>\<open>time.Time\<close>; \<open>ft_kind_text\<close> is how its kind prints.\<close>

record field_type =
  ft_Name :: string
  ft_Kind :: kind
  ft_kind_text :: string
  ft_time :: bool

text \<open>The tag of a field is the list of its keys and values, as \<^verbatim>\<open>Lookup\<close> parses it.\<close>

record struct_field =
  sf_Name :: string
  sf_Anonymous :: bool
  sf_Type :: field_type
  sf_Tag :: "(string \<times> string) list"

record struct_type =
  st_Name :: string
  st_PkgPath :: string
  st_Fields :: "struct_field list"

text \<open>
  A model value is a struct or a pointer to one; the structs that pointers point to are in a heap.
  Two model values have the same type if their struct types are equal and both or none are pointers.
\<close>

type_synonym go_struct = "(string \<times> any) list"
type_synonym heap = "nat \<Rightarrow> go_struct"

datatype model = MPtr struct_type nat | MVal struct_type go_struct

fun model_type :: "model \<Rightarrow> bool \<times> struct_type" where
  "model_type (MPtr t a) = (True, t)"
| "model_type (MVal t v) = (False, t)"

fun indirect :: "heap \<Rightarrow> model \<Rightarrow> go_struct" where
  "indirect h (MPtr t a) = h a"
| "indirect h (MVal t v) = v"

section \<open>Dialects\<close>

record Dialect =
  DataTypeOf :: "field_type \<Rightarrow> string outcome"
  TableExistSQL :: "string \<Rightarrow> string \<times> any list"

definition sqlite3_DataTypeOf :: "field_type \<Rightarrow> string outcome" where
  "sqlite3_DataTypeOf typ =
     (let invalid = Panics (''invalid sql type '' @ ft_Name typ @ '' ('' @ ft_kind_text typ @ '')'')
      in if ft_Kind typ = KBool then Returns ''bool''
         else if ft_Kind typ \<in> {KInt, KInt8, KInt16, KInt32, KUint, KUint8, KUint16, KUint32, KUintptr}
           then Returns ''integer''
         else if ft_Kind typ \<in> {KInt64, KUint64} then Returns ''bigint''
         else if ft_Kind typ \<in> {KFloat32, KFloat64} then Returns ''real''
         else if ft_Kind typ = KString then Returns ''text''
         else if ft_Kind typ \<in> {KArray, KSlice} then Returns ''blob''
         else if ft_Kind typ = KStruct then (if ft_time typ then Returns ''datetime'' else invalid)
         else invalid)"

definition sqlite3_TableExistSQL :: "string \<Rightarrow> string \<times> any list" where
  "sqlite3_TableExistSQL tableName =
     (''SELECT name FROM sqlite_master WHERE type='' @ [CHR 0x27] @ ''table'' @ [CHR 0x27] @ '' and name = ?'',
      [GoString tableName])"

definition sqlite3 :: Dialect where
  "sqlite3 = \<lparr>DataTypeOf = sqlite3_DataTypeOf, TableExistSQL = sqlite3_TableExistSQL\<rparr>"

lemma sqlite3_simps [simp]: "TableExistSQL sqlite3 = sqlite3_TableExistSQL" "DataTypeOf sqlite3 = sqlite3_DataTypeOf"
  by (simp_all add: sqlite3_def)

definition RegisterDialect ::
  "string \<Rightarrow> Dialect \<Rightarrow> (string \<Rightarrow> Dialect option) \<Rightarrow> string \<Rightarrow> Dialect option" where
  "RegisterDialect name dialect dialectsMap = dialectsMap(name \<mapsto> dialect)"

definition GetDialect :: "string \<Rightarrow> (string \<Rightarrow> Dialect option) \<Rightarrow> Dialect option" where
  "GetDialect name dialectsMap = dialectsMap name"

text \<open>The map after the initialisation of the package.\<close>

definition init_dialects :: "string \<Rightarrow> Dialect option" where
  "init_dialects = RegisterDialect ''sqlite3'' sqlite3 Map.empty"

text \<open>
  The contract of a dialect: the names of column types and the query for a table have as many
  placeholders as variables.
\<close>

locale sql_dialect =
  fixes d :: Dialect
  assumes type_marks: "DataTypeOf d ty = Returns name \<Longrightarrow> name \<noteq> [] \<and> marks name = 0"
    and exist_marks: "TableExistSQL d tableName = (sql, vars) \<Longrightarrow> marks sql = length vars"
    and type_ends: "DataTypeOf d ty \<noteq> Hangs"

section \<open>Schemas\<close>

record Field =
  fd_Name :: string
  fd_Type :: string
  fd_Tag :: string

record Schema =
  sch_Model :: model
  sch_Name :: string
  sch_Fields :: "Field list"
  sch_FieldNames :: "string list"
  sch_fieldMap :: "string \<Rightarrow> Field option"

definition GetField :: "string \<Rightarrow> Schema \<Rightarrow> Field option" where
  "GetField name s = sch_fieldMap s name"

definition is_column :: "struct_field \<Rightarrow> bool" where
  "is_column f \<longleftrightarrow> \<not> sf_Anonymous f \<and> IsExported (sf_Name f)"

definition new_Field :: "string \<Rightarrow> struct_field \<Rightarrow> Field" where
  "new_Field ty f =
     \<lparr>fd_Name = sf_Name f, fd_Type = ty,
      fd_Tag = (case map_of (sf_Tag f) ''geeorm'' of Some v \<Rightarrow> v | None \<Rightarrow> [])\<rparr>"

definition add_Field :: "Field \<Rightarrow> Schema \<Rightarrow> Schema" where
  "add_Field field s =
     s\<lparr>sch_Fields := sch_Fields s @ [field], sch_FieldNames := sch_FieldNames s @ [fd_Name field],
       sch_fieldMap := (sch_fieldMap s)(fd_Name field \<mapsto> field)\<rparr>"

primrec parse_loop :: "Dialect \<Rightarrow> struct_field list \<Rightarrow> Schema \<Rightarrow> Schema outcome" where
  "parse_loop d [] s = Returns s"
| "parse_loop d (f # fs) s =
     (if is_column f then
        (case DataTypeOf d (sf_Type f) of
           Returns ty \<Rightarrow> parse_loop d fs (add_Field (new_Field ty f) s)
         | Panics e \<Rightarrow> Panics e
         | Hangs \<Rightarrow> Hangs)
      else parse_loop d fs s)"

definition Parse :: "Dialect \<Rightarrow> model \<Rightarrow> Schema outcome" where
  "Parse d dst =
     (let modelType = snd (model_type dst)
      in parse_loop d (st_Fields modelType)
           \<lparr>sch_Model = dst, sch_Name = st_Name modelType, sch_Fields = [], sch_FieldNames = [],
            sch_fieldMap = Map.empty\<rparr>)"

text \<open>A field that the struct does not have is an invalid value, whose use panics.\<close>

primrec record_loop :: "Field list \<Rightarrow> go_struct \<Rightarrow> any list outcome" where
  "record_loop [] v = Returns []"
| "record_loop (fd # fds) v =
     (case map_of v (fd_Name fd) of
        None \<Rightarrow> Panics ''reflect: call of reflect.Value.Interface on zero Value''
      | Some x \<Rightarrow>
          (case record_loop fds v of
             Returns xs \<Rightarrow> Returns (x # xs)
           | Panics e \<Rightarrow> Panics e
           | Hangs \<Rightarrow> Hangs))"

definition RecordValue :: "heap \<Rightarrow> model \<Rightarrow> Schema \<Rightarrow> any list outcome" where
  "RecordValue h dst s = record_loop (sch_Fields s) (indirect h dst)"

section \<open>Tables and structs agree\<close>

definition supported :: "Dialect \<Rightarrow> field_type \<Rightarrow> bool" where
  "supported d ty \<longleftrightarrow> (case DataTypeOf d ty of Returns _ \<Rightarrow> True | _ \<Rightarrow> False)"

definition columns :: "struct_type \<Rightarrow> struct_field list" where
  "columns t = filter is_column (st_Fields t)"

definition column_of :: "Dialect \<Rightarrow> struct_field \<Rightarrow> Field \<Rightarrow> bool" where
  "column_of d f fd \<longleftrightarrow> (\<exists>ty. DataTypeOf d (sf_Type f) = Returns ty \<and> fd = new_Field ty f)"

definition schema_ok :: "Dialect \<Rightarrow> model \<Rightarrow> Schema \<Rightarrow> bool" where
  "schema_ok d m s \<longleftrightarrow>
     sch_Model s = m \<and> sch_Name s = st_Name (snd (model_type m)) \<and>
     list_all2 (column_of d) (columns (snd (model_type m))) (sch_Fields s) \<and>
     sch_FieldNames s = map fd_Name (sch_Fields s) \<and>
     sch_FieldNames s = map sf_Name (columns (snd (model_type m))) \<and>
     (\<forall>name. GetField name s = find (\<lambda>fd. fd_Name fd = name) (sch_Fields s))"

lemma fd_Name_new [simp]: "fd_Name (new_Field ty f) = sf_Name f"
  by (simp add: new_Field_def)

lemma fold_add_Field:
  "sch_Model (fold add_Field fds s) = sch_Model s \<and> sch_Name (fold add_Field fds s) = sch_Name s \<and>
   sch_Fields (fold add_Field fds s) = sch_Fields s @ fds \<and>
   sch_FieldNames (fold add_Field fds s) = sch_FieldNames s @ map fd_Name fds"
  by (induction fds arbitrary: s) (auto simp: add_Field_def)

lemma fold_add_Field_map:
  "distinct (map fd_Name fds) \<Longrightarrow>
   sch_fieldMap (fold add_Field fds s) n =
     (case find (\<lambda>fd. fd_Name fd = n) fds of Some fd \<Rightarrow> Some fd | None \<Rightarrow> sch_fieldMap s n)"
proof (induction fds arbitrary: s)
  case (Cons fd fds)
  have "find (\<lambda>fd'. fd_Name fd' = fd_Name fd) fds = None"
    using Cons.prems by (auto simp: find_None_iff image_iff)
  with Cons show ?case by (auto simp: add_Field_def split: option.split)
qed simp

lemma parse_loop_Returns:
  "parse_loop d fs s = Returns s' \<longleftrightarrow>
   (\<exists>fds. list_all2 (column_of d) (filter is_column fs) fds \<and> s' = fold add_Field fds s)"
proof (induction fs arbitrary: s)
  case (Cons f fs)
  show ?case
  proof (cases "is_column f")
    case True
    then show ?thesis
      by (auto simp: Cons.IH column_of_def list_all2_Cons1 split: outcome.split)
  qed (simp add: Cons.IH)
qed auto

lemma column_names: "list_all2 (column_of d) fs fds \<Longrightarrow> map fd_Name fds = map sf_Name fs"
  by (induction rule: list_all2_induct) (auto simp: column_of_def)

lemma Parse_schema_ok:
  assumes "Parse d m = Returns s" and "distinct (map sf_Name (columns (snd (model_type m))))"
  shows "schema_ok d m s"
proof -
  obtain fds where fds: "list_all2 (column_of d) (columns (snd (model_type m))) fds"
    and s: "s = fold add_Field fds \<lparr>sch_Model = m, sch_Name = st_Name (snd (model_type m)), sch_Fields = [],
      sch_FieldNames = [], sch_fieldMap = Map.empty\<rparr>"
    using assms(1) by (auto simp: Parse_def Let_def parse_loop_Returns columns_def)
  have names: "map fd_Name fds = map sf_Name (columns (snd (model_type m)))" by (rule column_names [OF fds])
  with assms(2) have "distinct (map fd_Name fds)" by simp
  note get = fold_add_Field_map [OF this]
  show ?thesis
    using fds names by (simp add: schema_ok_def GetField_def get s fold_add_Field option.case_eq_if)
qed

lemma Parse_Model: "Parse d m = Returns s \<Longrightarrow> sch_Model s = m"
  by (auto simp: Parse_def Let_def parse_loop_Returns fold_add_Field)

lemma record_loop_total:
  "set (map fd_Name fds) \<subseteq> dom (map_of v) \<Longrightarrow>
   record_loop fds v = Returns (map (\<lambda>fd. the (map_of v (fd_Name fd))) fds)"
  by (induction fds) auto

lemma RecordValue_total:
  assumes "schema_ok d m s" and "set (sch_FieldNames s) \<subseteq> dom (map_of (indirect h dst))"
  shows "RecordValue h dst s = Returns (map (\<lambda>name. the (map_of (indirect h dst) name)) (sch_FieldNames s))"
proof -
  have "sch_FieldNames s = map fd_Name (sch_Fields s)" using assms(1) by (simp add: schema_ok_def)
  with assms(2) record_loop_total [of "sch_Fields s" "indirect h dst"] show ?thesis
    by (simp add: RecordValue_def)
qed

context sql_dialect
begin

lemma parse_loop_ends:
  "(case parse_loop d fs s of
      Returns s' \<Rightarrow> \<forall>f \<in> set (filter is_column fs). supported d (sf_Type f)
    | Panics e \<Rightarrow> \<exists>f \<in> set (filter is_column fs). \<not> supported d (sf_Type f)
    | Hangs \<Rightarrow> False)"
proof (induction fs arbitrary: s)
  case (Cons f fs)
  show ?case
  proof (cases "is_column f")
    case col: True
    show ?thesis
    proof (cases "DataTypeOf d (sf_Type f)")
      case (Returns ty)
      then have sup: "supported d (sf_Type f)" by (simp add: supported_def)
      show ?thesis using Cons [of "add_Field (new_Field ty f) s"] col Returns sup by (auto split: outcome.splits)
    qed (use col type_ends [of "sf_Type f"] in \<open>auto simp: supported_def\<close>)
  next
    case False
    with Cons [of s] show ?thesis by (simp split: outcome.splits)
  qed
qed simp

lemma Parse_iff_supported:
  "(\<exists>s. Parse d m = Returns s) \<longleftrightarrow> (\<forall>f \<in> set (columns (snd (model_type m))). supported d (sf_Type f))"
  "Parse d m \<noteq> Hangs"
proof -
  let ?s = "\<lparr>sch_Model = m, sch_Name = st_Name (snd (model_type m)), sch_Fields = [], sch_FieldNames = [],
    sch_fieldMap = Map.empty\<rparr>"
  have "Parse d m = parse_loop d (st_Fields (snd (model_type m))) ?s" by (simp add: Parse_def Let_def)
  then show "(\<exists>s. Parse d m = Returns s) \<longleftrightarrow> (\<forall>f \<in> set (columns (snd (model_type m))). supported d (sf_Type f))"
    and "Parse d m \<noteq> Hangs"
    using parse_loop_ends [of "st_Fields (snd (model_type m))" ?s]
    by (auto simp: columns_def split: outcome.splits)
qed

lemma schema_type_marks:
  assumes "schema_ok d m s" and "fd \<in> set (sch_Fields s)"
  shows "marks (fd_Type fd) = 0"
proof -
  have "list_all2 (column_of d) (columns (snd (model_type m))) (sch_Fields s)"
    using assms(1) by (simp add: schema_ok_def)
  then obtain f where "column_of d f fd" using assms(2) by (metis in_set_conv_nth list_all2_conv_all_nth)
  then show ?thesis using type_marks by (auto simp: column_of_def new_Field_def)
qed

end

interpretation lite: sql_dialect sqlite3
  by unfold_locales
    (auto simp: sqlite3_def sqlite3_DataTypeOf_def sqlite3_TableExistSQL_def Let_def split: if_splits)

definition int_type :: field_type where
  "int_type = \<lparr>ft_Name = ''int'', ft_Kind = KInt, ft_kind_text = ''int'', ft_time = False\<rparr>"

definition string_type :: field_type where
  "string_type = \<lparr>ft_Name = ''string'', ft_Kind = KString, ft_kind_text = ''string'', ft_time = False\<rparr>"

definition User_type :: struct_type where
  "User_type = \<lparr>st_Name = ''User'', st_PkgPath = ''session'', st_Fields =
     [\<lparr>sf_Name = ''Name'', sf_Anonymous = False, sf_Type = string_type,
       sf_Tag = [(''geeorm'', ''PRIMARY KEY'')]\<rparr>,
      \<lparr>sf_Name = ''Age'', sf_Anonymous = False, sf_Type = int_type, sf_Tag = []\<rparr>,
      \<lparr>sf_Name = ''note'', sf_Anonymous = False, sf_Type = string_type, sf_Tag = []\<rparr>]\<rparr>"

definition user :: "string \<Rightarrow> int \<Rightarrow> go_struct" where
  "user name age = [(''Name'', GoString name), (''Age'', GoInt age), (''note'', GoString [])]"

lemma User_columns:
  "columns User_type =
     [\<lparr>sf_Name = ''Name'', sf_Anonymous = False, sf_Type = string_type,
       sf_Tag = [(''geeorm'', ''PRIMARY KEY'')]\<rparr>,
      \<lparr>sf_Name = ''Age'', sf_Anonymous = False, sf_Type = int_type, sf_Tag = []\<rparr>]"
  by (simp add: columns_def User_type_def is_column_def IsExported_def)

lemma User_parse:
  assumes "snd (model_type m) = User_type"
  shows "\<exists>t. Parse sqlite3 m = Returns t \<and> sch_Model t = m \<and> sch_Name t = ''User'' \<and>
    sch_FieldNames t = [''Name'', ''Age'']"
proof -
  obtain t where t: "Parse sqlite3 m = Returns t"
    using lite.Parse_iff_supported(1) [of m]
    by (auto simp: assms User_columns supported_def sqlite3_def sqlite3_DataTypeOf_def int_type_def string_type_def)
  have "schema_ok sqlite3 m t" by (rule Parse_schema_ok [OF t]) (simp add: assms User_columns)
  then have "sch_Model t = m" "sch_Name t = st_Name User_type" "sch_FieldNames t = map sf_Name (columns User_type)"
    unfolding schema_ok_def assms by metis+
  with t show ?thesis by (simp add: User_columns) (simp add: User_type_def)
qed

lemma user_fields [simp]:
  "map_of (user name age) ''Name'' = Some (GoString name)" "map_of (user name age) ''Age'' = Some (GoInt age)"
  by (simp_all add: user_def)



end
