(* ===== verification/Session.thy ===== *)
theory Session
  imports Schema
begin

text \<open>
  Package \<^verbatim>\<open>session\<close> of GeeORM: a session collects the clauses of one statement, runs it, and starts
  afresh.  The database is behind the operations of \<open>env\<close> on the world \<open>'w\<close>; the methods of model
  structs that serve as hooks are client code, which may change the session, the heap and the world.
\<close>

section \<open>State\<close>

text \<open>
  The rows of a query, each as the database delivers it; \<open>rw_id\<close> names the open result.
\<close>

record rows =
  rw_id :: nat
  rw_Columns :: "error + string list"
  rw_data :: "any list list"

text \<open>\<open>s_heap\<close>, \<open>s_next\<close> and \<open>s_world\<close> are what lies outside the session: structs, and the database.\<close>

record ('tx, 'w) Session =
  s_dialect :: Dialect
  s_tx :: "'tx option"
  s_refTable :: "Schema option"
  s_clause :: Clause
  s_sql :: string
  s_sqlVars :: "any list"
  s_heap :: heap
  s_next :: nat
  s_world :: 'w

text \<open>
  Database operations take the transaction, if there is one.  \<open>sql_Exec\<close> has as its result what
  \<^verbatim>\<open>RowsAffected\<close> returns; \<open>sql_Scan\<close> converts a row to the types of the destinations.  \<open>hook\<close> is
  the method of a type by its name; \<open>map_iter\<close> is the order in which a loop visits a map.
\<close>

record ('tx, 'w) env =
  sql_Begin :: "'w \<Rightarrow> (error + 'tx) \<times> 'w"
  sql_Commit :: "'tx \<Rightarrow> 'w \<Rightarrow> error option \<times> 'w"
  sql_Rollback :: "'tx \<Rightarrow> 'w \<Rightarrow> error option \<times> 'w"
  sql_Exec :: "'tx option \<Rightarrow> string \<Rightarrow> any list \<Rightarrow> 'w \<Rightarrow> (error + (error + int)) \<times> 'w"
  sql_Query :: "'tx option \<Rightarrow> string \<Rightarrow> any list \<Rightarrow> 'w \<Rightarrow> (error + rows) \<times> 'w"
  sql_QueryRow :: "'tx option \<Rightarrow> string \<Rightarrow> any list \<Rightarrow> 'w \<Rightarrow> (error + any list) \<times> 'w"
  sql_Close :: "rows \<Rightarrow> 'w \<Rightarrow> error option \<times> 'w"
  sql_Scan :: "field_type list \<Rightarrow> any list \<Rightarrow> error + any list"
  hook :: "bool \<times> struct_type \<Rightarrow> string \<Rightarrow> (model \<Rightarrow> (unit, ('tx, 'w) Session) action) option"
  fmt_s :: "any \<Rightarrow> string"
  map_iter :: "(string \<times> any) list \<Rightarrow> (string \<times> any) list"

abbreviation nil_deref :: "'a outcome" where
  "nil_deref \<equiv> Panics ''invalid memory address or nil pointer dereference''"

section \<open>Raw statements\<close>

definition sess_New :: "Dialect \<Rightarrow> heap \<Rightarrow> nat \<Rightarrow> 'w \<Rightarrow> ('tx, 'w) Session" where
  "sess_New dialect h next w =
     \<lparr>s_dialect = dialect, s_tx = None, s_refTable = None, s_clause = new_Clause, s_sql = [], s_sqlVars = [],
      s_heap = h, s_next = next, s_world = w\<rparr>"

definition sess_Clear :: "('tx, 'w) Session \<Rightarrow> ('tx, 'w) Session" where
  "sess_Clear s = s\<lparr>s_sql := [], s_sqlVars := [], s_clause := new_Clause\<rparr>"

definition sess_Raw :: "string \<Rightarrow> any list \<Rightarrow> ('tx, 'w) Session \<Rightarrow> ('tx, 'w) Session" where
  "sess_Raw sql vals s = s\<lparr>s_sql := s_sql s @ sql @ '' '', s_sqlVars := s_sqlVars s @ vals\<rparr>"

text \<open>What a statement goes to: the transaction, or the database itself.\<close>

definition sess_DB :: "('tx, 'w) Session \<Rightarrow> 'tx option" where
  "sess_DB s = (case s_tx s of Some tx \<Rightarrow> Some tx | None \<Rightarrow> None)"

lemma sess_DB_tx [simp]: "sess_DB s = s_tx s"
  by (simp add: sess_DB_def split: option.split)

definition sess_Exec ::
  "('tx, 'w) env \<Rightarrow> ('tx, 'w) Session \<Rightarrow> (error + (error + int)) \<times> ('tx, 'w) Session" where
  "sess_Exec env s =
     (let (res, w) = sql_Exec env (sess_DB s) (s_sql s) (s_sqlVars s) (s_world s)
      in (res, sess_Clear (s\<lparr>s_world := w\<rparr>)))"

definition sess_QueryRow ::
  "('tx, 'w) env \<Rightarrow> ('tx, 'w) Session \<Rightarrow> (error + any list) \<times> ('tx, 'w) Session" where
  "sess_QueryRow env s =
     (let (row, w) = sql_QueryRow env (sess_DB s) (s_sql s) (s_sqlVars s) (s_world s)
      in (row, sess_Clear (s\<lparr>s_world := w\<rparr>)))"

definition sess_QueryRows ::
  "('tx, 'w) env \<Rightarrow> ('tx, 'w) Session \<Rightarrow> (error + rows) \<times> ('tx, 'w) Session" where
  "sess_QueryRows env s =
     (let (rows, w) = sql_Query env (sess_DB s) (s_sql s) (s_sqlVars s) (s_world s)
      in (rows, sess_Clear (s\<lparr>s_world := w\<rparr>)))"

section \<open>Tables and hooks\<close>

definition sess_Model :: "model \<Rightarrow> (Schema, ('tx, 'w) Session) action" where
  "sess_Model val s =
     (case s_refTable s of
        Some table \<Rightarrow>
          if model_type val = model_type (sch_Model table) then (Returns table, s)
          else
            (case Parse (s_dialect s) val of
               Returns table' \<Rightarrow> (Returns table', s\<lparr>s_refTable := Some table'\<rparr>)
             | Panics e \<Rightarrow> (Panics e, s)
             | Hangs \<Rightarrow> (Hangs, s))
      | None \<Rightarrow>
          (case Parse (s_dialect s) val of
             Returns table' \<Rightarrow> (Returns table', s\<lparr>s_refTable := Some table'\<rparr>)
           | Panics e \<Rightarrow> (Panics e, s)
           | Hangs \<Rightarrow> (Hangs, s)))"

text \<open>Every use of the result of \<^verbatim>\<open>RefTable\<close> reads a field of it, so a nil table panics.\<close>

definition sess_RefTable :: "(Schema, ('tx, 'w) Session) action" where
  "sess_RefTable s = (case s_refTable s of Some table \<Rightarrow> (Returns table, s) | None \<Rightarrow> (nil_deref, s))"

definition call_hook :: "('tx, 'w) env \<Rightarrow> string \<Rightarrow> model \<Rightarrow> (unit, ('tx, 'w) Session) action" where
  "call_hook env meth val s =
     (case hook env (model_type val) meth of Some f \<Rightarrow> f val s | None \<Rightarrow> (Returns (), s))"

definition CallMethod :: "('tx, 'w) env \<Rightarrow> string \<Rightarrow> model option \<Rightarrow> (unit, ('tx, 'w) Session) action" where
  "CallMethod env meth value s =
     (case value of
        Some val \<Rightarrow> call_hook env meth val s
      | None \<Rightarrow> and_then (sess_RefTable s) (\<lambda>table. call_hook env meth (sch_Model table)))"

definition column_desc :: "Field \<Rightarrow> string" where
  "column_desc fd = fd_Name fd @ '' '' @ fd_Type fd @ '' '' @ fd_Tag fd"

definition create_sql :: "Schema \<Rightarrow> string" where
  "create_sql table =
     ''CREATE TABLE '' @ sch_Name table @ '' ('' @ strings_Join (map column_desc (sch_Fields table)) '','' @ '');''"

definition CreateTable :: "('tx, 'w) env \<Rightarrow> (error option, ('tx, 'w) Session) action" where
  "CreateTable env s =
     and_then (sess_RefTable s) (\<lambda>table s1.
       let (res, s2) = sess_Exec env (sess_Raw (create_sql table) [] s1)
       in (Returns (case res of Inl err \<Rightarrow> Some err | Inr _ \<Rightarrow> None), s2))"

definition drop_sql :: "Schema \<Rightarrow> string" where
  "drop_sql table = ''DROP TABLE IF EXISTS '' @ sch_Name table"

definition DropTable :: "('tx, 'w) env \<Rightarrow> (error option, ('tx, 'w) Session) action" where
  "DropTable env s =
     and_then (sess_RefTable s) (\<lambda>table s1.
       let (res, s2) = sess_Exec env (sess_Raw (drop_sql table) [] s1)
       in (Returns (case res of Inl err \<Rightarrow> Some err | Inr _ \<Rightarrow> None), s2))"

definition string_dest :: field_type where
  "string_dest = \<lparr>ft_Name = ''string'', ft_Kind = KString, ft_kind_text = ''string'', ft_time = False\<rparr>"

definition int64_dest :: field_type where
  "int64_dest = \<lparr>ft_Name = ''int64'', ft_Kind = KInt64, ft_kind_text = ''int64'', ft_time = False\<rparr>"

text \<open>The error of \<^verbatim>\<open>Scan\<close> is dropped; the destination then has its first value.\<close>

definition HasTable :: "('tx, 'w) env \<Rightarrow> (bool, ('tx, 'w) Session) action" where
  "HasTable env s =
     and_then (sess_RefTable s) (\<lambda>table s1.
       let (sql, vals) = TableExistSQL (s_dialect s1) (sch_Name table);
           (row, s2) = sess_QueryRow env (sess_Raw sql vals s1);
           tmp = (case row of
                    Inl err \<Rightarrow> []
                  | Inr r \<Rightarrow> (case sql_Scan env [string_dest] r of Inr [GoString x] \<Rightarrow> x | _ \<Rightarrow> []))
       in (Returns (tmp = sch_Name table), s2))"

section \<open>Clauses of a statement\<close>

definition sess_Set :: "('tx, 'w) env \<Rightarrow> ctype \<Rightarrow> any list \<Rightarrow> (unit, ('tx, 'w) Session) action" where
  "sess_Set env name vals s =
     (let (out, c) = clause_Set (fmt_s env) name vals (s_clause s) in (out, s\<lparr>s_clause := c\<rparr>))"

definition sess_Limit :: "('tx, 'w) env \<Rightarrow> int \<Rightarrow> (unit, ('tx, 'w) Session) action" where
  "sess_Limit env num = sess_Set env LIMIT [GoInt num]"

definition sess_Where :: "('tx, 'w) env \<Rightarrow> string \<Rightarrow> any list \<Rightarrow> (unit, ('tx, 'w) Session) action" where
  "sess_Where env desc args = sess_Set env WHERE (GoString desc # args)"

definition sess_OrderBy :: "('tx, 'w) env \<Rightarrow> string \<Rightarrow> (unit, ('tx, 'w) Session) action" where
  "sess_OrderBy env desc = sess_Set env ORDERBY [GoString desc]"

text \<open>The statement of the given clauses is built and appended to what is there.\<close>

definition sess_Build :: "ctype list \<Rightarrow> ('tx, 'w) Session \<Rightarrow> ('tx, 'w) Session" where
  "sess_Build orders s = (let (sql, vars) = clause_Build orders (s_clause s) in sess_Raw sql vars s)"

section \<open>Records\<close>

primrec insert_loop :: "('tx, 'w) env \<Rightarrow> model list \<Rightarrow> any list \<Rightarrow> (any list, ('tx, 'w) Session) action" where
  "insert_loop env [] recordVals s = (Returns recordVals, s)"
| "insert_loop env (val # vals) recordVals s =
     and_then (CallMethod env ''BeforeInsert'' (Some val) s) (\<lambda>_ s1.
     and_then (sess_Model val s1) (\<lambda>table s2.
     and_then (sess_Set env INSERT [GoString (sch_Name table), GoStrings (sch_FieldNames table)] s2) (\<lambda>_ s3.
     and_then (RecordValue (s_heap s3) val table, s3) (\<lambda>row s4.
     insert_loop env vals (recordVals @ [GoSlice row]) s4))))"

text \<open>The last steps of \<^verbatim>\<open>Insert\<close>, \<^verbatim>\<open>Update\<close> and \<^verbatim>\<open>Delete\<close>: the statement runs, then the hook.\<close>

definition exec_then ::
  "('tx, 'w) env \<Rightarrow> string \<Rightarrow> (error + int, ('tx, 'w) Session) action" where
  "exec_then env meth s =
     (let (res, s1) = sess_Exec env s
      in case res of
           Inl err \<Rightarrow> (Returns (Inl err), s1)
         | Inr affected \<Rightarrow> and_then (CallMethod env meth None s1) (\<lambda>_ s2. (Returns affected, s2)))"

definition sess_Insert :: "('tx, 'w) env \<Rightarrow> model list \<Rightarrow> (error + int, ('tx, 'w) Session) action" where
  "sess_Insert env vals s =
     and_then (insert_loop env vals [] s) (\<lambda>recordVals s1.
     and_then (sess_Set env VALUES recordVals s1) (\<lambda>_ s2.
     exec_then env ''AfterInsert'' (sess_Build [INSERT, VALUES] s2)))"

text \<open>
  A new variable of a type.  Fields of types that have no column type are never read or written.
\<close>

definition zero_value :: "field_type \<Rightarrow> any" where
  "zero_value typ =
     (case ft_Kind typ of
        KBool \<Rightarrow> GoBool False
      | KFloat32 \<Rightarrow> GoFloat 0
      | KFloat64 \<Rightarrow> GoFloat 0
      | KString \<Rightarrow> GoString []
      | KArray \<Rightarrow> GoBytes []
      | KSlice \<Rightarrow> GoBytes []
      | KStruct \<Rightarrow> GoTime 0
      | _ \<Rightarrow> GoInt 0)"

definition zero_struct :: "struct_type \<Rightarrow> go_struct" where
  "zero_struct t = map (\<lambda>f. (sf_Name f, zero_value (sf_Type f))) (st_Fields t)"

definition dest_types :: "struct_type \<Rightarrow> string list \<Rightarrow> field_type list" where
  "dest_types t names =
     concat (map (\<lambda>name. map sf_Type (take 1 (filter (\<lambda>f. sf_Name f = name) (st_Fields t)))) names)"

definition set_fields :: "string list \<Rightarrow> any list \<Rightarrow> go_struct \<Rightarrow> go_struct" where
  "set_fields names vals v =
     map (\<lambda>(k, x). (k, case map_of (zip names vals) k of Some y \<Rightarrow> y | None \<Rightarrow> x)) v"

text \<open>
  The loop over the rows: each one gets a new variable, whose address goes to the hook, and a copy
  of which is appended to the slice.  When \<^verbatim>\<open>Scan\<close> fails, the loop ends and the rows stay open.
\<close>

primrec find_loop ::
  "('tx, 'w) env \<Rightarrow> struct_type \<Rightarrow> Schema \<Rightarrow> any list list \<Rightarrow> go_struct list \<Rightarrow>
   (error option \<times> go_struct list, ('tx, 'w) Session) action"
where
  "find_loop env t table [] dst s = (Returns (None, dst), s)"
| "find_loop env t table (row # data) dst s =
     (let a = s_next s in
      case sql_Scan env (dest_types t (sch_FieldNames table)) row of
        Inl err \<Rightarrow> (Returns (Some err, dst), s\<lparr>s_next := a + 1\<rparr>)
      | Inr vals \<Rightarrow>
          and_then
            (CallMethod env ''AfterQuery'' (Some (MPtr t a))
               (s\<lparr>s_next := a + 1,
                  s_heap := (s_heap s)(a := set_fields (sch_FieldNames table) vals (zero_struct t))\<rparr>))
            (\<lambda>_ s1. find_loop env t table data (dst @ [s_heap s1 a]) s1))"

definition sess_Find ::
  "('tx, 'w) env \<Rightarrow> struct_type \<Rightarrow> go_struct list \<Rightarrow> (error option \<times> go_struct list, ('tx, 'w) Session) action"
where
  "sess_Find env t dst s =
     and_then (CallMethod env ''BeforeQuery'' None s) (\<lambda>_ s1.
     and_then (sess_Model (MVal t (zero_struct t)) s1) (\<lambda>table s2.
     and_then (sess_Set env SELECT [GoString (sch_Name table), GoStrings (sch_FieldNames table)] s2) (\<lambda>_ s3.
       let (res, s4) = sess_QueryRows env (sess_Build [SELECT, WHERE, ORDERBY, LIMIT] s3)
       in case res of
            Inl err \<Rightarrow> (Returns (Some err, dst), s4)
          | Inr rows \<Rightarrow>
              and_then (find_loop env t table (rw_data rows) dst s4) (\<lambda>(err, dst') s5.
                case err of
                  Some e \<Rightarrow> (Returns (Some e, dst'), s5)
                | None \<Rightarrow>
                    (let (cerr, w) = sql_Close env rows (s_world s5)
                     in (Returns (cerr, dst'), s5\<lparr>s_world := w\<rparr>))))))"

fun kv_map :: "any list \<Rightarrow> (string \<times> any) list \<Rightarrow> (string \<times> any) list outcome" where
  "kv_map [] m = Returns m"
| "kv_map [k] m = (case k of GoString _ \<Rightarrow> bad_index | _ \<Rightarrow> bad_conversion)"
| "kv_map (k # v # kvs) m =
     (case k of
        GoString key \<Rightarrow> kv_map kvs (filter (\<lambda>(k', _). k' \<noteq> key) m @ [(key, v)])
      | _ \<Rightarrow> bad_conversion)"

definition update_map :: "('tx, 'w) env \<Rightarrow> any list \<Rightarrow> (string \<times> any) list outcome" where
  "update_map env kvs =
     (case kvs of
        [] \<Rightarrow> bad_index
      | GoMap m # _ \<Rightarrow> Returns m
      | _ \<Rightarrow> (case kv_map kvs [] of
                Returns m \<Rightarrow> Returns (map_iter env m)
              | Panics e \<Rightarrow> Panics e
              | Hangs \<Rightarrow> Hangs))"

definition sess_Update :: "('tx, 'w) env \<Rightarrow> any list \<Rightarrow> (error + int, ('tx, 'w) Session) action" where
  "sess_Update env kvs s =
     and_then (CallMethod env ''BeforeUpdate'' None s) (\<lambda>_ s1.
     and_then (update_map env kvs, s1) (\<lambda>m s2.
     and_then (sess_RefTable s2) (\<lambda>table s3.
     and_then (sess_Set env UPDATE [GoString (sch_Name table), GoMap m] s3) (\<lambda>_ s4.
     exec_then env ''AfterUpdate'' (sess_Build [UPDATE, WHERE] s4)))))"

definition sess_Delete :: "('tx, 'w) env \<Rightarrow> (error + int, ('tx, 'w) Session) action" where
  "sess_Delete env s =
     and_then (CallMethod env ''BeforeDelete'' None s) (\<lambda>_ s1.
     and_then (sess_RefTable s1) (\<lambda>table s2.
     and_then (sess_Set env DELETE [GoString (sch_Name table)] s2) (\<lambda>_ s3.
     exec_then env ''AfterDelete'' (sess_Build [DELETE, WHERE] s3))))"

definition sess_Count :: "('tx, 'w) env \<Rightarrow> (error + int, ('tx, 'w) Session) action" where
  "sess_Count env s =
     and_then (sess_RefTable s) (\<lambda>table s1.
     and_then (sess_Set env COUNT [GoString (sch_Name table)] s1) (\<lambda>_ s2.
       let (row, s3) = sess_QueryRow env (sess_Build [COUNT, WHERE] s2)
       in (Returns (case row of
                      Inl err \<Rightarrow> Inl err
                    | Inr r \<Rightarrow>
                        (case sql_Scan env [int64_dest] r of
                           Inl err \<Rightarrow> Inl err
                         | Inr [GoInt n] \<Rightarrow> Inr n
                         | Inr _ \<Rightarrow> Inr 0)), s3)))"

definition sess_First :: "('tx, 'w) env \<Rightarrow> struct_type \<Rightarrow> (error + go_struct, ('tx, 'w) Session) action" where
  "sess_First env t s =
     and_then (sess_Limit env 1 s) (\<lambda>_ s1.
     and_then (sess_Find env t [] s1) (\<lambda>(err, dst) s2.
       (Returns (case err of
                   Some e \<Rightarrow> Inl e
                 | None \<Rightarrow> (case dst of [] \<Rightarrow> Inl ''NOT FOUND'' | v # _ \<Rightarrow> Inr v)), s2)))"

section \<open>Transactions\<close>

definition sess_Begin :: "('tx, 'w) env \<Rightarrow> ('tx, 'w) Session \<Rightarrow> error option \<times> ('tx, 'w) Session" where
  "sess_Begin env s =
     (case sql_Begin env (s_world s) of
        (Inl err, w) \<Rightarrow> (Some err, s\<lparr>s_tx := None, s_world := w\<rparr>)
      | (Inr tx, w) \<Rightarrow> (None, s\<lparr>s_tx := Some tx, s_world := w\<rparr>))"

definition sess_Commit :: "('tx, 'w) env \<Rightarrow> (error option, ('tx, 'w) Session) action" where
  "sess_Commit env s =
     (case s_tx s of
        None \<Rightarrow> (nil_deref, s)
      | Some tx \<Rightarrow> (let (err, w) = sql_Commit env tx (s_world s) in (Returns err, s\<lparr>s_world := w\<rparr>)))"

definition sess_Rollback :: "('tx, 'w) env \<Rightarrow> (error option, ('tx, 'w) Session) action" where
  "sess_Rollback env s =
     (case s_tx s of
        None \<Rightarrow> (nil_deref, s)
      | Some tx \<Rightarrow> (let (err, w) = sql_Rollback env tx (s_world s) in (Returns err, s\<lparr>s_world := w\<rparr>)))"

section \<open>A small database\<close>

text \<open>
  An environment to try the operations on: every statement that changes data is stored as a row of
  its variables, every query yields all rows, and there are no hooks.
\<close>

definition row_store :: "(nat, any list list) env" where
  "row_store =
     \<lparr>sql_Begin = (\<lambda>w. (Inr 0, w)), sql_Commit = (\<lambda>tx w. (None, w)), sql_Rollback = (\<lambda>tx w. (None, w)),
      sql_Exec = (\<lambda>tx sql vars w. (Inr (Inr 1), w @ [vars])),
      sql_Query = (\<lambda>tx sql vars w. (Inr \<lparr>rw_id = 0, rw_Columns = Inr [], rw_data = w\<rparr>, w)),
      sql_QueryRow = (\<lambda>tx sql vars w. (Inl ''sql: no rows in result set'', w)),
      sql_Close = (\<lambda>rows w. (None, w)), sql_Scan = (\<lambda>types row. Inr row), hook = (\<lambda>_ _. None),
      fmt_s = (\<lambda>_. []), map_iter = (\<lambda>m. m)\<rparr>"

lemma row_store_simps [simp]:
  "sql_Exec row_store tx sql vars w = (Inr (Inr 1), w @ [vars])"
  "sql_Query row_store tx sql vars w = (Inr \<lparr>rw_id = 0, rw_Columns = Inr [], rw_data = w\<rparr>, w)"
  "sql_QueryRow row_store tx sql vars w = (Inl ''sql: no rows in result set'', w)"
  "sql_Close row_store rows w = (None, w)" "sql_Scan row_store types row = Inr row"
  "hook row_store = (\<lambda>_ _. None)" "map_iter row_store m = m"
  by (simp_all add: row_store_def)

lemma sess_New_simps [simp]:
  "s_dialect (sess_New d h n w) = d" "s_tx (sess_New d h n w) = None" "s_refTable (sess_New d h n w) = None"
  "s_clause (sess_New d h n w) = new_Clause" "s_sql (sess_New d h n w) = []"
  "s_sqlVars (sess_New d h n w) = []" "s_heap (sess_New d h n w) = h" "s_next (sess_New d h n w) = n"
  "s_world (sess_New d h n w) = w"
  by (simp_all add: sess_New_def)

end
