(* ===== verification/Session_Contract.thy ===== *)
theory Session_Contract
  imports Session
begin

text \<open>
  What the operations of a session keep.  The locale \<open>session_invariant\<close> says which small steps of
  a session keep a property (a clause is set, a statement is built and run, a hook is called) and
  concludes that every operation keeps it.  The first interpretation, on an environment that records
  the statements, is about placeholders and variables; the second one, about what others see of an
  open transaction.
\<close>

lemma and_then_keeps:
  assumes "P (snd r)" and "\<And>a s. r = (Returns a, s) \<Longrightarrow> P s \<Longrightarrow> P (snd (f a s))"
  shows "P (snd (and_then r f))"
  using assms by (cases "(r, f)" rule: and_then.cases) auto

section \<open>The contract\<close>

locale session_invariant =
  fixes env :: "('tx, 'w) env"
    and inv :: "('tx, 'w) Session \<Rightarrow> bool"
    and table_ok :: "Schema \<Rightarrow> bool"
    and model_ok :: "model \<Rightarrow> bool"
    and row_ok :: "struct_type \<Rightarrow> any list \<Rightarrow> bool"
    and args_ok :: "ctype \<Rightarrow> any list \<Rightarrow> bool"
    and raw_ok :: "string \<Rightarrow> any list \<Rightarrow> bool"
  assumes inv_table: "inv s \<Longrightarrow> s_refTable s = Some t \<Longrightarrow> table_ok t"
    and inv_parse: "inv s \<Longrightarrow> model_ok val \<Longrightarrow> Parse (s_dialect s) val = Returns t \<Longrightarrow>
      inv (s\<lparr>s_refTable := Some t\<rparr>)"
    and inv_Set: "inv s \<Longrightarrow> args_ok k vals \<Longrightarrow> inv (snd (sess_Set env k vals s))"
    and inv_Raw: "inv s \<Longrightarrow> raw_ok sql vals \<Longrightarrow> inv (sess_Raw sql vals s)"
    and inv_Build: "inv s \<Longrightarrow> inv (sess_Build orders s)"
    and inv_Exec: "inv s \<Longrightarrow> inv (snd (sess_Exec env s))"
    and inv_QueryRow: "inv s \<Longrightarrow> inv (snd (sess_QueryRow env s))"
    and inv_QueryRows: "inv s \<Longrightarrow> inv (snd (sess_QueryRows env s))"
    and inv_Close: "inv s \<Longrightarrow> inv (s\<lparr>s_world := snd (sql_Close env rows (s_world s))\<rparr>)"
    and inv_mem: "inv s \<Longrightarrow> inv (s\<lparr>s_next := n, s_heap := h\<rparr>)"
    and inv_hook: "inv s \<Longrightarrow> hook env mt meth = Some f \<Longrightarrow> inv (snd (f val s))"
    and table_args: "table_ok t \<Longrightarrow> k \<in> {INSERT, SELECT} \<Longrightarrow>
      args_ok k [GoString (sch_Name t), GoStrings (sch_FieldNames t)]"
    and table_name: "table_ok t \<Longrightarrow> k \<in> {DELETE, COUNT} \<Longrightarrow> args_ok k [GoString (sch_Name t)]"
    and row_args: "(\<And>v. v \<in> set vals \<Longrightarrow> \<exists>r. v = GoSlice r \<and> row_ok ty r) \<Longrightarrow> args_ok VALUES vals"
    and record_row: "table_ok t \<Longrightarrow> model_type val = model_type (sch_Model t) \<Longrightarrow>
      RecordValue h val t = Returns r \<Longrightarrow> row_ok (snd (model_type val)) r"
    and limit_args: "args_ok LIMIT [GoInt i]"
    and create_raw: "table_ok t \<Longrightarrow> raw_ok (create_sql t) []"
    and drop_raw: "table_ok t \<Longrightarrow> raw_ok (drop_sql t) []"
    and exist_raw: "inv s \<Longrightarrow> TableExistSQL (s_dialect s) name = (sql, vals) \<Longrightarrow> raw_ok sql vals"
begin

lemmas seq = and_then_keeps [where P = inv]

lemma RefTable_keeps: "inv s \<Longrightarrow> inv (snd (sess_RefTable s))"
  by (simp add: sess_RefTable_def split: option.split)

lemma RefTable_result: "inv s \<Longrightarrow> sess_RefTable s = (Returns t, s') \<Longrightarrow> s' = s \<and> table_ok t"
  using inv_table by (auto simp: sess_RefTable_def split: option.splits)

lemma call_hook_keeps: "inv s \<Longrightarrow> inv (snd (call_hook env meth val s))"
  using inv_hook by (auto simp: call_hook_def split: option.split)

lemma CallMethod_keeps: "inv s \<Longrightarrow> inv (snd (CallMethod env meth value s))"
  by (cases "value") (auto simp: CallMethod_def intro!: seq call_hook_keeps RefTable_keeps)

lemma Model_keeps: "inv s \<Longrightarrow> model_ok val \<Longrightarrow> inv (snd (sess_Model val s))"
  using inv_parse by (auto simp: sess_Model_def split: option.split outcome.split)

lemma Model_result:
  assumes "inv s" and "model_ok val" and "sess_Model val s = (Returns t, s')"
  shows "inv s' \<and> table_ok t \<and> model_type val = model_type (sch_Model t)"
proof -
  have "inv s'" using Model_keeps [OF assms(1,2)] assms(3) by simp
  moreover have "s_refTable s' = Some t \<and> model_type val = model_type (sch_Model t)"
    using assms(3) Parse_Model
    by (auto simp: sess_Model_def split: option.splits outcome.splits if_splits)
  ultimately show ?thesis using inv_table by blast
qed

lemma inv_next: "inv s \<Longrightarrow> inv (s\<lparr>s_next := n\<rparr>)"
  using inv_mem [of s "s_heap s" n] by simp

text \<open>Operations on tables.\<close>

lemma exec_result_keeps: "inv s \<Longrightarrow> inv (snd (let (res, s2) = sess_Exec env s in (f res, s2)))"
  using inv_Exec [of s] by (simp add: case_prod_beta)

lemma CreateTable_keeps: "inv s \<Longrightarrow> inv (snd (CreateTable env s))"
  unfolding CreateTable_def Let_def
  by (rule seq [OF RefTable_keeps])
    (auto dest: RefTable_result simp: case_prod_beta intro!: inv_Exec inv_Raw create_raw)

lemma DropTable_keeps: "inv s \<Longrightarrow> inv (snd (DropTable env s))"
  unfolding DropTable_def Let_def
  by (rule seq [OF RefTable_keeps])
    (auto dest: RefTable_result simp: case_prod_beta intro!: inv_Exec inv_Raw drop_raw)

lemma HasTable_keeps: "inv s \<Longrightarrow> inv (snd (HasTable env s))"
  unfolding HasTable_def Let_def case_prod_beta
  by (rule seq [OF RefTable_keeps]) (simp_all add: inv_QueryRow inv_Raw exist_raw)

text \<open>Clauses and statements.\<close>

lemma Limit_keeps: "inv s \<Longrightarrow> inv (snd (sess_Limit env i s))"
  unfolding sess_Limit_def by (rule inv_Set [OF _ limit_args])

lemma Where_keeps: "inv s \<Longrightarrow> args_ok WHERE (GoString desc # vals) \<Longrightarrow> inv (snd (sess_Where env desc vals s))"
  unfolding sess_Where_def by (rule inv_Set)

lemma OrderBy_keeps: "inv s \<Longrightarrow> args_ok ORDERBY [GoString desc] \<Longrightarrow> inv (snd (sess_OrderBy env desc s))"
  unfolding sess_OrderBy_def by (rule inv_Set)

lemma exec_then_keeps: "inv s \<Longrightarrow> inv (snd (exec_then env meth s))"
  unfolding exec_then_def Let_def case_prod_beta
  by (cases "fst (sess_Exec env s)") (simp_all add: inv_Exec seq [OF CallMethod_keeps [OF inv_Exec]])

lemma insert_loop_keeps:
  assumes "inv s" and "\<forall>v \<in> set vals. model_ok v \<and> snd (model_type v) = ty"
    and "\<forall>v \<in> set acc. \<exists>r. v = GoSlice r \<and> row_ok ty r"
  shows "inv (snd (insert_loop env vals acc s)) \<and>
    (\<forall>rows s'. insert_loop env vals acc s = (Returns rows, s') \<longrightarrow> (\<forall>v \<in> set rows. \<exists>r. v = GoSlice r \<and> row_ok ty r))"
  using assms
proof (induction vals arbitrary: acc s)
  case (Cons val vals)
  let ?hooked = "CallMethod env ''BeforeInsert'' (Some val) s"
  define rest where "rest = (\<lambda>row. insert_loop env vals (acc @ [GoSlice row]))"
  define g where "g = (\<lambda>(_ :: unit) s1. and_then (sess_Model val s1) (\<lambda>table s2.
     and_then (sess_Set env INSERT [GoString (sch_Name table), GoStrings (sch_FieldNames table)] s2) (\<lambda>_ s3.
     and_then (RecordValue (s_heap s3) val table, s3) rest)) :: any list outcome \<times> ('tx, 'w) Session)"
  have val: "model_ok val" "snd (model_type val) = ty" using Cons.prems(2) by auto
  have rest: "inv (snd (rest row s4)) \<and> (\<forall>rows s'. rest row s4 = (Returns rows, s') \<longrightarrow>
      (\<forall>v \<in> set rows. \<exists>r. v = GoSlice r \<and> row_ok ty r))" if "inv s4" "row_ok ty row" for row s4
    unfolding rest_def by (rule Cons.IH) (use Cons.prems that in auto)
  have g: "inv (snd (g u s1)) \<and> (\<forall>rows s'. g u s1 = (Returns rows, s') \<longrightarrow>
      (\<forall>v \<in> set rows. \<exists>r. v = GoSlice r \<and> row_ok ty r))" if s1: "inv s1" for u s1
  proof -
    have row: "row_ok ty row \<and> inv s4"
      if "sess_Model val s1 = (Returns table, s2)"
        and "sess_Set env INSERT [GoString (sch_Name table), GoStrings (sch_FieldNames table)] s2 = (Returns u', s3)"
        and "(RecordValue (s_heap s3) val table, s3) = (Returns row, s4)" for table s2 u' s3 row s4
    proof -
      note t = Model_result [OF s1 val(1) that(1)]
      have "inv s3"
        using inv_Set [OF conjunct1 [OF t] table_args [of table INSERT]] t that(2) by simp
      with that(3) t val(2) record_row [of table val "s_heap s3" row] show ?thesis by auto
    qed
    have "inv (snd (g u s1))"
      unfolding g_def
    proof (rule seq [OF Model_keeps [OF s1 val(1)]], rule seq)
      fix table s2 assume m: "sess_Model val s1 = (Returns table, s2)"
      note t = Model_result [OF s1 val(1) m]
      show "inv (snd (sess_Set env INSERT [GoString (sch_Name table), GoStrings (sch_FieldNames table)] s2))"
        using t by (simp add: inv_Set table_args)
      fix u' s3
      assume set: "sess_Set env INSERT [GoString (sch_Name table), GoStrings (sch_FieldNames table)] s2 = (Returns u', s3)"
        and s3: "inv s3"
      show "inv (snd (and_then (RecordValue (s_heap s3) val table, s3) rest))"
        by (rule seq) (use s3 row [OF m set] rest in auto)
    qed
    moreover have "\<forall>rows s'. g u s1 = (Returns rows, s') \<longrightarrow> (\<forall>v \<in> set rows. \<exists>r. v = GoSlice r \<and> row_ok ty r)"
      using row rest by (fastforce simp: g_def)
    ultimately show ?thesis by blast
  qed
  have eq: "insert_loop env (val # vals) acc s = and_then ?hooked g"
    by (simp add: g_def rest_def)
  have hooked: "inv (snd ?hooked)" by (rule CallMethod_keeps [OF Cons.prems(1)])
  show ?case
  proof (intro conjI allI impI)
    show "inv (snd (insert_loop env (val # vals) acc s))"
      unfolding eq by (rule seq [OF hooked]) (use g in blast)
    fix rows s' assume "insert_loop env (val # vals) acc s = (Returns rows, s')"
    then show "\<forall>v \<in> set rows. \<exists>r. v = GoSlice r \<and> row_ok ty r"
      using hooked g unfolding eq by fastforce
  qed
qed simp

lemma Insert_keeps:
  assumes "inv s" and "\<forall>v \<in> set vals. model_ok v \<and> snd (model_type v) = ty"
  shows "inv (snd (sess_Insert env vals s))"
proof -
  note loop = insert_loop_keeps [OF assms, of "[]", simplified]
  show ?thesis
    unfolding sess_Insert_def
  proof (rule seq, rule conjunct1 [OF loop], rule seq)
    fix rows s1 assume r: "insert_loop env vals [] s = (Returns rows, s1)" and s1: "inv s1"
    show "inv (snd (sess_Set env VALUES rows s1))"
      using loop r by (intro inv_Set [OF s1] row_args) blast
  qed (rule exec_then_keeps [OF inv_Build])
qed

lemma find_loop_keeps: "inv s \<Longrightarrow> inv (snd (find_loop env t table data dst s))"
proof (induction data arbitrary: dst s)
  case (Cons row data)
  then show ?case
    by (auto simp: Let_def split: sum.split intro!: seq CallMethod_keeps inv_mem inv_next)
qed simp

lemma Find_keeps:
  assumes "inv s" and "\<And>v. model_ok (MVal t v)"
  shows "inv (snd (sess_Find env t dst s))"
proof -
  have run: "inv (snd (let (res, s4) = sess_QueryRows env (sess_Build [SELECT, WHERE, ORDERBY, LIMIT] s3)
       in case res of
            Inl err \<Rightarrow> (Returns (Some err, dst), s4)
          | Inr rows \<Rightarrow>
              and_then (find_loop env t table (rw_data rows) dst s4) (\<lambda>(err, dst') s5.
                case err of
                  Some e \<Rightarrow> (Returns (Some e, dst'), s5)
                | None \<Rightarrow>
                    (let (cerr, w) = sql_Close env rows (s_world s5)
                     in (Returns (cerr, dst'), s5\<lparr>s_world := w\<rparr>)))))" if s3: "inv s3" for table s3
  proof -
    obtain res s4 where q: "sess_QueryRows env (sess_Build [SELECT, WHERE, ORDERBY, LIMIT] s3) = (res, s4)"
      by fastforce
    have s4: "inv s4" using inv_QueryRows [OF inv_Build [OF s3]] q by (metis snd_conv)
    show ?thesis
    proof (cases res)
      case (Inr rows)
      have "inv (snd (and_then (find_loop env t table (rw_data rows) dst s4) (\<lambda>(err, dst') s5.
                case err of
                  Some e \<Rightarrow> (Returns (Some e, dst'), s5)
                | None \<Rightarrow>
                    (let (cerr, w) = sql_Close env rows (s_world s5)
                     in (Returns (cerr, dst'), s5\<lparr>s_world := w\<rparr>)))))"
        by (rule seq [OF find_loop_keeps [OF s4]])
          (auto simp: Let_def case_prod_beta inv_Close split: option.split)
      then show ?thesis by (simp add: q Inr)
    qed (simp add: q s4)
  qed
  show ?thesis
    unfolding sess_Find_def
  proof (rule seq [OF CallMethod_keeps [OF assms(1)]],
      rule seq [OF Model_keeps], assumption, rule assms(2), rule seq)
    fix s1 table s2 assume s1: "inv s1" and m: "sess_Model (MVal t (zero_struct t)) s1 = (Returns table, s2)"
    then show "inv (snd (sess_Set env SELECT [GoString (sch_Name table), GoStrings (sch_FieldNames table)] s2))"
      using Model_result [OF s1 assms(2) m] by (simp add: inv_Set table_args)
  qed (rule run)
qed

lemma First_keeps:
  assumes "inv s" and "\<And>v. model_ok (MVal t v)"
  shows "inv (snd (sess_First env t s))"
  unfolding sess_First_def
  by (rule seq [OF Limit_keeps [OF assms(1)]], rule seq [OF Find_keeps])
    (use assms(2) in \<open>auto simp: case_prod_beta\<close>)

lemma Update_keeps:
  assumes "inv s" and "\<And>t m. table_ok t \<Longrightarrow> update_map env kvs = Returns m \<Longrightarrow>
    args_ok UPDATE [GoString (sch_Name t), GoMap m]"
  shows "inv (snd (sess_Update env kvs s))"
  unfolding sess_Update_def
proof (rule seq [OF CallMethod_keeps [OF assms(1)]], rule seq, simp,
    rule seq [OF RefTable_keeps], assumption, rule seq)
  fix s1 m s2 t s3
  assume m: "(update_map env kvs, s1) = (Returns m, s2)" and "inv s2" "sess_RefTable s2 = (Returns t, s3)" "inv s3"
  then show "inv (snd (sess_Set env UPDATE [GoString (sch_Name t), GoMap m] s3))"
    using RefTable_result [of s2 t s3] by (intro inv_Set assms(2)) auto
qed (rule exec_then_keeps [OF inv_Build])

lemma Delete_keeps: "inv s \<Longrightarrow> inv (snd (sess_Delete env s))"
  unfolding sess_Delete_def
proof (rule seq [OF CallMethod_keeps], assumption,
    rule seq [OF RefTable_keeps], assumption, rule seq)
  fix s1 t s2 assume "inv s1" "sess_RefTable s1 = (Returns t, s2)" "inv s2"
  then show "inv (snd (sess_Set env DELETE [GoString (sch_Name t)] s2))"
    using RefTable_result [of s1 t s2] by (intro inv_Set table_name) auto
qed (rule exec_then_keeps [OF inv_Build])

lemma Count_keeps: "inv s \<Longrightarrow> inv (snd (sess_Count env s))"
  unfolding sess_Count_def
proof (rule seq [OF RefTable_keeps], assumption, rule seq)
  fix t s1 assume "inv s" "sess_RefTable s = (Returns t, s1)" "inv s1"
  then show "inv (snd (sess_Set env COUNT [GoString (sch_Name t)] s1))"
    using RefTable_result [of s t s1] by (intro inv_Set table_name) auto
next
  fix s2 assume "inv s2"
  then show "inv (snd (let (row, s3) = sess_QueryRow env (sess_Build [COUNT, WHERE] s2)
       in (Returns (f row), s3)))" for f :: "error + any list \<Rightarrow> error + int"
    using inv_QueryRow [OF inv_Build] by (simp add: case_prod_beta)
qed

end

end
