(* ===== verification/Statements.thy ===== *)
theory Statements
  imports Session_Contract
begin

text \<open>
  The statements that sessions send to the database: each has one placeholder for each variable,
  whatever the history of the session, and the exact statements of single operations.
\<close>

section \<open>An environment that records its statements\<close>

type_synonym 'tx statement = "'tx option \<times> string \<times> any list"

definition recorded :: "'tx statement \<Rightarrow> ('w \<Rightarrow> 'r \<times> 'w) \<Rightarrow> 'tx statement list \<times> 'w \<Rightarrow> 'r \<times> 'tx statement list \<times> 'w" where
  "recorded st f = (\<lambda>(sts, w). let (r, w') = f w in (r, sts @ [st], w'))"

definition unrecorded :: "('w \<Rightarrow> 'r \<times> 'w) \<Rightarrow> 'tx statement list \<times> 'w \<Rightarrow> 'r \<times> 'tx statement list \<times> 'w" where
  "unrecorded f = (\<lambda>(sts, w). let (r, w') = f w in (r, sts, w'))"

type_synonym ('tx, 'w) hooks =
  "bool \<times> struct_type \<Rightarrow> string \<Rightarrow> (model \<Rightarrow> (unit, ('tx, 'tx statement list \<times> 'w) Session) action) option"

definition logged :: "('tx, 'w) env \<Rightarrow> ('tx, 'w) hooks \<Rightarrow> ('tx, 'tx statement list \<times> 'w) env" where
  "logged e hooks =
     \<lparr>sql_Begin = unrecorded (sql_Begin e), sql_Commit = (\<lambda>tx. unrecorded (sql_Commit e tx)),
      sql_Rollback = (\<lambda>tx. unrecorded (sql_Rollback e tx)),
      sql_Exec = (\<lambda>tx sql vars. recorded (tx, sql, vars) (sql_Exec e tx sql vars)),
      sql_Query = (\<lambda>tx sql vars. recorded (tx, sql, vars) (sql_Query e tx sql vars)),
      sql_QueryRow = (\<lambda>tx sql vars. recorded (tx, sql, vars) (sql_QueryRow e tx sql vars)),
      sql_Close = (\<lambda>rows. unrecorded (sql_Close e rows)), sql_Scan = sql_Scan e, hook = hooks,
      fmt_s = fmt_s e, map_iter = map_iter e\<rparr>"

lemma logged_simps [simp]:
  "hook (logged e hooks) = hooks" "fmt_s (logged e hooks) = fmt_s e" "map_iter (logged e hooks) = map_iter e"
  "sql_Scan (logged e hooks) = sql_Scan e"
  by (simp_all add: logged_def)

lemma fst_recorded: "fst (snd (recorded st f x)) = fst x @ [st]"
  by (simp add: recorded_def case_prod_beta Let_def)

lemma fst_unrecorded: "fst (snd (unrecorded f x)) = fst x"
  by (simp add: unrecorded_def case_prod_beta Let_def)

lemma logged_statements:
  "fst (snd (sql_Exec (logged e hooks) tx sql vars x)) = fst x @ [(tx, sql, vars)]"
  "fst (snd (sql_Query (logged e hooks) tx sql vars x)) = fst x @ [(tx, sql, vars)]"
  "fst (snd (sql_QueryRow (logged e hooks) tx sql vars x)) = fst x @ [(tx, sql, vars)]"
  "fst (snd (sql_Close (logged e hooks) rows x)) = fst x"
  by (simp_all add: logged_def fst_recorded fst_unrecorded)

section \<open>Placeholders\<close>

definition good_schema :: "Schema \<Rightarrow> bool" where
  "good_schema t \<longleftrightarrow>
     marks (sch_Name t) = 0 \<and>
     (\<forall>fd \<in> set (sch_Fields t). marks (fd_Name fd) = 0 \<and> marks (fd_Type fd) = 0 \<and> marks (fd_Tag fd) = 0) \<and>
     sch_FieldNames t = map fd_Name (sch_Fields t) \<and>
     length (sch_Fields t) = length (columns (snd (model_type (sch_Model t))))"

text \<open>Names and tags have no question mark; Go identifiers never have one.\<close>

definition good_model :: "model \<Rightarrow> bool" where
  "good_model val \<longleftrightarrow>
     (let t = snd (model_type val)
      in marks (st_Name t) = 0 \<and>
         (\<forall>f \<in> set (columns t). marks (sf_Name f) = 0 \<and> (\<forall>(k, v) \<in> set (sf_Tag f). marks v = 0)))"

definition binds :: "('tx, 'tx statement list \<times> 'w) Session \<Rightarrow> bool" where
  "binds s \<longleftrightarrow>
     balanced (s_clause s) \<and> marks (s_sql s) = length (s_sqlVars s) \<and> sql_dialect (s_dialect s) \<and>
     (\<forall>t. s_refTable s = Some t \<longrightarrow> good_schema t) \<and>
     (\<forall>(tx, sql, vars) \<in> set (fst (s_world s)). marks sql = length vars)"

definition hooks_bind :: "('tx, 'w) hooks \<Rightarrow> bool" where
  "hooks_bind hooks \<longleftrightarrow>
     (\<forall>mt meth f val s. hooks mt meth = Some f \<longrightarrow> binds s \<longrightarrow> binds (snd (f val s)))"

lemma parsed_good:
  assumes "sql_dialect d" and "good_model val" and "Parse d val = Returns t"
  shows "good_schema t"
proof -
  let ?ty = "snd (model_type val)"
  obtain fds where fds: "list_all2 (column_of d) (columns ?ty) fds"
    and t: "t = fold add_Field fds \<lparr>sch_Model = val, sch_Name = st_Name ?ty, sch_Fields = [],
      sch_FieldNames = [], sch_fieldMap = Map.empty\<rparr>"
    using assms(3) by (auto simp: Parse_def Let_def parse_loop_Returns columns_def)
  have "marks (fd_Name fd) = 0 \<and> marks (fd_Type fd) = 0 \<and> marks (fd_Tag fd) = 0" if fd: "fd \<in> set fds" for fd
  proof -
    obtain f where f: "f \<in> set (columns ?ty)" "column_of d f fd"
      using fds fd by (metis in_set_conv_nth list_all2_conv_all_nth)
    then have "\<forall>(k, v) \<in> set (sf_Tag f). marks v = 0" "marks (sf_Name f) = 0"
      using assms(2) by (auto simp: good_model_def Let_def)
    with f(2) sql_dialect.type_marks [OF assms(1)] show ?thesis
      by (fastforce simp: column_of_def new_Field_def split: option.split dest: map_of_SomeD)
  qed
  then show ?thesis
    using assms(2) list_all2_lengthD [OF fds]
    by (simp add: good_schema_def good_model_def Let_def t fold_add_Field)
qed

lemma binds_run:
  assumes "binds s" and "fst w = fst (s_world s) @ [(s_tx s, s_sql s, s_sqlVars s)]"
  shows "binds (sess_Clear (s\<lparr>s_world := w\<rparr>))"
  using assms by (auto simp: binds_def sess_Clear_def)

lemma binds_Build: "binds s \<Longrightarrow> binds (sess_Build orders s)"
  using balanced_Build [of "s_clause s" orders]
  by (cases "clause_Build orders (s_clause s)") (auto simp: binds_def sess_Build_def sess_Raw_def)

lemma binds_Set: "binds s \<Longrightarrow> good_vals k vals \<Longrightarrow> binds (snd (sess_Set env k vals s))"
  using balanced_Set [of "s_clause s" k vals "fmt_s env"]
  by (auto simp: binds_def sess_Set_def case_prod_beta Let_def)

lemma marks_column_desc:
  "good_schema t \<Longrightarrow> fd \<in> set (sch_Fields t) \<Longrightarrow> marks (column_desc fd) = 0"
  by (simp add: good_schema_def column_desc_def)

lemma record_loop_length: "record_loop fds v = Returns r \<Longrightarrow> length r = length fds"
  by (induction fds arbitrary: r) (auto split: option.splits outcome.splits)

lemma good_rows_length:
  assumes "\<And>v. v \<in> set vals \<Longrightarrow> \<exists>r. v = GoSlice r \<and> length r = n"
  shows "good_rows vals"
  using assms by (cases vals rule: good_rows.cases) fastforce+

interpretation placeholders: session_invariant "logged e hooks" "\<lambda>s. hooks_bind hooks \<and> binds s"
  good_schema good_model "\<lambda>ty r. length r = length (columns ty)" good_vals "\<lambda>sql vars. marks sql = length vars"
  for e :: "('tx, 'w) env" and hooks :: "('tx, 'w) hooks"
proof (unfold_locales, goal_cases)
  case (2 s val t)
  then show ?case using parsed_good [of "s_dialect s" val t] by (auto simp: binds_def)
next
  case (6 s)
  then show ?case
    by (auto simp: sess_Exec_def Let_def case_prod_beta intro!: binds_run logged_statements)
next
  case (7 s)
  then show ?case
    by (auto simp: sess_QueryRow_def Let_def case_prod_beta intro!: binds_run logged_statements)
next
  case (8 s)
  then show ?case
    by (auto simp: sess_QueryRows_def Let_def case_prod_beta intro!: binds_run logged_statements)
next
  case (11 s mt meth f val)
  then show ?case unfolding hooks_bind_def logged_simps by blast
next
  case (14 vals ty)
  then show ?case using good_rows_length [of vals "length (columns ty)"] by simp
next
  case (15 t val h r)
  then show ?case by (simp add: RecordValue_def record_loop_length good_schema_def)
next
  case (17 t)
  then show ?case
    by (auto simp: create_sql_def marks_Join_0 marks_column_desc) (simp add: good_schema_def)
next
  case (19 s name sql vals)
  then show ?case using sql_dialect.exist_marks by (auto simp: binds_def)
next
  case (3 s k vals)
  then show ?case using binds_Set by blast
next
  case (5 s orders)
  then show ?case using binds_Build by blast
next
  case (9 s rows)
  then show ?case by (simp add: binds_def logged_statements(4))
qed (auto simp: binds_def sess_Raw_def drop_sql_def good_schema_def)

text \<open>A history of calls on a session; a call that panics leaves the session behind as it is then.\<close>

datatype sess_op =
    OpModel model | OpInsert "model list" | OpFind struct_type | OpFirst struct_type
  | OpUpdate "any list" | OpDelete | OpCount
  | OpLimit int | OpWhere string "any list" | OpOrderBy string
  | OpRaw string "any list" | OpExec | OpQueryRow | OpQueryRows
  | OpCreateTable | OpDropTable | OpHasTable

fun run_op :: "('tx, 'w) env \<Rightarrow> sess_op \<Rightarrow> ('tx, 'w) Session \<Rightarrow> ('tx, 'w) Session" where
  "run_op env (OpModel val) s = snd (sess_Model val s)"
| "run_op env (OpInsert vals) s = snd (sess_Insert env vals s)"
| "run_op env (OpFind t) s = snd (sess_Find env t [] s)"
| "run_op env (OpFirst t) s = snd (sess_First env t s)"
| "run_op env (OpUpdate kvs) s = snd (sess_Update env kvs s)"
| "run_op env OpDelete s = snd (sess_Delete env s)"
| "run_op env OpCount s = snd (sess_Count env s)"
| "run_op env (OpLimit n) s = snd (sess_Limit env n s)"
| "run_op env (OpWhere desc vals) s = snd (sess_Where env desc vals s)"
| "run_op env (OpOrderBy desc) s = snd (sess_OrderBy env desc s)"
| "run_op env (OpRaw sql vals) s = sess_Raw sql vals s"
| "run_op env OpExec s = snd (sess_Exec env s)"
| "run_op env OpQueryRow s = snd (sess_QueryRow env s)"
| "run_op env OpQueryRows s = snd (sess_QueryRows env s)"
| "run_op env OpCreateTable s = snd (CreateTable env s)"
| "run_op env OpDropTable s = snd (DropTable env s)"
| "run_op env OpHasTable s = snd (HasTable env s)"

text \<open>
  Calls whose own texts and values fit: as many placeholders as values in conditions and raw texts,
  no question marks in names, and all records of one insertion of one struct type.
\<close>

fun good_op :: "('tx, 'w) env \<Rightarrow> sess_op \<Rightarrow> bool" where
  "good_op e (OpModel val) \<longleftrightarrow> good_model val"
| "good_op e (OpInsert vals) \<longleftrightarrow>
     (\<forall>v \<in> set vals. good_model v \<and> snd (model_type v) = snd (model_type (hd vals)))"
| "good_op e (OpFind t) \<longleftrightarrow> good_model (MVal t [])"
| "good_op e (OpFirst t) \<longleftrightarrow> good_model (MVal t [])"
| "good_op e (OpUpdate kvs) \<longleftrightarrow>
     (case update_map e kvs of Returns m \<Rightarrow> (\<forall>k \<in> fst ` set m. marks k = 0) | _ \<Rightarrow> True)"
| "good_op e (OpWhere desc vals) \<longleftrightarrow> marks desc = length vals"
| "good_op e (OpOrderBy desc) \<longleftrightarrow> marks desc = 0"
| "good_op e (OpRaw sql vals) \<longleftrightarrow> marks sql = length vals"
| "good_op e _ \<longleftrightarrow> True"

lemma good_model_MVal: "good_model (MVal t v) = good_model (MVal t w)"
  by (simp add: good_model_def)

lemma update_map_logged [simp]: "update_map (logged e hooks) kvs = update_map e kvs"
  by (simp only: update_map_def logged_simps)

lemma run_op_binds:
  assumes "hooks_bind hooks \<and> binds s" and "good_op e op"
  shows "hooks_bind hooks \<and> binds (run_op (logged e hooks) op s)"
proof -
  note keeps =
    placeholders.Model_keeps [OF assms(1)] placeholders.Insert_keeps [OF assms(1)]
    placeholders.Find_keeps [OF assms(1)] placeholders.First_keeps [OF assms(1)]
    placeholders.Update_keeps [OF assms(1)] placeholders.Delete_keeps [OF assms(1)]
    placeholders.Count_keeps [OF assms(1)] placeholders.Limit_keeps [OF assms(1)]
    placeholders.Where_keeps [OF assms(1)] placeholders.OrderBy_keeps [OF assms(1)]
    placeholders.inv_Raw [OF assms(1)] placeholders.inv_Exec [OF assms(1)]
    placeholders.inv_QueryRow [OF assms(1)] placeholders.inv_QueryRows [OF assms(1)]
    placeholders.CreateTable_keeps [OF assms(1)] placeholders.DropTable_keeps [OF assms(1)]
    placeholders.HasTable_keeps [OF assms(1)]
  have any_value: "good_model (MVal t v)" if "good_model (MVal t [])" for t v
    using that good_model_MVal by blast
  have assignments: "good_vals UPDATE [GoString (sch_Name t), GoMap m]"
    if "good_schema t" "update_map e kvs = Returns m" "op = OpUpdate kvs" for t m kvs
    using that assms(2) by (simp add: good_schema_def)
  show ?thesis
    using assms(2)
    by (cases op) (simp_all only: run_op.simps good_op.simps, (rule keeps; (use any_value assignments in auto)?)+)
qed

lemma run_ops_binds:
  "hooks_bind hooks \<Longrightarrow> binds s \<Longrightarrow> \<forall>op \<in> set ops. good_op e op \<Longrightarrow>
   binds (fold (run_op (logged e hooks)) ops s)"
  by (induction ops arbitrary: s) (simp_all add: run_op_binds)



section \<open>Single operations\<close>

definition clean :: "('tx, 'w) Session \<Rightarrow> bool" where
  "clean s \<longleftrightarrow> s_clause s = new_Clause \<and> s_sql s = [] \<and> s_sqlVars s = []"

definition record_row :: "string list \<Rightarrow> go_struct \<Rightarrow> any list" where
  "record_row names v = map (\<lambda>name. the (map_of v name)) names"

definition insert_sql :: "Schema \<Rightarrow> nat \<Rightarrow> string" where
  "insert_sql t n =
     ''INSERT INTO '' @ sch_Name t @ '' ('' @ strings_Join (sch_FieldNames t) '','' @ '') VALUES '' @
     strings_Join (replicate n (''('' @ genBindVars (length (sch_FieldNames t)) @ '')'')) '', '' @ '' ''"

lemma const_upd [simp]: "(\<lambda>_. c)(x := c) = (\<lambda>_. c)"
  by auto

lemma Join_replicate_Suc:
  "strings_Join (replicate (Suc n) x) sep = x @ (if n = 0 then [] else sep) @ strings_Join (replicate n x) sep"
  by (cases n) simp_all

lemma values_loop_rows:
  "\<forall>r \<in> set rows. length r = n \<Longrightarrow> b = [] \<or> b = genBindVars n \<Longrightarrow>
   values_loop b (map GoSlice rows) =
     Returns (strings_Join (replicate (length rows) (''('' @ genBindVars n @ '')'')) '', '', concat rows)"
proof (induction rows arbitrary: b)
  case (Cons r rows)
  have "(if b = [] then genBindVars (length r) else b) = genBindVars n" using Cons.prems by auto
  then show ?case
    using Cons.IH [of "genBindVars n"] Cons.prems(1)
    by (simp add: Let_def Join_replicate_Suc del: replicate_Suc)
qed simp

text \<open>The session after the first record: its table, and the clause \<^verbatim>\<open>INSERT\<close>.\<close>

definition inserting :: "Schema \<Rightarrow> ('tx, 'w) Session \<Rightarrow> ('tx, 'w) Session" where
  "inserting t s = s\<lparr>s_refTable := Some t,
     s_clause := new_Clause\<lparr>cl_sql := [INSERT \<mapsto>
       ''INSERT INTO '' @ sch_Name t @ '' ('' @ strings_Join (sch_FieldNames t) '','' @ '')'']\<rparr>\<rparr>"

lemma insert_loop_rest:
  assumes "schema_ok d m t" and "hook env (model_type m) ''BeforeInsert'' = None"
    and "\<forall>v \<in> set vals. model_type v = model_type m \<and>
      set (sch_FieldNames t) \<subseteq> dom (map_of (indirect (s_heap s) v))"
  shows "insert_loop env vals acc (inserting t s) =
    (Returns (acc @ map (\<lambda>v. GoSlice (record_row (sch_FieldNames t) (indirect (s_heap s) v))) vals), inserting t s)"
  using assms(3)
proof (induction vals arbitrary: acc)
  case (Cons v vals)
  then have "RecordValue (s_heap s) v t = Returns (record_row (sch_FieldNames t) (indirect (s_heap s) v))"
    using RecordValue_total [OF assms(1), of "s_heap s" v] by (simp add: record_row_def)
  moreover have "sch_Model t = m" using assms(1) by (simp add: schema_ok_def)
  ultimately show ?case
    using Cons assms(2)
    by (simp add: inserting_def CallMethod_def call_hook_def sess_Model_def sess_Set_def clause_Set_def
        new_Clause_def)
qed simp

lemma insert_loop_rows:
  assumes "schema_ok d m t" and "Parse (s_dialect s) m = Returns t" and "clean s" and "s_refTable s = None"
    and "hook env (model_type m) ''BeforeInsert'' = None"
    and "\<forall>v \<in> set (m # vals). model_type v = model_type m \<and>
      set (sch_FieldNames t) \<subseteq> dom (map_of (indirect (s_heap s) v))"
  shows "insert_loop env (m # vals) [] s =
    (Returns (map (\<lambda>v. GoSlice (record_row (sch_FieldNames t) (indirect (s_heap s) v))) (m # vals)), inserting t s)"
proof -
  have "RecordValue (s_heap s) m t = Returns (record_row (sch_FieldNames t) (indirect (s_heap s) m))"
    using RecordValue_total [OF assms(1), of "s_heap s" m] assms(6) by (simp add: record_row_def)
  then have first: "insert_loop env (m # vals) [] s =
      insert_loop env vals [GoSlice (record_row (sch_FieldNames t) (indirect (s_heap s) m))] (inserting t s)"
    using assms(2-5)
    by (simp add: inserting_def CallMethod_def call_hook_def sess_Model_def sess_Set_def clause_Set_def
        new_Clause_def clean_def)
  show ?thesis
    unfolding first by (subst insert_loop_rest [OF assms(1,5)]) (use assms(6) in simp_all)
qed

text \<open>
  What an insertion sends.  For records of one type without hooks, on a session that has no
  clauses yet, \<^verbatim>\<open>Insert\<close> runs one statement with a group of placeholders for each record and the
  values of the records one after the other, returns what the database returns, and leaves the
  session clean again.
\<close>

theorem insert_statement:
  assumes "Parse (s_dialect s) m = Returns t" and "distinct (map sf_Name (columns (snd (model_type m))))"
    and "clean s" and "s_refTable s = None"
    and "hook env (model_type m) = Map.empty"
    and "\<forall>v \<in> set (m # vals). model_type v = model_type m \<and>
      set (sch_FieldNames t) \<subseteq> dom (map_of (indirect (s_heap s) v))"
    and "sql_Exec env (s_tx s) (insert_sql t (length (m # vals)))
      (concat (map (\<lambda>v. record_row (sch_FieldNames t) (indirect (s_heap s) v)) (m # vals))) (s_world s) = (res, w)"
  shows "sess_Insert env (m # vals) s =
    (Returns (case res of Inl err \<Rightarrow> Inl err | Inr affected \<Rightarrow> affected), s\<lparr>s_refTable := Some t, s_world := w\<rparr>)"
proof -
  have ok: "schema_ok (s_dialect s) m t" by (rule Parse_schema_ok [OF assms(1,2)])
  then have m: "sch_Model t = m" by (simp add: schema_ok_def)
  let ?rows = "map (\<lambda>v. record_row (sch_FieldNames t) (indirect (s_heap s) v)) (m # vals)"
  have loop: "insert_loop env (m # vals) [] s = (Returns (map GoSlice ?rows), inserting t s)"
    using insert_loop_rows [OF ok assms(1,3,4) _ assms(6)] assms(5)
    by (simp del: insert_loop.simps and_then_Returns add: comp_def)
  have gen: "gen_values (map GoSlice ?rows) = Returns (''VALUES '' @
      strings_Join (replicate (length ?rows) (''('' @ genBindVars (length (sch_FieldNames t)) @ '')'')) '', '', concat ?rows)"
    unfolding gen_values_def
    by (subst values_loop_rows [where n = "length (sch_FieldNames t)"]) (auto simp: record_row_def)
  have len: "length ?rows = length (m # vals)" by simp
  show ?thesis
    using assms(3,5,7)
    unfolding sess_Insert_def loop and_then.simps sess_Set_def clause_Set_def generators.simps gen len
    by (cases res)
      (simp_all add: exec_then_def sess_Build_def clause_Build_def inserting_def new_Clause_def sess_Raw_def
        clean_def sess_Exec_def sess_Clear_def insert_sql_def CallMethod_def sess_RefTable_def call_hook_def m)
qed

definition user_session :: "(nat, any list list) Session" where
  "user_session = sess_New sqlite3 (\<lambda>_. []) 0 []"

theorem insert_statement_witness:
  "\<exists>s. sess_Insert row_store [MVal User_type (user ''Tom'' 18), MVal User_type (user ''Sam'' 20)] user_session =
     (Returns (Inr 1), s) \<and> s_world s = [[GoString ''Tom'', GoInt 18, GoString ''Sam'', GoInt 20]]"
proof -
  let ?m = "MVal User_type (user ''Tom'' 18)"
  obtain t where t: "Parse sqlite3 ?m = Returns t" "sch_Name t = ''User''" "sch_FieldNames t = [''Name'', ''Age'']"
    using User_parse [of ?m] by auto
  have "sess_Insert row_store (?m # [MVal User_type (user ''Sam'' 20)]) user_session =
      (Returns (case Inr (Inr 1) of Inl err \<Rightarrow> Inl err | Inr affected \<Rightarrow> affected),
       user_session\<lparr>s_refTable := Some t, s_world := [[GoString ''Tom'', GoInt 18, GoString ''Sam'', GoInt 20]]\<rparr>)"
    by (rule insert_statement)
      (auto simp: t user_session_def clean_def User_columns record_row_def)
  then show ?thesis by simp
qed

end
