(* ===== verification/Records.thy ===== *)
theory Records
  imports Statements
begin

text \<open>
  Reading and changing records: what \<^verbatim>\<open>Find\<close> makes of rows, the assignments and the condition of
  \<^verbatim>\<open>Update\<close>, and what a hook that runs a statement of its own does to the statement at hand.
\<close>

section \<open>Rows and records\<close>

text \<open>A struct of a type, whose fields without column have their first values.\<close>

definition record_of :: "struct_type \<Rightarrow> go_struct \<Rightarrow> bool" where
  "record_of t v \<longleftrightarrow>
     map fst v = map sf_Name (st_Fields t) \<and> distinct (map sf_Name (st_Fields t)) \<and>
     (\<forall>f \<in> set (st_Fields t). is_column f \<or> map_of v (sf_Name f) = Some (zero_value (sf_Type f)))"

text \<open>Filling a new variable with the row of a record gives the record back.\<close>

lemma set_fields_row:
  assumes "record_of t v"
  shows "set_fields (map sf_Name (columns t)) (record_row (map sf_Name (columns t)) v) (zero_struct t) = v"
proof (rule nth_equalityI)
  let ?names = "map sf_Name (columns t)"
  have fsts: "map fst v = map sf_Name (st_Fields t)" and dist: "distinct (map sf_Name (st_Fields t))"
    using assms by (auto simp: record_of_def)
  from fsts have len: "length v = length (st_Fields t)" by (metis length_map)
  then show "length (set_fields ?names (record_row ?names v) (zero_struct t)) = length v"
    by (simp add: set_fields_def zero_struct_def)
  fix i assume "i < length (set_fields ?names (record_row ?names v) (zero_struct t))"
  then have i: "i < length (st_Fields t)" by (simp add: set_fields_def zero_struct_def)
  define f where "f = st_Fields t ! i"
  have f: "f \<in> set (st_Fields t)" using i by (simp add: f_def)
  obtain x where x: "v ! i = (sf_Name f, x)"
    using fsts i len by (metis f_def nth_map prod.exhaust_sel)
  have v: "map_of v (sf_Name f) = Some x"
    using x i len fsts dist by (metis map_of_is_SomeI nth_mem)
  have zip: "map_of (zip ?names (record_row ?names v)) n = (if n \<in> set ?names then Some (the (map_of v n)) else None)" for n
    unfolding record_row_def by (simp only: map_of_zip_map)
  have col: "sf_Name f \<in> set ?names \<longleftrightarrow> is_column f"
    using f dist by (auto simp: columns_def distinct_map inj_on_def)
  show "set_fields ?names (record_row ?names v) (zero_struct t) ! i = v ! i"
  proof (cases "is_column f")
    case True
    with i col v x zip [of "sf_Name f"] show ?thesis
      by (simp add: set_fields_def zero_struct_def flip: f_def)
  next
    case False
    with assms f v have "x = zero_value (sf_Type f)" by (auto simp: record_of_def)
    with False i col x zip [of "sf_Name f"] show ?thesis
      by (simp add: set_fields_def zero_struct_def flip: f_def)
  qed
qed

lemma find_loop_records:
  assumes "hook env (True, t) ''AfterQuery'' = None"
    and "sch_FieldNames table = map sf_Name (columns t)"
    and "\<forall>v \<in> set recs. record_of t v \<and>
      sql_Scan env (dest_types t (sch_FieldNames table)) (record_row (sch_FieldNames table) v) =
        Inr (record_row (sch_FieldNames table) v)"
  shows "\<exists>n h. find_loop env t table (map (record_row (sch_FieldNames table)) recs) dst s =
    (Returns (None, dst @ recs), s\<lparr>s_next := n, s_heap := h\<rparr>)"
  using assms(3)
proof (induction recs arbitrary: dst s)
  case Nil
  show ?case by (intro exI [of _ "s_next s"] exI [of _ "s_heap s"]) simp
next
  case (Cons v recs)
  then have v: "record_of t v" by simp
  let ?s = "s\<lparr>s_next := s_next s + 1, s_heap := (s_heap s)(s_next s := v)\<rparr>"
  obtain n h where rest: "find_loop env t table (map (record_row (sch_FieldNames table)) recs) (dst @ [v]) ?s =
      (Returns (None, (dst @ [v]) @ recs), ?s\<lparr>s_next := n, s_heap := h\<rparr>)"
    using Cons.IH [of "dst @ [v]" ?s] Cons.prems by auto
  then show ?case
    using Cons.prems assms(1,2) set_fields_row [OF v]
    by (auto simp: Let_def CallMethod_def call_hook_def)
qed

text \<open>
  C9: what an insertion sends, a query reads.  If the database answers the query of \<^verbatim>\<open>Find\<close> with rows
  that hold the values of some records in the order of an insertion, then \<^verbatim>\<open>Find\<close> appends exactly
  these records to the slice, provided that the records have nothing in fields without columns.
\<close>

theorem find_reads_inserted_records:
  assumes "s_refTable s = Some tb" and "model_type (sch_Model tb) = (True, t)"
    and "hook env (True, t) = Map.empty"
    and "Parse (s_dialect s) (MVal t (zero_struct t)) = Returns table"
    and "distinct (map sf_Name (columns t))" and "s_sql s = []" and "s_sqlVars s = []"
    and "clause_Build [SELECT, WHERE, ORDERBY, LIMIT] (s_clause s\<lparr>
      cl_sql := (cl_sql (s_clause s))(SELECT \<mapsto>
        ''SELECT '' @ strings_Join (sch_FieldNames table) '','' @ '' FROM '' @ st_Name t),
      cl_sqlVars := (cl_sqlVars (s_clause s))(SELECT := [])\<rparr>) = (sql, vars)"
    and "sql_Query env (s_tx s) (sql @ '' '') vars (s_world s) = (Inr rows, w)"
    and "rw_data rows = map (record_row (sch_FieldNames table)) recs"
    and "\<forall>v \<in> set recs. record_of t v \<and>
      sql_Scan env (dest_types t (sch_FieldNames table)) (record_row (sch_FieldNames table) v) =
        Inr (record_row (sch_FieldNames table) v)"
  shows "\<exists>s'. sess_Find env t dst s = (Returns (fst (sql_Close env rows w), dst @ recs), s') \<and>
    clean s' \<and> s_world s' = snd (sql_Close env rows w)"
proof -
  have ok: "schema_ok (s_dialect s) (MVal t (zero_struct t)) table"
    by (rule Parse_schema_ok [OF assms(4)]) (simp add: assms(5))
  then have table: "sch_FieldNames table = map sf_Name (columns t)" "sch_Name table = st_Name t"
    unfolding schema_ok_def by (metis model_type.simps(2) snd_conv)+
  let ?s = "sess_Clear (s\<lparr>s_refTable := Some table, s_world := w\<rparr>)"
  have run: "sess_Find env t dst s =
    and_then (find_loop env t table (rw_data rows) dst ?s) (\<lambda>(err, dst') s5.
                case err of
                  Some e \<Rightarrow> (Returns (Some e, dst'), s5)
                | None \<Rightarrow>
                    (let (cerr, w) = sql_Close env rows (s_world s5)
                     in (Returns (cerr, dst'), s5\<lparr>s_world := w\<rparr>)))"
    using assms(1-4,6-9) table(2)
    by (simp add: sess_Find_def CallMethod_def sess_RefTable_def call_hook_def sess_Model_def sess_Set_def
        clause_Set_def sess_QueryRows_def sess_Build_def sess_Raw_def sess_Clear_def)
  obtain n h where "find_loop env t table (rw_data rows) dst ?s =
      (Returns (None, dst @ recs), ?s\<lparr>s_next := n, s_heap := h\<rparr>)"
    using find_loop_records [of env t table recs dst ?s] assms(3,11) table(1) by (auto simp: assms(10))
  then show ?thesis
    unfolding run by (auto simp: Let_def case_prod_beta clean_def sess_Clear_def)
qed

lemma record_of_user: "record_of User_type (user name age)"
  by (simp add: record_of_def User_type_def user_def is_column_def IsExported_def zero_value_def string_type_def)

theorem find_reads_inserted_records_witness:
  "\<exists>s t. s_refTable s = Some t \<and> s_world s = [[GoString ''Tom'', GoInt 18]] \<and>
    (\<exists>s'. sess_Find row_store User_type [] s = (Returns (None, [user ''Tom'' 18]), s'))"
proof -
  let ?p = "MPtr User_type 0" and ?z = "MVal User_type (zero_struct User_type)"
  obtain tb where tb: "Parse sqlite3 ?p = Returns tb" "sch_Model tb = ?p" using User_parse [of ?p] by auto
  obtain t where t: "Parse sqlite3 ?z = Returns t" "sch_Name t = ''User''" "sch_FieldNames t = [''Name'', ''Age'']"
    using User_parse [of ?z] by auto
  let ?s = "(sess_New sqlite3 (\<lambda>_. []) 0 [[GoString ''Tom'', GoInt 18]])\<lparr>s_refTable := Some tb\<rparr>"
  let ?rows = "\<lparr>rw_id = 0, rw_Columns = Inr [], rw_data = [[GoString ''Tom'', GoInt 18]]\<rparr>"
  have name: "st_Name User_type = ''User''" by (simp add: User_type_def)
  have "\<exists>s'. sess_Find row_store User_type [] ?s =
      (Returns (fst (sql_Close row_store ?rows [[GoString ''Tom'', GoInt 18]]), [] @ [user ''Tom'' 18]), s') \<and>
      clean s' \<and> s_world s' = snd (sql_Close row_store ?rows [[GoString ''Tom'', GoInt 18]])"
    by (rule find_reads_inserted_records [where tb = tb and table = t
          and sql = "''SELECT Name,Age FROM User''" and vars = "[]"])
      (auto simp: tb t name User_columns record_row_def record_of_user clause_Build_def
        new_Clause_def)
  then show ?thesis by (intro exI [of _ ?s] exI [of _ tb]) auto
qed

section \<open>Assignments and conditions\<close>

lemma map_of_upd_last: "map_of (filter (\<lambda>(k', _). k' \<noteq> k) m @ [(k, v)]) = (map_of m)(k \<mapsto> v)"
proof -
  have "map_of (filter (\<lambda>(k', _). k' \<noteq> k) m) x = (if x = k then None else map_of m x)" for x
    by (induction m) auto
  then show ?thesis by (auto simp: map_add_def fun_eq_iff split: option.split)
qed

lemma kv_map_pairs:
  "distinct (map fst m) \<Longrightarrow>
   \<exists>m'. kv_map (concat (map (\<lambda>(k, v). [GoString k, v]) ps)) m = Returns m' \<and> distinct (map fst m') \<and>
     map_of m' = map_of m ++ map_of (rev ps)"
proof (induction ps arbitrary: m)
  case (Cons p ps)
  obtain k v where p: "p = (k, v)" by fastforce
  let ?m = "filter (\<lambda>(k', _). k' \<noteq> k) m @ [(k, v)]"
  have "distinct (map fst ?m)"
    using Cons.prems by (auto simp: distinct_map_filter)
  then obtain m' where "kv_map (concat (map (\<lambda>(k, v). [GoString k, v]) ps)) ?m = Returns m'"
    "distinct (map fst m')" "map_of m' = map_of ?m ++ map_of (rev ps)"
    using Cons.IH by blast
  moreover have "(map_of m)(k \<mapsto> v) ++ map_of (rev ps) = map_of m ++ map_of (rev (p # ps))"
    by (auto simp: p map_add_def fun_eq_iff split: option.split)
  moreover have "kv_map (concat (map (\<lambda>(k, v). [GoString k, v]) (p # ps))) m =
      kv_map (concat (map (\<lambda>(k, v). [GoString k, v]) ps)) ?m"
    by (simp add: p)
  ultimately show ?case unfolding map_of_upd_last by metis
qed simp

text \<open>
  What an update sends.  From pairs of keys and values, each key is assigned once, with its last
  value, in the order in which the loop visits the map; the condition that was set before comes
  behind them with its values.
\<close>

theorem update_statement:
  assumes "s_refTable s = Some tb" and "hook env (model_type (sch_Model tb)) = Map.empty" and "clean s"
    and "kvs = concat (map (\<lambda>(k, v). [GoString k, v]) ps)" and "ps \<noteq> []"
    and "\<And>m. mset (map_iter env m) = mset m"
  shows "\<exists>m. distinct (map fst m) \<and> map_of m = map_of (rev ps) \<and>
    sess_Update env kvs (snd (sess_Where env desc args s)) =
      (let (res, w) = sql_Exec env (s_tx s)
             (''UPDATE '' @ sch_Name tb @ '' SET '' @ strings_Join (map (\<lambda>(k, v). k @ '' = ?'') m) '', '' @
              '' WHERE '' @ desc @ '' '') (map snd m @ args) (s_world s)
       in (Returns (case res of Inl err \<Rightarrow> Inl err | Inr affected \<Rightarrow> affected), s\<lparr>s_world := w\<rparr>))"
proof -
  obtain m0 where m0: "kv_map kvs [] = Returns m0" "distinct (map fst m0)" "map_of m0 = map_of (rev ps)"
    using kv_map_pairs [of "[]" ps] assms(4) by auto
  define m where "m = map_iter env m0"
  have perm: "mset m = mset m0" by (simp add: m_def assms(6))
  then have "mset (map fst m) = mset (map fst m0)" by simp
  with m0(2) have dist: "distinct (map fst m)" by (metis mset_eq_imp_distinct_iff)
  have "set m = set m0" using perm by (metis set_mset_mset)
  with m0 dist have map: "map_of m = map_of (rev ps)" by (metis map_of_inject_set)
  obtain k v kvs' where "kvs = GoString k # v # kvs'" using assms(4,5) by (cases ps) auto
  then have upd: "update_map env kvs = Returns m" using m0(1) by (simp add: update_map_def m_def)
  have "sess_Update env kvs (snd (sess_Where env desc args s)) =
      (let (res, w) = sql_Exec env (s_tx s)
             (''UPDATE '' @ sch_Name tb @ '' SET '' @ strings_Join (map (\<lambda>(k, v). k @ '' = ?'') m) '', '' @
              '' WHERE '' @ desc @ '' '') (map snd m @ args) (s_world s)
       in (Returns (case res of Inl err \<Rightarrow> Inl err | Inr affected \<Rightarrow> affected), s\<lparr>s_world := w\<rparr>))"
    using assms(1-3)
    by (auto simp: sess_Update_def upd sess_Where_def sess_Set_def clause_Set_def CallMethod_def sess_RefTable_def
        call_hook_def exec_then_def sess_Build_def clause_Build_def clean_def new_Clause_def sess_Raw_def
        sess_Exec_def sess_Clear_def Let_def case_prod_beta split: sum.split)
  with dist map show ?thesis by blast
qed

theorem update_statement_witness:
  "\<exists>s t. s_refTable s = Some t \<and> s_world (snd (sess_Update row_store
       [GoString ''Age'', GoInt 30, GoString ''Age'', GoInt 31] (snd (sess_Where row_store ''Name = ?'' [GoString ''Tom''] s)))) =
     [[GoInt 31, GoString ''Tom'']]"
proof -
  let ?p = "MPtr User_type 0"
  obtain tb where tb: "Parse sqlite3 ?p = Returns tb" "sch_Model tb = ?p" using User_parse [of ?p] by auto
  let ?s = "(sess_New sqlite3 (\<lambda>_. []) 0 [])\<lparr>s_refTable := Some tb\<rparr>"
  let ?kvs = "[GoString ''Age'', GoInt 30, GoString ''Age'', GoInt 31]"
  obtain m where m: "distinct (map fst m)" "map_of m = map_of (rev [(''Age'', GoInt 30), (''Age'', GoInt 31)])"
    and upd: "sess_Update row_store ?kvs (snd (sess_Where row_store ''Name = ?'' [GoString ''Tom''] ?s)) =
      (let (res, w) = sql_Exec row_store (s_tx ?s)
             (''UPDATE '' @ sch_Name tb @ '' SET '' @ strings_Join (map (\<lambda>(k, v). k @ '' = ?'') m) '', '' @
              '' WHERE '' @ ''Name = ?'' @ '' '') (map snd m @ [GoString ''Tom'']) (s_world ?s)
       in (Returns (case res of Inl err \<Rightarrow> Inl err | Inr affected \<Rightarrow> affected), ?s\<lparr>s_world := w\<rparr>))"
    using update_statement [of ?s tb row_store ?kvs "[(''Age'', GoInt 30), (''Age'', GoInt 31)]" "''Name = ?''"
        "[GoString ''Tom'']"]
    by (auto simp: clean_def tb)
  have "map_of m = map_of [(''Age'', GoInt 31)]" using m(2) by (auto simp: fun_eq_iff)
  then have "set m = {(''Age'', GoInt 31)}" using m(1) map_of_inject_set [of m "[(''Age'', GoInt 31)]"] by simp
  moreover from this have "length m = 1"
    using m(1) distinct_card [of m] by (simp add: distinct_map)
  ultimately have "map snd m = [GoInt 31]" by (cases m) auto
  then have "s_world (snd (sess_Update row_store ?kvs (snd (sess_Where row_store ''Name = ?'' [GoString ''Tom''] ?s)))) =
      [[GoInt 31, GoString ''Tom'']]"
    unfolding upd by simp
  then show ?thesis by (intro exI [of _ ?s] exI [of _ tb]) simp
qed

section \<open>Hooks that use the session\<close>

text \<open>A hook that runs a query of its own on the session that it gets.\<close>

definition query_hook ::
  "('tx, 'w) env \<Rightarrow> model \<Rightarrow> (unit, ('tx, 'tx statement list \<times> 'w) Session) action" where
  "query_hook e val s =
     (Returns (), snd (sess_QueryRow (logged e (\<lambda>_ _. None)) (sess_Raw ''SELECT 1'' [] s)))"

text \<open>
  A hook that runs a query makes an update forget its condition.  The hook runs before the
  statement is built, and its query clears the session with all clauses: what follows is an update
  of every row of the table.
\<close>

theorem querying_hook_drops_condition:
  assumes "s_refTable s = Some tb" and "clean s" and "map_iter e [(k, v)] = [(k, v)]"
    and "hooks (model_type (sch_Model tb)) = [''BeforeUpdate'' \<mapsto> query_hook e]"
  shows "fst (s_world (snd (sess_Update (logged e hooks) [GoString k, v]
      (snd (sess_Where (logged e hooks) desc args s))))) =
    fst (s_world s) @ [(s_tx s, ''SELECT 1 '', []), (s_tx s, ''UPDATE '' @ sch_Name tb @ '' SET '' @ k @ '' = ? '', [v])]"
proof -
  have upd: "update_map e [GoString k, v] = Returns [(k, v)]"
    using assms(3) by (simp add: update_map_def)
  have none: "hooks (model_type (sch_Model tb)) ''AfterUpdate'' = None" using assms(4) by simp
  show ?thesis
    using assms(1,2,4) none
    by (simp add: sess_Update_def upd sess_Where_def sess_Set_def clause_Set_def CallMethod_def sess_RefTable_def
        call_hook_def exec_then_def sess_Build_def clause_Build_def clean_def new_Clause_def sess_Raw_def
        sess_Exec_def sess_QueryRow_def sess_Clear_def Let_def case_prod_beta query_hook_def logged_statements
        split: sum.split)
qed

theorem querying_hook_drops_condition_witness:
  "\<exists>t s hooks. s_refTable s = Some t \<and> hooks (model_type (sch_Model t)) = [''BeforeUpdate'' \<mapsto> query_hook row_store] \<and>
     fst (s_world (snd (sess_Update (logged row_store hooks) [GoString ''Age'', GoInt 30]
       (snd (sess_Where (logged row_store hooks) ''Name = ?'' [GoString ''Tom''] s))))) =
     [(None, ''SELECT 1 '', []), (None, ''UPDATE User SET Age = ? '', [GoInt 30])]"
proof -
  let ?p = "MPtr User_type 0"
  obtain t where "Parse sqlite3 ?p = Returns t" and t: "sch_Model t = ?p" "sch_Name t = ''User''"
    using User_parse [of ?p] by auto
  let ?s = "(sess_New sqlite3 (\<lambda>_. []) 0 ([], []))\<lparr>s_refTable := Some t\<rparr>
    :: (nat, nat statement list \<times> any list list) Session"
  let ?hooks = "(\<lambda>_. [''BeforeUpdate'' \<mapsto> query_hook row_store]) :: (nat, any list list) hooks"
  have "fst (s_world (snd (sess_Update (logged row_store ?hooks) [GoString ''Age'', GoInt 30]
       (snd (sess_Where (logged row_store ?hooks) ''Name = ?'' [GoString ''Tom''] ?s))))) =
     fst (s_world ?s) @ [(s_tx ?s, ''SELECT 1 '', []),
       (s_tx ?s, ''UPDATE '' @ sch_Name t @ '' SET '' @ ''Age'' @ '' = ? '', [GoInt 30])]"
    by (rule querying_hook_drops_condition [where s = ?s and tb = t and e = row_store and hooks = ?hooks])
      (simp_all add: clean_def)
  then show ?thesis
    by (intro exI [of _ t] exI [of _ ?s] exI [of _ ?hooks]) (simp add: t)
qed

end
