(* ===== verification/Orm.thy ===== *)
theory Orm
  imports Records
begin

text \<open>
  Package \<^verbatim>\<open>geeorm\<close> (\<^verbatim>\<open>geeorm.go\<close>): the engine, transactions around a function of a session, and the
  migration of a table, with the second interpretation of the contract of sessions: what others see
  of an open transaction.
\<close>

section \<open>The engine\<close>

definition DialectNotFoundErr :: error where
  "DialectNotFoundErr = ''dialect not found''"

text \<open>\<open>sql_Open\<close> and \<open>sql_Ping\<close> are the database's.  On a failure behind the opening it stays open.\<close>

definition NewEngine ::
  "(string \<Rightarrow> string \<Rightarrow> 'w \<Rightarrow> (error + 'db) \<times> 'w) \<Rightarrow> ('db \<Rightarrow> 'w \<Rightarrow> error option \<times> 'w) \<Rightarrow>
   (string \<Rightarrow> Dialect option) \<Rightarrow> string \<Rightarrow> string \<Rightarrow> 'w \<Rightarrow> (error + ('db \<times> Dialect)) \<times> 'w"
where
  "NewEngine sql_Open sql_Ping dialects driver source w =
     (case sql_Open driver source w of
        (Inl err, w1) \<Rightarrow> (Inl err, w1)
      | (Inr db, w1) \<Rightarrow>
          (case sql_Ping db w1 of
             (Some err, w2) \<Rightarrow> (Inl err, w2)
           | (None, w2) \<Rightarrow>
               (case GetDialect driver dialects of
                  None \<Rightarrow> (Inl DialectNotFoundErr, w2)
                | Some d \<Rightarrow> (Inr (db, d), w2))))"

text \<open>What is left when a session is dropped: the structs and the database.\<close>

type_synonym 'w outside = "heap \<times> nat \<times> 'w"

definition outside :: "('tx, 'w) Session \<Rightarrow> 'w outside" where
  "outside s = (s_heap s, s_next s, s_world s)"

definition NewSession :: "Dialect \<Rightarrow> 'w outside \<Rightarrow> ('tx, 'w) Session" where
  "NewSession d = (\<lambda>(h, n, w). sess_New d h n w)"

text \<open>
  The deferred function of \<^verbatim>\<open>Transaction\<close>: it rolls back and panics again, or rolls back, or commits.
\<close>

definition tx_end ::
  "('tx, 'w) env \<Rightarrow> ('r \<times> error option) outcome \<times> ('tx, 'w) Session \<Rightarrow>
   ('r option \<times> error option) outcome \<times> ('tx, 'w) Session"
where
  "tx_end env r =
     (case r of
        (Panics p, s) \<Rightarrow> and_then (sess_Rollback env s) (\<lambda>_ s1. (Panics p, s1))
      | (Returns (res, Some err), s) \<Rightarrow>
          and_then (sess_Rollback env s) (\<lambda>_ s1. (Returns (Some res, Some err), s1))
      | (Returns (res, None), s) \<Rightarrow> and_then (sess_Commit env s) (\<lambda>err s1. (Returns (Some res, err), s1))
      | (Hangs, s) \<Rightarrow> (Hangs, s))"

definition Transaction ::
  "('tx, 'w) env \<Rightarrow> Dialect \<Rightarrow> ('r \<times> error option, ('tx, 'w) Session) action \<Rightarrow>
   ('r option \<times> error option, 'w outside) action"
where
  "Transaction env d f m =
     (let (err, s) = sess_Begin env (NewSession d m);
          (out, s') = (case err of Some e \<Rightarrow> (Returns (None, Some e), s) | None \<Rightarrow> tx_end env (f s))
      in (out, outside s'))"

section \<open>Migration\<close>

text \<open>The two loops of \<^verbatim>\<open>difference\<close>: the set of \<open>b\<close>, then the entries of \<open>a\<close> that are not in it.\<close>

definition difference :: "string list \<Rightarrow> string list \<Rightarrow> string list" where
  "difference a b =
     (let setB = fold (\<lambda>v m. m(v \<mapsto> ())) b Map.empty
      in fold (\<lambda>v diff. if setB v = None then diff @ [v] else diff) a [])"

definition add_column_sql :: "Schema \<Rightarrow> Field \<Rightarrow> string" where
  "add_column_sql table f =
     ''ALTER TABLE '' @ sch_Name table @ '' ADD COLUMN '' @ fd_Name f @ '' '' @ fd_Type f @ '';''"

primrec add_loop :: "('tx, 'w) env \<Rightarrow> Schema \<Rightarrow> string list \<Rightarrow> (error option, ('tx, 'w) Session) action" where
  "add_loop env table [] s = (Returns None, s)"
| "add_loop env table (col # cols) s =
     (case GetField col table of
        None \<Rightarrow> (nil_deref, s)
      | Some f \<Rightarrow>
          (let (res, s1) = sess_Exec env (sess_Raw (add_column_sql table f) [] s)
           in case res of
                Inl err \<Rightarrow> (Returns (Some err), s1)
              | Inr _ \<Rightarrow> add_loop env table cols s1))"

definition rebuild :: "Schema \<Rightarrow> ('tx, 'w) Session \<Rightarrow> ('tx, 'w) Session" where
  "rebuild table s =
     (let tmp = ''tmp_'' @ sch_Name table;
          fieldStr = strings_Join (sch_FieldNames table) '', '';
          s1 = sess_Raw (''CREATE TABLE '' @ tmp @ '' AS SELECT '' @ fieldStr @ '' FROM '' @ sch_Name table @ '';'') [] s;
          s2 = sess_Raw (''DROP TABLE '' @ sch_Name table @ '';'') [] s1
      in sess_Raw (''ALTER TABLE '' @ tmp @ '' RENAME TO '' @ sch_Name table @ '';'') [] s2)"

text \<open>Columns are added one by one; if columns are left over, the table is rebuilt by one more call.\<close>

definition migrate_columns ::
  "('tx, 'w) env \<Rightarrow> Schema \<Rightarrow> string list \<Rightarrow> (unit \<times> error option, ('tx, 'w) Session) action" where
  "migrate_columns env table cols s =
     (let addCols = difference (sch_FieldNames table) cols;
          delCols = difference cols (sch_FieldNames table)
      in and_then (add_loop env table addCols s) (\<lambda>err s1.
           case err of
             Some e \<Rightarrow> (Returns ((), Some e), s1)
           | None \<Rightarrow>
               if delCols = [] then (Returns ((), None), s1)
               else
                 (let (res, s2) = sess_Exec env (rebuild table s1)
                  in (Returns ((), case res of Inl err \<Rightarrow> Some err | Inr _ \<Rightarrow> None), s2))))"

definition select_one :: "Schema \<Rightarrow> string" where
  "select_one table = ''SELECT * FROM '' @ sch_Name table @ '' LIMIT 1''"

text \<open>
  If the query fails, its result is nil and the call of \<^verbatim>\<open>Columns\<close> on it panics; an error of
  \<^verbatim>\<open>Columns\<close> counts as no columns.  The rows stay open.
\<close>

definition migrate_existing :: "('tx, 'w) env \<Rightarrow> (unit \<times> error option, ('tx, 'w) Session) action" where
  "migrate_existing env s =
     and_then (sess_RefTable s) (\<lambda>table s1.
       let (res, s2) = sess_QueryRows env (sess_Raw (select_one table) [] s1)
       in case res of
            Inl err \<Rightarrow> (nil_deref, s2)
          | Inr rows \<Rightarrow> migrate_columns env table (case rw_Columns rows of Inr cs \<Rightarrow> cs | Inl err \<Rightarrow> []) s2)"

text \<open>The function that runs in the transaction.\<close>

definition migrate_body ::
  "('tx, 'w) env \<Rightarrow> model \<Rightarrow> (unit \<times> error option, ('tx, 'w) Session) action" where
  "migrate_body env val s =
     and_then (sess_Model val s) (\<lambda>_ s1.
     and_then (HasTable env s1) (\<lambda>has s2.
       if \<not> has then and_then (CreateTable env s2) (\<lambda>err s3. (Returns ((), err), s3))
       else migrate_existing env s2))"

definition Migrate :: "('tx, 'w) env \<Rightarrow> Dialect \<Rightarrow> model \<Rightarrow> (error option, 'w outside) action" where
  "Migrate env d val m =
     and_then (Transaction env d (migrate_body env val) m) (\<lambda>(_, err) m1. (Returns err, m1))"

section \<open>Isolation\<close>

text \<open>
  What the documentation of \<^verbatim>\<open>database/sql\<close> promises of transactions, for a view \<open>committed\<close> of the
  world that others have and the state \<open>pending\<close> of a transaction: until a commit succeeds, nothing
  that is done in a transaction changes what is committed; then what was pending is.
\<close>

definition tx_laws :: "('tx, 'w) env \<Rightarrow> ('w \<Rightarrow> 'db) \<Rightarrow> ('tx \<Rightarrow> 'w \<Rightarrow> 'db) \<Rightarrow> bool" where
  "tx_laws env committed pending \<longleftrightarrow>
     (\<forall>w. committed (snd (sql_Begin env w)) = committed w) \<and>
     (\<forall>tx sql vars w. committed (snd (sql_Exec env (Some tx) sql vars w)) = committed w \<and>
        committed (snd (sql_Query env (Some tx) sql vars w)) = committed w \<and>
        committed (snd (sql_QueryRow env (Some tx) sql vars w)) = committed w) \<and>
     (\<forall>rows w. committed (snd (sql_Close env rows w)) = committed w) \<and>
     (\<forall>tx w. committed (snd (sql_Rollback env tx w)) = committed w) \<and>
     (\<forall>tx w. committed (snd (sql_Commit env tx w)) =
        (if fst (sql_Commit env tx w) = None then pending tx w else committed w))"

definition confined :: "('w \<Rightarrow> 'db) \<Rightarrow> ('a, ('tx, 'w) Session) action \<Rightarrow> bool" where
  "confined committed f \<longleftrightarrow>
     (\<forall>s tx. s_tx s = Some tx \<longrightarrow>
        s_tx (snd (f s)) = Some tx \<and> committed (s_world (snd (f s))) = committed (s_world s))"

definition hooks_confined :: "('tx, 'w) env \<Rightarrow> ('w \<Rightarrow> 'db) \<Rightarrow> bool" where
  "hooks_confined env committed \<longleftrightarrow>
     (\<forall>mt meth f val. hook env mt meth = Some f \<longrightarrow> confined committed (f val))"

definition isolated ::
  "('tx, 'w) env \<Rightarrow> ('w \<Rightarrow> 'db) \<Rightarrow> ('tx \<Rightarrow> 'w \<Rightarrow> 'db) \<Rightarrow> 'tx \<Rightarrow> 'db \<Rightarrow> ('tx, 'w) Session \<Rightarrow> bool" where
  "isolated env committed pending tx D s \<longleftrightarrow>
     tx_laws env committed pending \<and> hooks_confined env committed \<and>
     s_tx s = Some tx \<and> committed (s_world s) = D"

interpretation isolation: session_invariant env "isolated env committed pending tx D"
  "\<lambda>_. True" "\<lambda>_. True" "\<lambda>_ _. True" "\<lambda>_ _. True" "\<lambda>_ _. True"
  for env :: "('tx, 'w) env" and committed :: "'w \<Rightarrow> 'db" and pending tx D
proof (unfold_locales, goal_cases)
  case (6 s)
  then show ?case
    by (auto simp: sess_Exec_def Let_def case_prod_beta isolated_def tx_laws_def sess_Clear_def)
next
  case (7 s)
  then show ?case
    by (auto simp: sess_QueryRow_def Let_def case_prod_beta isolated_def tx_laws_def sess_Clear_def)
next
  case (8 s)
  then show ?case
    by (auto simp: sess_QueryRows_def Let_def case_prod_beta isolated_def tx_laws_def sess_Clear_def)
next
  case (11 s mt meth f val)
  then show ?case unfolding isolated_def hooks_confined_def confined_def by blast
qed (auto simp: isolated_def tx_laws_def sess_Set_def case_prod_beta Let_def sess_Raw_def sess_Build_def)

lemma confinedI:
  assumes "tx_laws env committed pending" and "hooks_confined env committed"
    and "\<And>s tx D. isolated env committed pending tx D s \<Longrightarrow> isolated env committed pending tx D (snd (f s))"
  shows "confined committed f"
  using assms unfolding confined_def isolated_def by blast

lemma difference_eq: "difference a b = filter (\<lambda>v. v \<notin> set b) a"
proof -
  have setB: "fold (\<lambda>v m. m(v \<mapsto> ())) b m x = (if x \<in> set b then Some () else m x)" for m x
    by (induction b arbitrary: m) auto
  have "fold (\<lambda>v diff. if P v then diff @ [v] else diff) a d = d @ filter P a" for P d
    by (induction a arbitrary: d) auto
  then show ?thesis by (simp add: difference_def Let_def setB if_distrib cong: if_cong)
qed

section \<open>Transactions\<close>

lemma transaction_view:
  assumes "tx_laws env committed pending" and "confined committed f"
    and "Transaction env d f (h, n, w) = (out, (h', n', w'))"
  shows "case out of
      Returns (Some r, None) \<Rightarrow>
        (\<exists>tx s s'. sess_Begin env (sess_New d h n w) = (None, s) \<and> s_tx s = Some tx \<and>
           f s = (Returns (r, None), s') \<and> committed w' = pending tx (s_world s'))
    | _ \<Rightarrow> committed w' = committed w"
proof -
  obtain res w0 where b: "sql_Begin env w = (res, w0)" by fastforce
  then have w0: "committed w0 = committed w" using assms(1) unfolding tx_laws_def by (metis snd_conv)
  show ?thesis
  proof (cases res)
    case (Inl err)
    then show ?thesis
      using assms(3) b w0 by (auto simp: Transaction_def NewSession_def sess_Begin_def outside_def)
  next
    case (Inr tx)
    let ?s = "(sess_New d h n w)\<lparr>s_tx := Some tx, s_world := w0\<rparr>"
    have started: "sess_Begin env (sess_New d h n w) = (None, ?s)" using b Inr by (simp add: sess_Begin_def)
    obtain r s' where f: "f ?s = (r, s')" by fastforce
    have kept: "s_tx (snd (f ?s)) = Some tx \<and> committed (s_world (snd (f ?s))) = committed (s_world ?s)"
      using assms(2) unfolding confined_def by simp
    then have s': "s_tx s' = Some tx" "committed (s_world s') = committed w" using f w0 by auto
    have undone: "committed (snd (sql_Rollback env tx (s_world s'))) = committed w"
      using assms(1) s'(2) by (simp add: tx_laws_def)
    have closed: "committed (snd (sql_Commit env tx (s_world s'))) =
        (if fst (sql_Commit env tx (s_world s')) = None then pending tx (s_world s') else committed w)"
      using assms(1) s'(2) by (simp add: tx_laws_def)
    have run: "(out, (h', n', w')) = (let (out, s'') = tx_end env (r, s') in (out, outside s''))"
      using assms(3) started f by (simp add: Transaction_def NewSession_def)
    show ?thesis
    proof (cases r)
      case (Returns x)
      then obtain v e where x: "r = Returns (v, e)" by (cases x) auto
      show ?thesis
      proof (cases e)
        case None
        with x run s' closed started f show ?thesis
          by (cases "fst (sql_Commit env tx (s_world s'))")
            (auto simp: tx_end_def sess_Commit_def outside_def Let_def case_prod_beta intro!: exI [of _ tx] exI [of _ ?s])
      next
        case (Some err)
        with x run s' undone show ?thesis
          by (auto simp: tx_end_def sess_Rollback_def outside_def Let_def case_prod_beta)
      qed
    next
      case (Panics p)
      with run s' undone show ?thesis
        by (auto simp: tx_end_def sess_Rollback_def outside_def Let_def case_prod_beta)
    next
      case Hangs
      with run s' show ?thesis by (auto simp: tx_end_def outside_def)
    qed
  qed
qed


text \<open>
  A database with transactions: the rows that are committed, and those that the transaction sees.
  Statements that change data append the row of their variables.
\<close>

definition tx_store :: "(nat, any list list \<times> any list list) env" where
  "tx_store =
     \<lparr>sql_Begin = (\<lambda>(c, p). (Inr 0, (c, c))), sql_Commit = (\<lambda>tx (c, p). (None, (p, p))),
      sql_Rollback = (\<lambda>tx (c, p). (None, (c, c))),
      sql_Exec = (\<lambda>tx sql vars (c, p). (Inr (Inr 1), case tx of None \<Rightarrow> (c @ [vars], p) | Some _ \<Rightarrow> (c, p @ [vars]))),
      sql_Query = (\<lambda>tx sql vars (c, p). (Inr \<lparr>rw_id = 0, rw_Columns = Inr [], rw_data = c\<rparr>, (c, p))),
      sql_QueryRow = (\<lambda>tx sql vars w. (Inl ''sql: no rows in result set'', w)),
      sql_Close = (\<lambda>rows w. (None, w)), sql_Scan = (\<lambda>types row. Inr row), hook = (\<lambda>_ _. None),
      fmt_s = (\<lambda>_. []), map_iter = (\<lambda>m. m)\<rparr>"

lemma tx_store_laws: "tx_laws tx_store fst (\<lambda>tx. snd)"
  by (simp add: tx_laws_def tx_store_def case_prod_beta)

lemma tx_store_hooks: "hooks_confined tx_store committed"
  by (simp add: hooks_confined_def tx_store_def)

text \<open>A function that inserts a record and then fails.\<close>

definition failing_insert :: "(unit \<times> error option, (nat, any list list \<times> any list list) Session) action" where
  "failing_insert s =
     and_then (sess_Insert tx_store [MVal User_type (user ''Tom'' 18)] s)
       (\<lambda>_ s1. (Returns ((), Some ''inert error''), s1))"

lemma failing_insert_confined: "confined fst failing_insert"
proof (rule confinedI [OF tx_store_laws tx_store_hooks])
  fix s tx D assume s: "isolated tx_store fst (\<lambda>tx. snd) tx D s"
  show "isolated tx_store fst (\<lambda>tx. snd) tx D (snd (failing_insert s))"
    unfolding failing_insert_def
    by (rule isolation.seq [OF isolation.Insert_keeps [OF s, where ty = User_type]]) simp_all
qed


section \<open>Migrations\<close>

lemma raw_exec_isolated:
  assumes "isolated env committed pending tx D s"
  shows "isolated env committed pending tx D (snd (sess_Exec env (sess_Raw sql vars s)))"
    and "isolated env committed pending tx D (snd (sess_QueryRows env (sess_Raw sql vars s)))"
    and "isolated env committed pending tx D (snd (sess_Exec env (rebuild table s)))"
  using assms
  by (simp_all add: rebuild_def Let_def isolation.inv_Exec isolation.inv_QueryRows isolation.inv_Raw)

lemma add_loop_isolated:
  "isolated env committed pending tx D s \<Longrightarrow> isolated env committed pending tx D (snd (add_loop env table cols s))"
proof (induction cols arbitrary: s)
  case (Cons col cols)
  then show ?case
    using raw_exec_isolated(1) [OF Cons.prems]
    by (auto simp: Let_def case_prod_beta split: option.split sum.split)
qed simp

lemma migrate_columns_isolated:
  assumes "isolated env committed pending tx D s"
  shows "isolated env committed pending tx D (snd (migrate_columns env table cols s))"
  unfolding migrate_columns_def Let_def
  by (rule isolation.seq [OF add_loop_isolated [OF assms]])
    (auto simp: case_prod_beta raw_exec_isolated split: option.split)

lemma migrate_existing_isolated:
  assumes "isolated env committed pending tx D s"
  shows "isolated env committed pending tx D (snd (migrate_existing env s))"
  unfolding migrate_existing_def Let_def
  by (rule isolation.seq [OF isolation.RefTable_keeps [OF assms]])
    (auto simp: case_prod_beta raw_exec_isolated migrate_columns_isolated split: sum.split)

lemma migrate_body_isolated:
  assumes "isolated env committed pending tx D s"
  shows "isolated env committed pending tx D (snd (migrate_body env val s))"
proof -
  have create: "isolated env committed pending tx D
      (snd (and_then (CreateTable env s2) (\<lambda>err s3. (Returns ((), err), s3))))"
    if "isolated env committed pending tx D s2" for s2
    by (rule isolation.seq [OF isolation.CreateTable_keeps [OF that]]) simp
  show ?thesis
    unfolding migrate_body_def
    by (rule isolation.seq [OF isolation.Model_keeps [OF assms TrueI]],
        rule isolation.seq [OF isolation.HasTable_keeps], assumption)
      (auto simp: create migrate_existing_isolated)
qed

text \<open>A migration calls no hooks.\<close>

lemma run_hooks [simp]:
  "sess_Exec (env\<lparr>hook := hk\<rparr>) = sess_Exec env" "sess_QueryRow (env\<lparr>hook := hk\<rparr>) = sess_QueryRow env"
  "sess_QueryRows (env\<lparr>hook := hk\<rparr>) = sess_QueryRows env"
  "CreateTable (env\<lparr>hook := hk\<rparr>) = CreateTable env" "HasTable (env\<lparr>hook := hk\<rparr>) = HasTable env"
  by (simp_all add: fun_eq_iff sess_Exec_def sess_QueryRow_def sess_QueryRows_def CreateTable_def HasTable_def
      cong: sum.case_cong prod.case_cong)

lemma add_loop_hooks [simp]: "add_loop (env\<lparr>hook := hk\<rparr>) table cols s = add_loop env table cols s"
  by (induction cols arbitrary: s) (simp_all cong: sum.case_cong option.case_cong)

lemma tx_end_hooks [simp]: "tx_end (env\<lparr>hook := hk\<rparr>) = tx_end env"
  by (simp add: fun_eq_iff tx_end_def sess_Rollback_def sess_Commit_def
      cong: outcome.case_cong prod.case_cong option.case_cong)

lemma Migrate_hooks: "Migrate (env\<lparr>hook := hk\<rparr>) d val m = Migrate env d val m"
proof -
  have "migrate_existing (env\<lparr>hook := hk\<rparr>) = migrate_existing env"
    by (simp add: fun_eq_iff migrate_existing_def migrate_columns_def Let_def
        cong: sum.case_cong prod.case_cong option.case_cong if_cong)
  then have "migrate_body (env\<lparr>hook := hk\<rparr>) val = migrate_body env val"
    by (simp add: fun_eq_iff migrate_body_def cong: if_cong)
  moreover have "sess_Begin (env\<lparr>hook := hk\<rparr>) = sess_Begin env"
    by (simp add: fun_eq_iff sess_Begin_def)
  ultimately show ?thesis
    by (simp add: Migrate_def Transaction_def cong: prod.case_cong option.case_cong)
qed



section \<open>The statements of a migration\<close>

definition alter_statement :: "'tx \<Rightarrow> Schema \<Rightarrow> string \<Rightarrow> 'tx statement" where
  "alter_statement tx t col =
     (Some tx, ''ALTER TABLE '' @ sch_Name t @ '' ADD COLUMN '' @ col @ '' '' @ fd_Type (the (GetField col t)) @ ''; '', [])"

definition rebuild_sql :: "Schema \<Rightarrow> string" where
  "rebuild_sql t =
     ''CREATE TABLE tmp_'' @ sch_Name t @ '' AS SELECT '' @ strings_Join (sch_FieldNames t) '', '' @
     '' FROM '' @ sch_Name t @ ''; DROP TABLE '' @ sch_Name t @ ''; ALTER TABLE tmp_'' @ sch_Name t @
     '' RENAME TO '' @ sch_Name t @ ''; ''"

text \<open>A database that answers every statement of a transaction without error, with the given columns.\<close>

definition answers :: "('tx, 'w) env \<Rightarrow> 'tx \<Rightarrow> string \<Rightarrow> string list \<Rightarrow> bool" where
  "answers e tx name cols \<longleftrightarrow>
     (\<forall>sql vars w. (\<exists>r w'. sql_Exec e (Some tx) sql vars w = (Inr r, w')) \<and>
        (\<exists>rows w'. sql_Query e (Some tx) sql vars w = (Inr rows, w') \<and> rw_Columns rows = Inr cols) \<and>
        (\<exists>w'. sql_QueryRow e (Some tx) sql vars w = (Inr [GoString name], w'))) \<and>
     sql_Scan e [string_dest] [GoString name] = Inr [GoString name] \<and> (\<forall>w. fst (sql_Commit e tx w) = None)"

lemma logged_raw:
  assumes "answers e tx name cols" and "clean s" and "s_tx s = Some tx" and "s_world s = (log, w)"
  shows "\<exists>r w'. sess_Exec (logged e hk) (sess_Raw sql vars s) =
      (Inr r, s\<lparr>s_world := (log @ [(Some tx, sql @ '' '', vars)], w')\<rparr>)"
    and "\<exists>rows w'. sess_QueryRows (logged e hk) (sess_Raw sql vars s) =
      (Inr rows, s\<lparr>s_world := (log @ [(Some tx, sql @ '' '', vars)], w')\<rparr>) \<and> rw_Columns rows = Inr cols"
    and "\<exists>w'. sess_QueryRow (logged e hk) (sess_Raw sql vars s) =
      (Inr [GoString name], s\<lparr>s_world := (log @ [(Some tx, sql @ '' '', vars)], w')\<rparr>)"
proof -
  have clear: "sess_Clear (sess_Raw sql vars s\<lparr>s_world := x\<rparr>) = s\<lparr>s_world := x\<rparr>" for x
    using assms(2) by (simp add: sess_Clear_def sess_Raw_def clean_def)
  have raw: "s_sql (sess_Raw sql vars s) = sql @ '' ''" "s_sqlVars (sess_Raw sql vars s) = vars"
    "s_tx (sess_Raw sql vars s) = Some tx" "s_world (sess_Raw sql vars s) = (log, w)"
    using assms(2-4) by (simp_all add: sess_Raw_def clean_def)
  obtain r w1 where "sql_Exec e (Some tx) (sql @ '' '') vars w = (Inr r, w1)"
    using assms(1) unfolding answers_def by blast
  then show "\<exists>r w'. sess_Exec (logged e hk) (sess_Raw sql vars s) =
      (Inr r, s\<lparr>s_world := (log @ [(Some tx, sql @ '' '', vars)], w')\<rparr>)"
    by (intro exI [of _ r] exI [of _ w1]) (simp add: sess_Exec_def raw logged_def recorded_def clear)
  obtain rows w2 where "sql_Query e (Some tx) (sql @ '' '') vars w = (Inr rows, w2)" "rw_Columns rows = Inr cols"
    using assms(1) unfolding answers_def by blast
  then show "\<exists>rows w'. sess_QueryRows (logged e hk) (sess_Raw sql vars s) =
      (Inr rows, s\<lparr>s_world := (log @ [(Some tx, sql @ '' '', vars)], w')\<rparr>) \<and> rw_Columns rows = Inr cols"
    by (intro exI [of _ rows] exI [of _ w2]) (simp add: sess_QueryRows_def raw logged_def recorded_def clear)
  obtain w3 where "sql_QueryRow e (Some tx) (sql @ '' '') vars w = (Inr [GoString name], w3)"
    using assms(1) unfolding answers_def by blast
  then show "\<exists>w'. sess_QueryRow (logged e hk) (sess_Raw sql vars s) =
      (Inr [GoString name], s\<lparr>s_world := (log @ [(Some tx, sql @ '' '', vars)], w')\<rparr>)"
    by (intro exI [of _ w3]) (simp add: sess_QueryRow_def raw logged_def recorded_def clear)
qed

lemma logged_add_loop:
  assumes "answers e tx name have" and "clean s" and "s_tx s = Some tx" and "s_world s = (log, w)"
    and "\<forall>col \<in> set cols. \<exists>fd. GetField col t = Some fd \<and> fd_Name fd = col"
  shows "\<exists>w'. add_loop (logged e hk) t cols s =
    (Returns None, s\<lparr>s_world := (log @ map (alter_statement tx t) cols, w')\<rparr>)"
  using assms(2-5)
proof (induction cols arbitrary: s log w)
  case (Cons col cols)
  then obtain fd where fd: "GetField col t = Some fd" "fd_Name fd = col" by auto
  obtain r w1 where x: "sess_Exec (logged e hk) (sess_Raw (add_column_sql t fd) [] s) =
      (Inr r, s\<lparr>s_world := (log @ [(Some tx, add_column_sql t fd @ '' '', [])], w1)\<rparr>)"
    using logged_raw(1) [OF assms(1) Cons.prems(1-3)] by blast
  let ?s = "s\<lparr>s_world := (log @ [(Some tx, add_column_sql t fd @ '' '', [])], w1)\<rparr>"
  obtain w2 where rest: "add_loop (logged e hk) t cols ?s =
      (Returns None, ?s\<lparr>s_world := ((log @ [(Some tx, add_column_sql t fd @ '' '', [])]) @ map (alter_statement tx t) cols, w2)\<rparr>)"
    using Cons.IH [of ?s "log @ [(Some tx, add_column_sql t fd @ '' '', [])]" w1] Cons.prems
    by (auto simp: clean_def)
  have "(Some tx, add_column_sql t fd @ '' '', []) = alter_statement tx t col"
    by (simp add: alter_statement_def add_column_sql_def fd)
  with x rest show ?case by (auto simp: fd)
next
  case Nil
  then have "s = s\<lparr>s_world := (log, w)\<rparr>" by simp
  then show ?case by auto
qed

lemma rebuild_raw: "clean s \<Longrightarrow> rebuild t s = sess_Raw (butlast (rebuild_sql t)) [] s"
  by (simp add: rebuild_def rebuild_sql_def Let_def sess_Raw_def clean_def butlast_append)

text \<open>The statements for the columns: those to add one by one, then the rebuilding.\<close>

definition column_statements :: "'tx \<Rightarrow> Schema \<Rightarrow> string list \<Rightarrow> 'tx statement list" where
  "column_statements tx t cols =
     map (alter_statement tx t) (filter (\<lambda>col. col \<notin> set cols) (sch_FieldNames t)) @
     (if set cols \<subseteq> set (sch_FieldNames t) then [] else [(Some tx, rebuild_sql t, [])])"

lemma schema_has_field:
  assumes "schema_ok d val t" and "col \<in> set (sch_FieldNames t)"
  shows "\<exists>fd. GetField col t = Some fd \<and> fd_Name fd = col"
proof -
  have "col \<in> fd_Name ` set (sch_Fields t)" using assms by (auto simp: schema_ok_def)
  then have "find (\<lambda>fd. fd_Name fd = col) (sch_Fields t) \<noteq> None" by (auto simp: find_None_iff)
  then obtain fd where "find (\<lambda>fd. fd_Name fd = col) (sch_Fields t) = Some fd" by blast
  moreover from this have "fd_Name fd = col" by (auto simp: find_Some_iff)
  ultimately show ?thesis using assms(1) by (auto simp: schema_ok_def)
qed

lemma logged_migrate_columns:
  assumes "answers e tx name have" and "clean s" and "s_tx s = Some tx" and "s_world s = (log, w)"
    and "schema_ok d val t"
  shows "\<exists>w'. migrate_columns (logged e hk) t cols s =
    (Returns ((), None), s\<lparr>s_world := (log @ column_statements tx t cols, w')\<rparr>)"
proof -
  let ?add = "filter (\<lambda>col. col \<notin> set cols) (sch_FieldNames t)"
  let ?log = "log @ map (alter_statement tx t) ?add"
  have "\<forall>col \<in> set ?add. \<exists>fd. GetField col t = Some fd \<and> fd_Name fd = col"
    using schema_has_field [OF assms(5)] by auto
  from logged_add_loop [OF assms(1-4) this] obtain w1 where
    add: "add_loop (logged e hk) t ?add s = (Returns None, s\<lparr>s_world := (?log, w1)\<rparr>)" by blast
  define s1 where "s1 = s\<lparr>s_world := (?log, w1)\<rparr>"
  have s1: "clean s1" "s_tx s1 = Some tx" "s_world s1 = (?log, w1)"
    using assms(2,3) by (simp_all add: s1_def clean_def)
  obtain r w2 where re: "sess_Exec (logged e hk) (rebuild t s1) =
      (Inr r, s1\<lparr>s_world := (?log @ [(Some tx, rebuild_sql t, [])], w2)\<rparr>)"
    using logged_raw(1) [OF assms(1) s1, of hk "butlast (rebuild_sql t)" "[]"]
    by (auto simp: rebuild_raw [OF s1(1)] rebuild_sql_def butlast_append)
  have del: "difference cols (sch_FieldNames t) = [] \<longleftrightarrow> set cols \<subseteq> set (sch_FieldNames t)"
    by (auto simp: difference_eq filter_empty_conv)
  have "migrate_columns (logged e hk) t cols s =
      (if set cols \<subseteq> set (sch_FieldNames t) then (Returns ((), None), s1)
       else (Returns ((), None), s1\<lparr>s_world := (?log @ [(Some tx, rebuild_sql t, [])], w2)\<rparr>))"
    using add re by (simp add: migrate_columns_def Let_def del difference_eq [of "sch_FieldNames t"] flip: s1_def)
  then show ?thesis
    by (intro exI [of _ "if set cols \<subseteq> set (sch_FieldNames t) then w1 else w2"])
      (simp add: column_statements_def s1_def)
qed

lemma logged_migrate_existing:
  assumes "answers e tx name cols" and "clean s" and "s_tx s = Some tx" and "s_world s = (log, w)"
    and "schema_ok d val t" and "s_refTable s = Some t"
  shows "\<exists>w'. migrate_existing (logged e hk) s = (Returns ((), None),
    s\<lparr>s_world := (log @ (Some tx, select_one t @ '' '', []) # column_statements tx t cols, w')\<rparr>)"
proof -
  obtain rows w1 where q: "sess_QueryRows (logged e hk) (sess_Raw (select_one t) [] s) =
      (Inr rows, s\<lparr>s_world := (log @ [(Some tx, select_one t @ '' '', [])], w1)\<rparr>)"
    and cols: "rw_Columns rows = Inr cols"
    using logged_raw(2) [OF assms(1-4)] by blast
  let ?s = "s\<lparr>s_world := (log @ [(Some tx, select_one t @ '' '', [])], w1)\<rparr>"
  have "clean ?s" "s_tx ?s = Some tx" "s_world ?s = (log @ [(Some tx, select_one t @ '' '', [])], w1)"
    using assms(2,3) by (simp_all add: clean_def)
  from logged_migrate_columns [OF assms(1) this assms(5)] obtain w2 where
    "migrate_columns (logged e hk) t cols ?s = (Returns ((), None),
       ?s\<lparr>s_world := ((log @ [(Some tx, select_one t @ '' '', [])]) @ column_statements tx t cols, w2)\<rparr>)"
    by blast
  then show ?thesis
    using assms(6) q cols by (auto simp: migrate_existing_def sess_RefTable_def)
qed

lemma logged_migrate_body:
  assumes "answers e tx (sch_Name t) cols" and "clean s" and "s_tx s = Some tx" and "s_world s = (log, w)"
    and "Parse (s_dialect s) val = Returns t" and "s_refTable s = None"
    and "distinct (map sf_Name (columns (snd (model_type val))))"
    and "TableExistSQL (s_dialect s) (sch_Name t) = (sql, vars)"
  shows "\<exists>w'. migrate_body (logged e hk) val s = (Returns ((), None), s\<lparr>s_refTable := Some t, s_world :=
    (log @ (Some tx, sql @ '' '', vars) # (Some tx, select_one t @ '' '', []) # column_statements tx t cols, w')\<rparr>)"
proof -
  let ?s1 = "s\<lparr>s_refTable := Some t\<rparr>"
  have m: "sess_Model val s = (Returns t, ?s1)" using assms(5,6) by (simp add: sess_Model_def)
  have "clean ?s1" "s_tx ?s1 = Some tx" "s_world ?s1 = (log, w)"
    using assms(2-4) by (simp_all add: clean_def)
  from logged_raw(3) [OF assms(1) this, of hk sql vars] obtain w1 where q:
    "sess_QueryRow (logged e hk) (sess_Raw sql vars ?s1) =
      (Inr [GoString (sch_Name t)], ?s1\<lparr>s_world := (log @ [(Some tx, sql @ '' '', vars)], w1)\<rparr>)" by blast
  let ?s2 = "?s1\<lparr>s_world := (log @ [(Some tx, sql @ '' '', vars)], w1)\<rparr>"
  have scan: "sql_Scan e [string_dest] [GoString (sch_Name t)] = Inr [GoString (sch_Name t)]"
    using assms(1) by (simp add: answers_def)
  have has: "HasTable (logged e hk) ?s1 = (Returns True, ?s2)"
    using q assms(8) scan by (simp add: HasTable_def sess_RefTable_def)
  have "clean ?s2" "s_tx ?s2 = Some tx" "s_world ?s2 = (log @ [(Some tx, sql @ '' '', vars)], w1)"
    "s_refTable ?s2 = Some t" using assms(2,3) by (simp_all add: clean_def)
  from logged_migrate_existing [OF assms(1) this(1-3) Parse_schema_ok [OF assms(5,7)] this(4)]
  show ?thesis using m has by (auto simp: migrate_body_def)
qed

text \<open>
  C31: what a migration sends.  When the table exists, the columns that the struct has and the table
  has not are added one by one in the order of the struct; nothing else happens if the table has no
  further columns, and otherwise one last statement rebuilds the table with the columns of the
  struct only.  In particular a second migration only looks at the table.
\<close>

theorem migration_statements:
  assumes "sql_Begin e w = (Inr tx, w1)" and "answers e tx (sch_Name t) cols"
    and "Parse d val = Returns t" and "distinct (map sf_Name (columns (snd (model_type val))))"
    and "TableExistSQL d (sch_Name t) = (sql, vars)"
  shows "\<exists>h' n' w'. Migrate (logged e hk) d val (h, n, (log, w)) = (Returns None, (h', n',
    (log @ [(Some tx, sql @ '' '', vars), (Some tx, select_one t @ '' '', [])] @
       map (alter_statement tx t) (filter (\<lambda>col. col \<notin> set cols) (sch_FieldNames t)) @
       (if set cols \<subseteq> set (sch_FieldNames t) then [] else [(Some tx, rebuild_sql t, [])]), w')))"
proof -
  define s where "s = (sess_New d h n (log, w))\<lparr>s_tx := Some tx, s_world := (log, w1)\<rparr>"
  have started: "sess_Begin (logged e hk) (NewSession d (h, n, (log, w))) = (None, s)"
    using assms(1) by (simp add: sess_Begin_def NewSession_def logged_def unrecorded_def s_def)
  have s: "clean s" "s_tx s = Some tx" "s_world s = (log, w1)" "s_dialect s = d" "s_refTable s = None"
    by (simp_all add: clean_def s_def)
  let ?log = "log @ (Some tx, sql @ '' '', vars) # (Some tx, select_one t @ '' '', []) # column_statements tx t cols"
  obtain w2 where body: "migrate_body (logged e hk) val s =
      (Returns ((), None), s\<lparr>s_refTable := Some t, s_world := (?log, w2)\<rparr>)"
    using logged_migrate_body [OF assms(2) s(1-3), of val sql vars hk] assms(3-5) s(4,5) by auto
  have "fst (sql_Commit e tx w2) = None" using assms(2) by (simp add: answers_def)
  then obtain w3 where "sql_Commit e tx w2 = (None, w3)" by (metis prod.collapse)
  then have "sess_Commit (logged e hk) (s\<lparr>s_refTable := Some t, s_world := (?log, w2)\<rparr>) =
      (Returns None, s\<lparr>s_refTable := Some t, s_world := (?log, w3)\<rparr>)"
    using s(2) by (simp add: sess_Commit_def logged_def unrecorded_def)
  with body have "Migrate (logged e hk) d val (h, n, (log, w)) = (Returns None, (s_heap s, s_next s, (?log, w3)))"
    by (simp add: Migrate_def Transaction_def started tx_end_def outside_def)
  then show ?thesis by (auto simp: column_statements_def)
qed

text \<open>The table of the package's own test: a column to add, and one that is left over.\<close>

definition old_table_store :: "(nat, any list list \<times> any list list) env" where
  "old_table_store =
     tx_store\<lparr>sql_QueryRow := (\<lambda>tx sql vars w. (Inr [GoString ''User''], w)),
       sql_Query := (\<lambda>tx sql vars w. (Inr \<lparr>rw_id = 0, rw_Columns = Inr [''Name'', ''XXX''], rw_data = []\<rparr>, w))\<rparr>"

theorem migration_statements_witness:
  "\<exists>t h n w. Parse sqlite3 (MVal User_type []) = Returns t \<and>
     Migrate (logged old_table_store (\<lambda>_ _. None)) sqlite3 (MVal User_type []) (\<lambda>_. [], 0, ([], ([], []))) =
       (Returns None, (h, n,
         ([(Some 0, fst (sqlite3_TableExistSQL ''User'') @ '' '', [GoString ''User'']),
           (Some 0, ''SELECT * FROM User LIMIT 1 '', []), alter_statement 0 t ''Age'',
           (Some 0, ''CREATE TABLE tmp_User AS SELECT Name, Age FROM User; DROP TABLE User; ALTER TABLE tmp_User RENAME TO User; '', [])], w)))"
proof -
  let ?m = "MVal User_type []"
  obtain t where t: "Parse sqlite3 ?m = Returns t" "sch_Name t = ''User''" "sch_FieldNames t = [''Name'', ''Age'']"
    using User_parse [of ?m] by auto
  have "\<exists>h' n' w'. Migrate (logged old_table_store (\<lambda>_ _. None)) sqlite3 ?m (\<lambda>_. [], 0, ([], ([], []))) =
    (Returns None, (h', n',
    ([] @ [(Some 0, fst (sqlite3_TableExistSQL ''User'') @ '' '', [GoString ''User'']), (Some 0, select_one t @ '' '', [])] @
       map (alter_statement 0 t) (filter (\<lambda>col. col \<notin> set [''Name'', ''XXX'']) (sch_FieldNames t)) @
       (if set [''Name'', ''XXX''] \<subseteq> set (sch_FieldNames t) then [] else [(Some 0, rebuild_sql t, [])]), w')))"
    by (rule migration_statements)
      (auto simp: old_table_store_def tx_store_def answers_def t User_columns sqlite3_TableExistSQL_def
        case_prod_beta)
  then show ?thesis using t by (auto simp: select_one_def rebuild_sql_def)
qed

section \<open>Sessions after a transaction\<close>

definition ErrTxDone :: error where
  "ErrTxDone = ''sql: transaction has already been committed or rolled back''"

fun run_raws :: "('tx, 'w) env \<Rightarrow> (string \<times> any list) list \<Rightarrow> ('tx, 'w) Session \<Rightarrow> (error + (error + int)) list" where
  "run_raws env [] s = []"
| "run_raws env ((sql, vars) # sts) s =
     (let (res, s1) = sess_Exec env (sess_Raw sql vars s) in res # run_raws env sts s1)"

lemma run_raws_finished:
  assumes "\<And>sql vars w. finished w \<Longrightarrow> sql_Exec env (Some tx) sql vars w = (Inl err, w)"
    and "s_tx s = Some tx" and "finished (s_world s)"
  shows "run_raws env sts s = replicate (length sts) (Inl err)"
  using assms(2,3)
proof (induction sts arbitrary: s)
  case (Cons st sts)
  then show ?case
    by (cases st) (simp add: sess_Exec_def sess_Raw_def sess_Clear_def assms(1))
qed simp

text \<open>
  A session does not survive its transaction.  \<^verbatim>\<open>Commit\<close> leaves the transaction in the session, so
  with a database that refuses statements of a finished transaction, every later statement of the
  session fails.
\<close>

theorem session_ends_with_commit:
  assumes "sess_Commit env s = (Returns None, s')" and "s_tx s = Some tx"
    and "\<And>w. fst (sql_Commit env tx w) = None \<Longrightarrow> finished (snd (sql_Commit env tx w))"
    and "\<And>sql vars w. finished w \<Longrightarrow> sql_Exec env (Some tx) sql vars w = (Inl ErrTxDone, w)"
  shows "run_raws env sts s' = replicate (length sts) (Inl ErrTxDone)"
  by (rule run_raws_finished [where finished = finished and tx = tx, OF assms(4)])
    (use assms(1,2) assms(3) [of "s_world s"] in \<open>auto simp: sess_Commit_def case_prod_beta Let_def\<close>)

text \<open>A database whose transaction is finished when nothing is pending.\<close>

definition strict_store :: "(nat, any list list \<times> any list list) env" where
  "strict_store =
     tx_store\<lparr>sql_Commit := (\<lambda>tx (c, p). (None, (p, []))),
       sql_Exec := (\<lambda>tx sql vars (c, p).
         if p = [] then (Inl ErrTxDone, (c, p)) else (Inr (Inr 1), (c, p @ [vars])))\<rparr>"

theorem session_ends_with_commit_witness:
  "\<exists>s s' :: (nat, any list list \<times> any list list) Session. s_tx s = Some 0 \<and>
     sess_Commit strict_store s = (Returns None, s') \<and>
     run_raws strict_store [(''DELETE FROM User'', [])] s = [Inr (Inr 1)] \<and>
     run_raws strict_store [(''DELETE FROM User'', []), (''SELECT 1'', [])] s' = replicate 2 (Inl ErrTxDone)"
proof -
  let ?s = "(sess_New sqlite3 (\<lambda>_. []) 0 ([], [[GoInt 1]]))\<lparr>s_tx := Some 0\<rparr>
    :: (nat, any list list \<times> any list list) Session"
  let ?s' = "?s\<lparr>s_world := ([[GoInt 1]], [])\<rparr>"
  have c: "sess_Commit strict_store ?s = (Returns None, ?s')"
    by (simp add: sess_Commit_def strict_store_def)
  have "run_raws strict_store [(''DELETE FROM User'', []), (''SELECT 1'', [])] ?s' =
      replicate (length [(''DELETE FROM User'', []), (''SELECT 1'', [] :: any list)]) (Inl ErrTxDone)"
    by (rule session_ends_with_commit [OF c, where tx = 0 and finished = "\<lambda>w. snd w = []"])
      (auto simp: strict_store_def case_prod_beta)
  moreover have "run_raws strict_store [(''DELETE FROM User'', [])] ?s = [Inr (Inr 1)]"
    by (simp add: sess_Exec_def sess_Raw_def strict_store_def)
  ultimately show ?thesis using c by (intro exI [of _ ?s] exI [of _ ?s']) (simp add: numeral_eq_Suc)
qed

end
