(* ===== verification/Log.thy ===== *)
theory Log
  imports Prelude
begin

text \<open>
  Package \<^verbatim>\<open>geeorm/log\<close> (\<^verbatim>\<open>log.go\<close>): two loggers, for errors and for information, whose output goes
  to the standard output or nowhere, according to the level.
\<close>

section \<open>Loggers and levels\<close>

datatype log_output = Stdout | Discard

text \<open>\<open>lg_lines\<close> is what has reached the standard output, each line with the prefix of its logger.\<close>

record loggers =
  errorLog :: log_output
  infoLog :: log_output
  lg_lines :: "(string \<times> string) list"

definition log_init :: loggers where
  "log_init = \<lparr>errorLog = Stdout, infoLog = Stdout, lg_lines = []\<rparr>"

definition InfoLevel :: int where
  "InfoLevel = 0"

definition ErrorLevel :: int where
  "ErrorLevel = 1"

definition Disabled :: int where
  "Disabled = 2"

definition log_Error :: "string \<Rightarrow> loggers \<Rightarrow> loggers" where
  "log_Error msg l =
     (if errorLog l = Stdout then l\<lparr>lg_lines := lg_lines l @ [(''[error]'', msg)]\<rparr> else l)"

definition log_Info :: "string \<Rightarrow> loggers \<Rightarrow> loggers" where
  "log_Info msg l =
     (if infoLog l = Stdout then l\<lparr>lg_lines := lg_lines l @ [(''[info ]'', msg)]\<rparr> else l)"

definition SetLevel :: "int \<Rightarrow> loggers \<Rightarrow> loggers" where
  "SetLevel level l =
     (let l1 = l\<lparr>errorLog := Stdout, infoLog := Stdout\<rparr>;
          l2 = (if ErrorLevel < level then l1\<lparr>errorLog := Discard\<rparr> else l1)
      in if InfoLevel < level then l2\<lparr>infoLog := Discard\<rparr> else l2)"

section \<open>What a level lets through\<close>

text \<open>Messages with their kind: an error or an information.\<close>

definition log_message :: "bool \<times> string \<Rightarrow> loggers \<Rightarrow> loggers" where
  "log_message = (\<lambda>(is_error, msg). if is_error then log_Error msg else log_Info msg)"

definition passes :: "int \<Rightarrow> bool \<Rightarrow> bool" where
  "passes level is_error \<longleftrightarrow> level \<le> (if is_error then ErrorLevel else InfoLevel)"

text \<open>
  The level that was set last decides alone, whatever the levels before: after it, exactly the
  messages whose level is not below it come out, in their order.
\<close>

theorem level_filters_messages:
  "lg_lines (fold log_message msgs (SetLevel level l)) =
     lg_lines l @ map (\<lambda>(e, msg). (if e then ''[error]'' else ''[info ]'', msg)) (filter (\<lambda>(e, msg). passes level e) msgs)"
proof -
  have "lg_lines (fold log_message msgs l') =
      lg_lines l' @ map (\<lambda>(e, msg). (if e then ''[error]'' else ''[info ]'', msg)) (filter (\<lambda>(e, msg). passes level e) msgs)"
    if "(errorLog l' = Stdout) = passes level True" "(infoLog l' = Stdout) = passes level False" for l'
    using that
  proof (induction msgs arbitrary: l')
    case (Cons m msgs)
    obtain e msg where m: "m = (e, msg)" by (cases m)
    have "errorLog (log_message m l') = errorLog l'" "infoLog (log_message m l') = infoLog l'"
      by (simp_all add: m log_message_def log_Error_def log_Info_def)
    then show ?case
      using Cons.IH [of "log_message m l'"] Cons.prems by (auto simp: m log_message_def log_Error_def log_Info_def)
  qed simp
  moreover have "(errorLog (SetLevel level l) = Stdout) = passes level True"
    "(infoLog (SetLevel level l) = Stdout) = passes level False" "lg_lines (SetLevel level l) = lg_lines l"
    by (auto simp: SetLevel_def passes_def InfoLevel_def ErrorLevel_def Let_def)
  ultimately show ?thesis by simp
qed

lemma disabled_says_nothing: "lg_lines (fold log_message msgs (SetLevel Disabled l)) = lg_lines l"
proof -
  have "\<not> passes Disabled e" for e by (cases e) (simp_all add: passes_def Disabled_def ErrorLevel_def InfoLevel_def)
  then show ?thesis unfolding level_filters_messages by (simp add: case_prod_unfold)
qed

end
