(* ===== verification/OrmDemo.thy ===== *)
theory OrmDemo
  imports Orm Log
begin

text \<open>
  The closing of a GeeORM engine with what it logs, and the program \<^verbatim>\<open>geeorm/cmd_test/main.go\<close>, which
  sends four raw statements.
\<close>

section \<open>Closing an engine\<close>

definition engine_Close :: "('db \<Rightarrow> 'w \<Rightarrow> error option \<times> 'w) \<Rightarrow> 'db \<Rightarrow> 'w \<times> loggers \<Rightarrow> 'w \<times> loggers" where
  "engine_Close sql_DBClose db = (\<lambda>(w, l).
     case sql_DBClose db w of
       (Some err, w') \<Rightarrow> (w', log_Error ''Failed to close database connection'' l)
     | (None, w') \<Rightarrow> (w', log_Info ''Close database connection success'' l))"

section \<open>The program\<close>

text \<open>The error of a statement is dropped, and the result of the last one is used all the same.\<close>

definition cmd_session :: "('tx, 'w) env \<Rightarrow> (string, ('tx, 'w) Session) action" where
  "cmd_session env s =
     (let (_, s1) = sess_Exec env (sess_Raw ''DROP TABLE IF EXISTS User;'' [] s);
          (_, s2) = sess_Exec env (sess_Raw ''CREATE TABLE User(Name text);'' [] s1);
          (_, s3) = sess_Exec env (sess_Raw ''CREATE TABLE User(Name text);'' [] s2);
          (result, s4) = sess_Exec env
            (sess_Raw ''INSERT INTO User(`Name`) values (?), (?)'' [GoString ''Tom'', GoString ''Sam''] s3)
      in case result of
           Inl err \<Rightarrow> (nil_deref, s4)
         | Inr affected \<Rightarrow>
             (Returns (''Exec success, '' @ strconv_Itoa (case affected of Inr n \<Rightarrow> n | Inl err \<Rightarrow> 0) @
               '' affected'' @ [CHR 0x0A]), s4))"

definition cmd_main ::
  "(string \<Rightarrow> string \<Rightarrow> 'w \<Rightarrow> (error + 'db) \<times> 'w) \<Rightarrow> ('db \<Rightarrow> 'w \<Rightarrow> error option \<times> 'w) \<Rightarrow>
   (string \<Rightarrow> Dialect option) \<Rightarrow> ('db \<Rightarrow> 'w \<Rightarrow> error option \<times> 'w) \<Rightarrow> ('tx, 'w) env \<Rightarrow>
   (string, 'w \<times> loggers) action"
where
  "cmd_main sql_Open sql_Ping dialects sql_DBClose env = (\<lambda>(w, l).
     case NewEngine sql_Open sql_Ping dialects ''sqlite3'' ''gee.db'' w of
       (Inl err, w1) \<Rightarrow> (nil_deref, (w1, l))
     | (Inr (db, d), w1) \<Rightarrow>
         (let (out, s) = cmd_session env (NewSession d (\<lambda>_. [], 0, w1))
          in (out, engine_Close sql_DBClose db (s_world s, l))))"

section \<open>What it sends\<close>

text \<open>
  Whatever the database answers, the program sends its four statements in order, and the values of the
  last one as its variables; the table is created twice, and the error of that is not seen.
\<close>

theorem cmd_sends_four_statements:
  "map snd (fst (s_world (snd (cmd_session (logged e hooks) (sess_New d h n ([], w)))))) =
     [(''DROP TABLE IF EXISTS User; '', []), (''CREATE TABLE User(Name text); '', []),
      (''CREATE TABLE User(Name text); '', []),
      (''INSERT INTO User(`Name`) values (?), (?) '', [GoString ''Tom'', GoString ''Sam''])]"
  by (simp add: cmd_session_def sess_Exec_def sess_Raw_def sess_Clear_def case_prod_unfold Let_def logged_statements
      split: sum.split)

text \<open>The program panics exactly when its last statement fails.\<close>

lemma cmd_panics_on_failed_insert:
  assumes "\<And>vars w. sql_Exec env None ''INSERT INTO User(`Name`) values (?), (?) '' vars w = (Inl err, w)"
  shows "fst (cmd_session env (sess_New d h n w)) = nil_deref"
  using assms by (simp add: cmd_session_def sess_Exec_def sess_Raw_def sess_Clear_def case_prod_unfold Let_def)

lemma cmd_main_closes:
  "cmd_main (\<lambda>driver source w. (Inr (), w)) (\<lambda>db w. (None, w)) init_dialects (\<lambda>db w. (None, w)) row_store
     ([], log_init) =
   (Returns (''Exec success, 1 affected'' @ [CHR 0x0A]),
    ([[], [], [], [GoString ''Tom'', GoString ''Sam'']],
     log_init\<lparr>lg_lines := [(''[info ]'', ''Close database connection success'')]\<rparr>))"
proof -
  have "strconv_Itoa 1 = ''1''" by code_simp
  then show ?thesis
    by (simp add: cmd_main_def NewEngine_def init_dialects_def RegisterDialect_def GetDialect_def cmd_session_def
        sess_Exec_def sess_Raw_def sess_Clear_def NewSession_def Let_def engine_Close_def log_init_def log_Info_def)
qed

end
