(* ===== verification/Spec2Isabelle.thy ===== *)
theory Spec2Isabelle
  imports RpcMain MainCluster Static GeeMain RpcDial OrmDemo
begin

text \<open>
  A verification library for \<^verbatim>\<open>7days-golang\<close>: four small Go frameworks, each with packages of its
  own below \<^verbatim>\<open>src/7days-golang\<close>.  Every definition is translated from the code, as a function that
  computes or, for goroutines that run at once, as a relation of steps; names
  are those of the code, with a prefix for the receiver where names clash (\<^verbatim>\<open>Cache.Add\<close> of the package
  \<^verbatim>\<open>lru\<close> is \<open>lru_Add\<close>).  \<open>Prelude\<close> has the parts of Go and its library that several packages use: 64-bit
  integers as words, strings as byte lists, \<^verbatim>\<open>strings.Split\<close>, \<^verbatim>\<open>sort.Search\<close> and others, and the results
  of code that may return, panic or hang (\<open>outcome\<close>), on a state that is passed along (\<open>action\<close>).
\<close>

paragraph \<open>GeeCache, a distributed cache (\<^verbatim>\<open>GeeCache/geecache\<close>).\<close>

text \<open>
  \<^item> \<open>Store_Interface\<close>: the contract between a bounded store and its client, as a locale; \<open>Lru\<close> and
    \<open>GeeCache\<close> interpret it.
  \<^item> \<open>Lru\<close> (\<^verbatim>\<open>lru/lru.go\<close>): the shared list and map with elements as addresses, refined to an association
    list in the order of use; bounds of the byte count, a loop that may not end as an option.
  \<^item> \<open>ConsistentHash\<close> (\<^verbatim>\<open>consistenthash/consistenthash.go\<close>): the ring, its binary search, the default
    CRC-32 hash; lookups find the successor, and adding nodes moves keys to these only.
  \<^item> \<open>Singleflight\<close> (\<^verbatim>\<open>singleflight/singleflight.go\<close>): a transition system of any number of goroutines, one
    step per critical section; safety, sharing of results, progress, and what a panic leaves behind.
  \<^item> \<open>GeeCache\<close> (\<^verbatim>\<open>byteview.go\<close>, \<^verbatim>\<open>cache.go\<close>, \<^verbatim>\<open>peers.go\<close>, \<^verbatim>\<open>geecache.go\<close>): groups, with getters and peers as
    parameters that may fail or panic; the invariant that a cache holds what the getter returned.
  \<^item> \<open>GeeHttp\<close> (\<^verbatim>\<open>http.go\<close>): the pool as server and picker, the client, the URLs between them.
  \<^item> \<open>Cluster\<close> (\<^verbatim>\<open>GeeCache/main.go\<close>): the nodes of the program together, refined to its database.  The
    network has a number of hops as fuel; one hop is enough, since no node forwards what was forwarded.
  \<^item> \<open>Crc\<close> and \<open>MainCluster\<close> (\<^verbatim>\<open>GeeCache/main.go\<close>): the addresses, flags and the API of the program.  The
    three processes start as nodes of that cluster, and the points of their real addresses under the real
    CRC-32 do not collide, so that they serve the database.
\<close>

paragraph \<open>Gee, a web framework (\<^verbatim>\<open>Gee/gee\<close>).\<close>

text \<open>
  \<^item> \<open>Trie\<close> (\<^verbatim>\<open>trie.go\<close>) and \<open>Router\<close> (\<^verbatim>\<open>router.go\<close>): route patterns, insertion, the search with
    backtracking, parameters; soundness of lookups, reachability of registered routes, and equivalence
    with plain matching for routes that do not clash.
  \<^item> \<open>Context\<close> (\<^verbatim>\<open>context.go\<close>, \<^verbatim>\<open>recovery.go\<close>, \<^verbatim>\<open>logger.go\<close>): handlers are programs over the methods of a
    context, the chain runs them with the index that \<^verbatim>\<open>Next\<close> and \<^verbatim>\<open>Fail\<close> move.  The recursion of \<^verbatim>\<open>Next\<close>
    has fuel: the number of handlers and one more is enough, because each nested call starts at a
    larger index.
  \<^item> \<open>NetUrl\<close> and \<open>NetFile\<close>: what the framework uses of \<^verbatim>\<open>net/url\<close>, \<^verbatim>\<open>path\<close> and the file server of
    \<^verbatim>\<open>net/http\<close>: escaping and queries, cleaning of paths, files and directories below a root.
  \<^item> \<open>Engine\<close> (\<^verbatim>\<open>gee.go\<close>, \<^verbatim>\<open>router_group.go\<close>): groups, their middleware, templates and the handling of a
    request; \<open>Static\<close>: the routes of static files, which serve what the disk has below the root and
    nothing else; \<open>GeeMain\<close> (\<^verbatim>\<open>Gee/main.go\<close>): the demo server.
\<close>

paragraph \<open>GeeRPC, remote procedure calls (\<^verbatim>\<open>GeeRPC/geerpc\<close>).\<close>

text \<open>
  \<^item> \<open>RpcCodec\<close> (\<^verbatim>\<open>codec\<close>, \<^verbatim>\<open>Option\<close>): the order of headers and bodies on a stream; the bytes are not modelled.
  \<^item> \<open>Client\<close> (\<^verbatim>\<open>client.go\<close>): one connection shared by calls, as a transition system with the mutexes of
    the code; \<open>RpcDial\<close> (the dialling functions of \<^verbatim>\<open>client.go\<close>) with the network as a parameter.
  \<^item> \<open>RpcServer\<close> (\<^verbatim>\<open>server.go\<close>, \<^verbatim>\<open>service.go\<close>): services by reflection, the loop that serves a connection,
    and the two goroutines that handle a request against its time limit.
  \<^item> \<open>RpcSystem\<close>: client and server on one connection, with all interleavings; a remote call that
    returns without an error returns what a local call would.
  \<^item> \<open>Registry\<close> (\<^verbatim>\<open>registry/registry.go\<close>), \<open>Discovery\<close> (\<^verbatim>\<open>xclient/discovery.go\<close>, \<^verbatim>\<open>discovery_gee.go\<close>) and
    \<open>XClient\<close> (\<^verbatim>\<open>xclient/xclient.go\<close>): who is alive, at explicit times; the choice of servers; a client of
    many servers with its broadcasts over all orders of completion.  \<open>RpcCluster\<close> puts the three together
    over time: calls reach only servers whose heartbeat is recent enough.  \<open>XBroadcast\<close>: the goroutines of a
    broadcast with the mutexes of the code; it is all or an error, and it ends.
  \<^item> \<open>RpcDebug\<close> (\<^verbatim>\<open>debug.go\<close>): the page that counts calls; \<open>RpcDemo\<close> and \<open>RpcMain\<close> (\<^verbatim>\<open>GeeRPC/main.go\<close>): the
    service of the demo and its calls, over the system of client and server; the order of the start, after
    which the clients find the servers; what broadcasts log.
\<close>

paragraph \<open>GeeORM, an object-relational mapping (\<^verbatim>\<open>GeeORM/geeorm\<close>).\<close>

text \<open>
  \<^item> \<open>Clause\<close> (\<^verbatim>\<open>clause\<close>): generators of the parts of a statement; \<open>Schema\<close> (\<^verbatim>\<open>dialect\<close>, \<^verbatim>\<open>schema\<close>): tables of
    struct types, with the locale \<open>sql_dialect\<close> that the SQLite dialect interprets.
  \<^item> \<open>Session\<close> (\<^verbatim>\<open>session\<close>): every operation of a session.  The database and the hooks of model structs are
    the parameter \<open>env\<close>, structs that hooks may change are on a heap.
  \<^item> \<open>Session_Contract\<close>: the locale \<open>session_invariant\<close>, which lifts a property of the small steps of a
    session to all operations; \<open>Statements\<close> interprets it (placeholders fit the variables in whatever
    is sent), \<open>Orm\<close> does again (what others see of an open transaction); \<open>Records\<close>: reading and changing.
  \<^item> \<open>Orm\<close> (\<^verbatim>\<open>geeorm.go\<close>): transactions and migration, atomic if the database keeps its promises (\<open>tx_laws\<close>).
  \<^item> \<open>Log\<close> (\<^verbatim>\<open>log/log.go\<close>): the loggers and their levels; \<open>OrmDemo\<close> (\<^verbatim>\<open>cmd_test/main.go\<close>): the program that
    sends four statements.
\<close>

paragraph \<open>Not modelled.\<close>

text \<open>
  The time stamps and colours of logs, and most calls that write to them; sockets, below listening
  (\<^verbatim>\<open>Run\<close>, \<^verbatim>\<open>ListenAndServe\<close>) and hijacking; the parsing of command line flags; the generated protobuf
  code besides its two messages; ranges and conditional requests of the file server.  Parameters of the
  model stand for what is not under \<^verbatim>\<open>src\<close>: transports, the database, JSON, gob and protobuf encodings,
  the execution of HTML templates, the disk, the frames of the stack, the clock and random numbers, and
  all code of users (getters, handlers, hooks, methods of services, the eviction callback).
\<close>

section \<open>Properties across components\<close>

text \<open>
  A request is forwarded at most once.  Two nodes that were given the same peers, in any
  order, with no two peers on one point of the ring: if the first node forwards a key to the
  second one, the second one treats the key as its own and does not forward it again.
\<close>

theorem no_forwarding_loop:
  assumes "collision_free (ch_New defaultReplicas None) ps" and "set ps = set ps'"
    and "PickPeer (pool_Set ps (NewHTTPPool self_a)) k = Returns (Some (Some (self_b @ defaultBasePath)))"
  shows "PickPeer (pool_Set ps' (NewHTTPPool self_b)) k = Returns None"
proof -
  have "ch_Get k (ch_Add ps (ch_New defaultReplicas None)) = self_b"
    using assms(3) by (auto simp: PickPeer_def pool_Set_def Let_def httpGetters_fold NewHTTPPool_def
        split: if_splits)
  then have "ch_Get k (ch_Add ps' (ch_New defaultReplicas None)) = self_b"
    using ring_order_independent [OF assms(1,2), of k] by simp
  then show ?thesis by (simp add: PickPeer_def pool_Set_def NewHTTPPool_def)
qed

theorem no_forwarding_loop_witness:
  "PickPeer (pool_Set [''B''] (NewHTTPPool ''B'')) ''Tom'' = Returns None"
proof (rule no_forwarding_loop)
  show "collision_free (ch_New defaultReplicas None) [''B'']" by (simp add: collision_free_def)
  show "PickPeer (pool_Set [''B''] (NewHTTPPool ''A'')) ''Tom'' =
      Returns (Some (Some (''B'' @ defaultBasePath)))"
    using pool_owner [of "[''B'']" "''Tom''"]
    by (simp add: PickPeer_def pool_Set_def Let_def NewHTTPPool_def)
qed simp

text \<open>A transport to the server at \<open>addr\<close>, which decodes the path of a URL and runs the handler.\<close>

definition delivers ::
  "(string \<Rightarrow> (error + http_reply, 's) action) \<Rightarrow> string \<Rightarrow> (string \<Rightarrow> (http_response, 's) action) \<Rightarrow> bool"
where
  "delivers http_Get addr serve \<longleftrightarrow>
     (\<forall>p path s resp s'. url_PathUnescape p = Some path \<longrightarrow> serve path s = (Returns resp, s') \<longrightarrow>
        http_Get (addr @ p) s = (Returns (Inr (reply_of resp)), s'))"

text \<open>
  A peer answers with its own lookup.  The transport is any function that hands the decoded
  path to the server of the peer and returns what the server wrote, and the encoding of a
  response is any one that can be decoded.  Then, for names without a space and a group name
  without a slash, fetching a key from the peer runs the peer's \<^verbatim>\<open>Group.Get\<close> for that key and
  yields exactly its bytes; an error of the lookup comes back as the error of status 500.
\<close>

theorem peer_fetch_end_to_end:
  assumes "delivers http_Get addr (ServeHTTP marshal pool)" and "basePath pool = defaultBasePath"
    and "\<And>rs. \<exists>body. marshal rs = Inr body \<and> unmarshal body = Inr rs"
    and "CHR ''/'' \<notin> set g" and "CHR '' '' \<notin> set g" and "CHR '' '' \<notin> set k"
    and "GetGroup g r = Some a" and "group_at r a = Some grp"
    and "Group_Get k (grp, w) = (Returns res, (grp', w'))"
  shows "httpGetter_Get http_Get unmarshal (Some (addr @ defaultBasePath))
      \<lparr>Group_name = g, Key = k\<rparr> (r, w) =
    (Returns (case res of Inr v \<Rightarrow> Inr \<lparr>Value = bv_b v\<rparr> | Inl err \<Rightarrow> Inl ''server returned: 500 Internal Server Error''),
     (r\<lparr>group_at := (group_at r)(a \<mapsto> grp')\<rparr>, w'))"
proof -
  define p where "p = defaultBasePath @ url_QueryEscape g @ ''/'' @ url_QueryEscape k"
  define path where "path = defaultBasePath @ g @ ''/'' @ k"
  have path: "url_PathUnescape p = Some path"
    unfolding p_def path_def by (rule request_path_plain [OF assms(5,6)])
  have url: "request_url (addr @ defaultBasePath) \<lparr>Group_name = g, Key = k\<rparr> = addr @ p"
    by (simp add: p_def request_url_def)
  let ?s' = "(r\<lparr>group_at := (group_at r)(a \<mapsto> grp')\<rparr>, w')"
  have fetched: "http_Get (request_url (addr @ defaultBasePath) \<lparr>Group_name = g, Key = k\<rparr>) (r, w) =
      (Returns (Inr (reply_of resp)), ?s')" if "ServeHTTP marshal pool path (r, w) = (Returns resp, ?s')" for resp
    using assms(1) path that unfolding delivers_def url by blast
  have looked_up: "at_group a (Group_Get k) (r, w) = (Returns res, ?s')"
    using assms(8,9) by (simp add: at_group_def)
  note serve = ServeHTTP_names [OF assms(2,4,7), of marshal k w, unfolded looked_up, folded path_def]
  show ?thesis
  proof (cases res)
    case (Inl err)
    then have "ServeHTTP marshal pool path (r, w) = (Returns (http_Error err 500), ?s')" using serve by simp
    from httpGetter_reply [where http_Get = http_Get and w = "(r, w)", OF fetched [OF this]] show ?thesis
      using Inl by (simp add: http_Error_def reply_of_def http_StatusText_def Itoa_500)
  next
    case (Inr v)
    obtain body where body: "marshal \<lparr>Value = bv_b v\<rparr> = Inr body" "unmarshal body = Inr \<lparr>Value = bv_b v\<rparr>"
      using assms(3) by blast
    then have "ServeHTTP marshal pool path (r, w) =
        (Returns \<lparr>StatusCode = 200, ContentType = ''application/octet-stream'', Body = body\<rparr>, ?s')"
      using Inr serve by (simp add: bv_ByteSlice_def)
    from httpGetter_reply [where http_Get = http_Get and w = "(r, w)", OF fetched [OF this]] show ?thesis using Inr body by simp
  qed
qed

text \<open>A transport, an encoding and a registry with one group for the witness.\<close>

definition direct_Get :: "string \<Rightarrow> (error + http_reply, nat registry \<times> nat) action" where
  "direct_Get url s =
     (case url_PathUnescape (drop 1 url) of
        None \<Rightarrow> (Returns (Inl ''bad url''), s)
      | Some path \<Rightarrow>
          (case ServeHTTP (\<lambda>rs. Inr (Value rs)) (NewHTTPPool ''B'') path s of
             (Returns resp, s') \<Rightarrow> (Returns (Inr (reply_of resp)), s')
           | (_, s') \<Rightarrow> (Returns (Inl ''EOF''), s')))"

definition one_group :: "nat registry" where
  "one_group = snd (NewGroup ''scores'' 2048 (Some slow_db)
     \<lparr>groups = Map.empty, group_at = Map.empty, next_ref = 0\<rparr>)"

theorem peer_fetch_end_to_end_witness:
  "\<exists>r'. httpGetter_Get direct_Get (\<lambda>b. Inr \<lparr>Value = b\<rparr>) (Some (''B'' @ defaultBasePath))
      \<lparr>Group_name = ''scores'', Key = ''Tom''\<rparr> (one_group, 0) = (Returns (Inr \<lparr>Value = ''630''\<rparr>), (r', 1))"
proof -
  let ?g = "new_group ''scores'' 2048 slow_db"
  have "\<exists>c. Group_Get ''Tom'' (?g, 0) = (Returns (Inr \<lparr>bv_b = ''630''\<rparr>), (?g\<lparr>mainCache := c\<rparr>, 1)) \<and>
      cache_inv c \<and> cache_contents c ''Tom'' = Some \<lparr>bv_b = ''630''\<rparr>"
    by (rule load_locally)
      (simp_all add: new_group_def cache_inv_def cache_contents_def slow_db_def pair_bytes_def
        bv_Len_def word_sle_eq word_sless_alt)
  then obtain c where get:
    "Group_Get ''Tom'' (?g, 0) = (Returns (Inr \<lparr>bv_b = ''630''\<rparr>), (?g\<lparr>mainCache := c\<rparr>, 1))" by blast
  have transport: "delivers direct_Get ''B'' (ServeHTTP (\<lambda>rs. Inr (Value rs)) (NewHTTPPool ''B''))"
    by (simp add: delivers_def direct_Get_def)
  show ?thesis
    using peer_fetch_end_to_end [OF transport, where unmarshal = "\<lambda>b. Inr \<lparr>Value = b\<rparr>" and
        g = "''scores''" and k = "''Tom''" and r = one_group and a = 0, OF _ _ _ _ _ _ _ get]
    by (simp add: one_group_def NewGroup_def GetGroup_def NewHTTPPool_def)
qed

end
